(* ===== verification/EV_Prelude.thy ===== *)
theory EV_Prelude
  imports Main "HOL-Library.Word" "HOL-Library.AList"
begin

text \<open>
  The vocabulary every component shares: machine integers at their width, results with the
  two ways a Rust function can fail to return (an \<open>Err\<close> value, a panic), actions that thread a
  state through such results, decimal rendering for the error messages, and the lemmas on
  association lists (the model of \<open>HashMap\<close> and \<open>BTreeMap\<close>) and on \<open>u32\<close> ranges.
\<close>

type_synonym u8 = "8 word"
type_synonym u32 = "32 word"
type_synonym u64 = "64 word"

named_theorems act_simps "unfolding of actions and results"
named_theorems store_simps "what a store operation does to the map it represents"

section \<open>Results and actions\<close>

text \<open>
  A call either returns \<open>Ok a\<close> (\<open>Inr a\<close>), returns \<open>Err e\<close> (\<open>Inl (Err e)\<close>) or panics
  (\<open>Inl (Panic msg)\<close>). The question mark operator stops at both kinds of failure.
\<close>

datatype 'e fault = Err 'e | Panic string

type_synonym ('e, 'a) result = "'e fault + 'a"

definition bindR :: "('e, 'a) result \<Rightarrow> ('a \<Rightarrow> ('e, 'b) result) \<Rightarrow> ('e, 'b) result" where
  "bindR r f = (case r of Inl e \<Rightarrow> Inl e | Inr a \<Rightarrow> f a)"

definition map_fault :: "('e \<Rightarrow> 'f) \<Rightarrow> ('e, 'a) result \<Rightarrow> ('f, 'a) result" where
  "map_fault g r =
     (case r of Inl (Err e) \<Rightarrow> Inl (Err (g e)) | Inl (Panic m) \<Rightarrow> Inl (Panic m) | Inr a \<Rightarrow> Inr a)"

text \<open>
  Library calls give \<open>string + 'a\<close>, the error already rendered by \<open>to_string()\<close>;
  \<open>lib_err\<close> is the \<open>map_err(|e| Variant(e.to_string()))\<close> around them.
\<close>

definition lib_err :: "(string \<Rightarrow> 'e) \<Rightarrow> string + 'a \<Rightarrow> ('e, 'a) result" where
  "lib_err g r = (case r of Inl m \<Rightarrow> Inl (Err (g m)) | Inr a \<Rightarrow> Inr a)"

text \<open>
  An action on a state of type \<open>'s\<close>: the state it leaves is part of the outcome of a failing
  call too, because a store that was written before the failure keeps what was written.
\<close>

type_synonym ('s, 'e, 'a) act = "'s \<Rightarrow> ('e, 'a) result \<times> 's"

definition ret :: "'a \<Rightarrow> ('s, 'e, 'a) act" where
  "ret a s = (Inr a, s)"

definition bindS :: "('s, 'e, 'a) act \<Rightarrow> ('a \<Rightarrow> ('s, 'e, 'b) act) \<Rightarrow> ('s, 'e, 'b) act" where
  "bindS m f s = (case m s of (Inl e, s') \<Rightarrow> (Inl e, s') | (Inr a, s') \<Rightarrow> f a s')"

definition of_result :: "('e, 'a) result \<Rightarrow> ('s, 'e, 'a) act" where
  "of_result r s = (r, s)"

lemma bindR_simps [simp]: "bindR (Inl e) f = Inl e" "bindR (Inr a) f = f a"
  by (simp_all add: bindR_def)

lemma bindR_Inr: "bindR r f = Inr b \<longleftrightarrow> (\<exists>a. r = Inr a \<and> f a = Inr b)"
  by (cases r) simp_all

lemma map_fault_simps [simp]:
  "map_fault g (Inl (Err e)) = Inl (Err (g e))"
  "map_fault g (Inl (Panic m)) = Inl (Panic m)"
  "map_fault g (Inr a) = Inr a"
  by (simp_all add: map_fault_def)

lemma map_fault_Inr [simp]: "map_fault g r = Inr a \<longleftrightarrow> r = Inr a"
  by (simp add: map_fault_def split: sum.splits fault.splits)

lemma lib_err_simps [simp]: "lib_err g (Inl m) = Inl (Err (g m))" "lib_err g (Inr a) = Inr a"
  by (simp_all add: lib_err_def)

lemma lib_err_Inr [simp]: "lib_err g r = Inr a \<longleftrightarrow> r = Inr a"
  by (cases r) simp_all

lemma lib_err_Inl: "lib_err g r = Inl f \<longleftrightarrow> (\<exists>m. r = Inl m \<and> f = Err (g m))"
  by (cases r) auto

lemma bindS_Inr:
  "bindS m f s = (Inr b, s'') \<longleftrightarrow> (\<exists>a s'. m s = (Inr a, s') \<and> f a s' = (Inr b, s''))"
  by (simp add: bindS_def split: prod.splits sum.splits)

lemma bindS_InrE:
  assumes "bindS m f s = (Inr b, s'')"
  obtains a s' where "m s = (Inr a, s')" and "f a s' = (Inr b, s'')"
  using assms by (auto simp: bindS_Inr)

lemma bindS_step [simp]: "m s = (Inr a, s') \<Longrightarrow> bindS m f s = f a s'"
  by (simp add: bindS_def)

lemma bindS_fail [simp]: "m s = (Inl e, s') \<Longrightarrow> bindS m f s = (Inl e, s')"
  by (simp add: bindS_def)

lemma ret_step [simp]: "ret a s = (Inr a, s)"
  by (simp add: ret_def)

lemma bindS_ret [simp]: "bindS (ret a) f = f a"
  by (simp add: fun_eq_iff bindS_def)

lemma of_result_step [simp]: "of_result r s = (r, s)"
  by (simp add: of_result_def)

lemma bindS_assoc: "bindS (bindS m f) g = bindS m (\<lambda>a. bindS (f a) g)"
  by (simp add: fun_eq_iff bindS_def split: prod.splits sum.splits)

section \<open>Rendering of numbers\<close>

definition digit_char :: "nat \<Rightarrow> char" where
  "digit_char d = ''0123456789'' ! (d mod 10)"

fun dec :: "nat \<Rightarrow> string" where
  "dec n = (if n < 10 then [digit_char n] else dec (n div 10) @ [digit_char (n mod 10)])"

declare dec.simps [simp del]

text \<open>Reading a decimal back, to show that the rendering loses nothing.\<close>

definition undec :: "string \<Rightarrow> nat" where
  "undec s = foldl (\<lambda>n c. 10 * n + (of_char c - 48)) 0 s"

lemma digit_char_value: "d < 10 \<Longrightarrow> of_char (digit_char d) - 48 = (d :: nat)"
proof -
  have "\<forall>d \<in> {..<10}. of_char (digit_char d) - 48 = (d :: nat)"
    by (simp add: digit_char_def lessThan_nat_numeral)
  then show "d < 10 \<Longrightarrow> of_char (digit_char d) - 48 = (d :: nat)" by simp
qed

lemma digit_char_in: "digit_char d \<in> set ''0123456789''"
proof -
  have "d mod 10 < length ''0123456789''" by simp
  then show ?thesis unfolding digit_char_def by (rule nth_mem)
qed

lemma undec_dec [simp]: "undec (dec n) = n"
proof (induction n rule: dec.induct)
  case (1 n)
  show ?case
  proof (cases "n < 10")
    case True
    then show ?thesis by (simp add: dec.simps [of n] undec_def digit_char_value)
  next
    case False
    have "undec (dec (n div 10) @ [digit_char (n mod 10)]) = 10 * undec (dec (n div 10)) + n mod 10"
      by (simp add: undec_def digit_char_value)
    then show ?thesis using False 1 by (simp add: dec.simps [of n])
  qed
qed

lemma dec_inject [simp]: "dec m = dec n \<longleftrightarrow> m = n"
  by (metis undec_dec)

lemma set_dec: "set (dec n) \<subseteq> set ''0123456789''"
proof (induction n rule: dec.induct)
  case (1 n)
  then show ?case
    using digit_char_in [of n] digit_char_in [of "n mod 10"]
    by (cases "n < 10") (simp_all only: dec.simps [of n] if_True if_False set_append, auto)
qed

section \<open>Ranges of \<open>u32\<close>\<close>

text \<open>The values of \<open>start..=tip\<close>: empty when \<open>tip < start\<close>, and it never overflows.\<close>

definition u32_range :: "u32 \<Rightarrow> u32 \<Rightarrow> u32 list" where
  "u32_range a b = map word_of_nat [unat a ..< Suc (unat b)]"

lemma u32_range_empty: "b < a \<Longrightarrow> u32_range a b = []"
  by (simp add: u32_range_def word_less_nat_alt)

lemma u32_range_Cons:
  assumes "a \<le> b"
  shows "u32_range a b = a # map word_of_nat [Suc (unat a) ..< Suc (unat b)]"
proof -
  have "unat a < Suc (unat b)" using assms by (simp add: word_le_nat_alt)
  then show ?thesis unfolding u32_range_def by (subst upt_conv_Cons) simp_all
qed

text \<open>\<open>u32::try_from\<close> of a \<open>usize\<close> succeeds on the values that fit.\<close>

definition fits_u32 :: "nat \<Rightarrow> bool" where
  "fits_u32 n \<longleftrightarrow> int n < 2 ^ 32"

lemma fits_u32_iff [simp]: "fits_u32 n \<longleftrightarrow> n < 2 ^ 32"
  by (simp add: fits_u32_def)

lemma unat_word_of_nat_u32: "n < 2 ^ 32 \<Longrightarrow> unat (word_of_nat n :: u32) = n"
  by (simp add: unat_of_nat take_bit_nat_eq_self)

lemma unat_u32_bound: "unat (a :: u32) < 2 ^ 32"
  using unsigned_less [of a] by simp

lemma set_u32_range: "set (u32_range a b) = {h. a \<le> h \<and> h \<le> b}"
proof -
  have "h \<in> word_of_nat ` {unat a ..< Suc (unat b)}" if "a \<le> h" "h \<le> b" for h :: u32
    using that by (intro image_eqI [of _ _ "unat h"]) (auto simp: word_le_nat_alt)
  moreover have "a \<le> word_of_nat n \<and> (word_of_nat n :: u32) \<le> b"
    if "unat a \<le> n" "n < Suc (unat b)" for n
  proof -
    have "n < 2 ^ 32" using that(2) unat_u32_bound [of b] by linarith
    then show ?thesis using that by (simp add: word_le_nat_alt unat_word_of_nat_u32)
  qed
  ultimately show ?thesis unfolding u32_range_def by (auto simp del: upt_Suc)
qed

lemma u32_succ: "unat a + 1 < 2 ^ 32 \<Longrightarrow> unat (a + 1 :: u32) = unat a + 1"
  by (simp add: unat_word_ariths)

section \<open>Association lists\<close>

lemma map_of_update [simp]: "map_of (AList.update k v al) = (map_of al)(k \<mapsto> v)"
  by (simp add: update_conv')

lemma map_of_delete [simp]: "map_of (AList.delete k al) = (map_of al)(k := None)"
  by (simp add: delete_conv')

declare update_conv [simp del] delete_conv [simp del]

lemma map_of_filter_fst:
  "map_of (filter (\<lambda>p. P (fst p)) al) k = (if P k then map_of al k else None)"
  by (induction al) auto

lemma map_of_filter_snd:
  "distinct (map fst al) \<Longrightarrow>
   map_of (filter (\<lambda>p. Q (snd p)) al) k = (case map_of al k of None \<Rightarrow> None
     | Some v \<Rightarrow> if Q v then Some v else None)"
  by (induction al) (auto split: option.splits simp: map_of_eq_None_iff)

lemma map_of_map_snd: "map_of (map (\<lambda>p. (fst p, f (snd p))) al) k = map_option f (map_of al k)"
  by (induction al) auto

lemma distinct_keys_filter: "distinct (map fst al) \<Longrightarrow> distinct (map fst (filter P al))"
  by (rule distinct_map_filter)

section \<open>Slices\<close>

text \<open>\<open>slice::get\<close>: the element, or \<open>None\<close> out of range.\<close>

definition get_at :: "'a list \<Rightarrow> nat \<Rightarrow> 'a option" where
  "get_at xs i = (if i < length xs then Some (xs ! i) else None)"

lemma get_at_Some: "get_at xs i = Some x \<longleftrightarrow> i < length xs \<and> xs ! i = x"
  by (auto simp: get_at_def)

section \<open>Ordered maps\<close>

text \<open>
  \<open>BTreeMap\<close>: the entries in ascending order of their keys. \<open>bt_insert\<close> gives the map after
  \<open>insert\<close>; the value it returns (the old one, if the key was there) is \<open>map_of m k\<close>.
\<close>

fun bt_insert :: "'k :: linorder \<Rightarrow> 'v \<Rightarrow> ('k \<times> 'v) list \<Rightarrow> ('k \<times> 'v) list" where
  "bt_insert k v [] = [(k, v)]"
| "bt_insert k v ((k', v') # m) =
     (if k < k' then (k, v) # (k', v') # m
      else if k = k' then (k, v) # m
      else (k', v') # bt_insert k v m)"

definition bt_wf :: "('k :: linorder \<times> 'v) list \<Rightarrow> bool" where
  "bt_wf m \<longleftrightarrow> sorted_wrt (<) (map fst m)"

lemma bt_wf_Nil [simp]: "bt_wf []"
  by (simp add: bt_wf_def)

lemma map_of_bt_insert [simp]: "bt_wf m \<Longrightarrow> map_of (bt_insert k v m) = (map_of m)(k \<mapsto> v)"
proof (induction k v m rule: bt_insert.induct)
  case (2 k v k' v' m)
  have "map_of m k = None" if "k < k'" using "2.prems" that by (force simp: bt_wf_def map_of_eq_None_iff)
  with 2 show ?case by (auto simp: bt_wf_def fun_eq_iff)
qed simp

lemma keys_bt_insert: "fst ` set (bt_insert k v m) = insert k (fst ` set m)"
  by (induction k v m rule: bt_insert.induct) auto

lemma bt_wf_insert [simp]: "bt_wf m \<Longrightarrow> bt_wf (bt_insert k v m)"
proof (induction k v m rule: bt_insert.induct)
  case (2 k v k' v' m)
  have "\<forall>x \<in> fst ` set (bt_insert k v m). k' < x" if "\<not> k < k'" "k \<noteq> k'"
    using that "2.prems" unfolding keys_bt_insert by (auto simp: bt_wf_def)
  with 2 show ?case by (fastforce simp: bt_wf_def)
qed (simp add: bt_wf_def)

lemma bt_wf_distinct: "bt_wf m \<Longrightarrow> distinct (map fst m)"
  by (simp add: bt_wf_def strict_sorted_iff)

lemma alist_eqI:
  "map fst xs = map fst ys \<Longrightarrow> distinct (map fst xs) \<Longrightarrow> map_of xs = map_of ys \<Longrightarrow> xs = ys"
proof (induction xs arbitrary: ys)
  case (Cons x xs)
  then obtain y ys' where ys: "ys = y # ys'" and key: "fst x = fst y" and keys: "map fst xs = map fst ys'"
    by (cases ys) auto
  have "snd x = snd y" using fun_cong [OF Cons.prems(3), of "fst x"] ys key by (cases x; cases y) simp
  moreover have "map_of xs k = map_of ys' k" for k
  proof (cases "k = fst x")
    case True
    have "k \<notin> fst ` set xs" using Cons.prems(2) True by simp
    moreover have "fst ` set ys' = fst ` set xs" using keys by (metis list.set_map)
    ultimately show ?thesis by (metis map_of_eq_None_iff)
  next
    case False
    then show ?thesis using fun_cong [OF Cons.prems(3), of k] ys key by (cases x; cases y) simp
  qed
  ultimately show ?case using Cons.IH [OF keys] Cons.prems(2) ys key by (auto simp: prod_eq_iff)
qed simp

text \<open>An ordered map is determined by what it maps.\<close>

lemma bt_eqI:
  assumes "bt_wf m" and "bt_wf n" and "map_of m = map_of n"
  shows "m = n"
proof -
  have dom: "fst ` set m = fst ` set n"
    using assms(3) by (simp flip: dom_map_of_conv_image_fst)
  then have keys: "map fst m = map fst n"
    using assms(1,2) by (intro sorted_distinct_set_unique) (auto simp: bt_wf_def strict_sorted_iff)
  show ?thesis by (rule alist_eqI [OF keys bt_wf_distinct [OF assms(1)] assms(3)])
qed

end
