(* ===== verification/Elements_Types.thy ===== *)
theory Elements_Types
  imports EV_Prelude
begin

text \<open>
  The data of the \<open>elements\<close> crate as far as this crate reads or writes it (scripts, outpoints,
  outputs, transactions, blocks), the interface to the functions of that crate (their results are
  parameters, collected in the record \<open>elements_lib\<close>), and the crate's own error enums of
  \<open>src/error.rs\<close> with their rendering.
\<close>

section \<open>Identifiers, scripts and outputs\<close>

datatype txid = Txid "256 word"
datatype block_hash = BlockHash "256 word"
datatype asset_id = AssetId "256 word"
datatype script = Script (script_bytes: "u8 list")
datatype outpoint = OutPoint (op_txid: txid) (op_vout: u32)

definition script_is_empty :: "script \<Rightarrow> bool" where
  "script_is_empty s \<longleftrightarrow> script_bytes s = []"

text \<open>The confidential encodings: absent, explicit, or a commitment.\<close>

datatype conf_asset = AssetNull | AssetExplicit asset_id | AssetConfidential "u8 list"
datatype conf_value = ValueNull | ValueExplicit u64 | ValueConfidential "u8 list"

record txout =
  to_asset :: conf_asset
  to_value :: conf_value
  to_nonce :: "u8 list"
  to_script_pubkey :: script
  to_witness :: "u8 list"

record txout_secrets =
  sec_asset :: asset_id
  sec_asset_bf :: "256 word"
  sec_value :: u64
  sec_value_bf :: "256 word"

text \<open>
  An input is its previous output and the rest of its data, which this crate never inspects.
\<close>

record txin =
  ti_previous_output :: outpoint
  ti_body :: "u8 list"

record transaction =
  tx_version :: u32
  tx_lock_time :: u32
  tx_input :: "txin list"
  tx_output :: "txout list"

record block =
  blk_header :: "u8 list"
  blk_txdata :: "transaction list"

text \<open>
  \<open>Transaction::txid\<close>, \<open>Block::block_hash\<close> consensus serialisation and the rendering of a
  hash are functions of the \<open>elements\<close> crate: parameters of the model.
\<close>

record elements_lib =
  lib_txid :: "transaction \<Rightarrow> txid"
  lib_block_hash :: "block \<Rightarrow> block_hash"
  lib_serialize_block :: "block \<Rightarrow> u8 list"
  lib_serialize_tx :: "transaction \<Rightarrow> u8 list"
  lib_show_block_hash :: "block_hash \<Rightarrow> string"

section \<open>Errors\<close>

datatype 'id pset_error =
    SignerBackend string
  | Elements string
  | UnexpectedSignatures nat
  | NotBlinded
  | InsufficientSignatures nat nat
  | FinalizationFailed string
  | BlindingFailed string
  | UnknownSigner 'id
  | InvalidSignature 'id string

datatype wollet_error =
    WDescriptor string
  | WBuild string
  | WAddressDerivation string
  | WUnblind string

datatype 'id spend_error =
    SBuild string
  | SDescriptor string
  | SEnrich string
  | SUnblind string
  | SPset "'id pset_error"

datatype sync_error =
    Store string
  | ChainSource string
  | Encoding string
  | Wollet wollet_error

datatype ct_descriptor_error =
    BadBlindingKeyLength nat
  | DuplicateKey string
  | NoSigners
  | CtDescriptor string
  | CtNetworkMismatch string string

text \<open>The rendering \<open>to_string()\<close> gives, variant by variant (\<open>thiserror\<close> format strings).\<close>

fun display_pset_error :: "('id \<Rightarrow> string) \<Rightarrow> 'id pset_error \<Rightarrow> string" where
  "display_pset_error sid (SignerBackend m) = ''signer backend error: '' @ m"
| "display_pset_error sid (Elements m) = ''elements error: '' @ m"
| "display_pset_error sid (UnexpectedSignatures n) =
     ''expected unsigned PSET but found '' @ dec n @ '' partial signatures''"
| "display_pset_error sid NotBlinded =
     ''PSET has not been blinded '' @ [CHR 0xE2, CHR 0x80, CHR 0x94] @ '' blind before signing''"
| "display_pset_error sid (InsufficientSignatures have need) =
     ''insufficient signatures: have '' @ dec have @ '', need '' @ dec need"
| "display_pset_error sid (FinalizationFailed m) = ''finalization failed: '' @ m"
| "display_pset_error sid (BlindingFailed m) = ''blinding failed: '' @ m"
| "display_pset_error sid (UnknownSigner i) = ''unknown signer: '' @ sid i"
| "display_pset_error sid (InvalidSignature i m) =
     ''invalid signature from signer '' @ sid i @ '': '' @ m"

fun display_wollet_error :: "wollet_error \<Rightarrow> string" where
  "display_wollet_error (WDescriptor m) = ''failed to parse wollet descriptor: '' @ m"
| "display_wollet_error (WBuild m) = ''failed to build wollet: '' @ m"
| "display_wollet_error (WAddressDerivation m) = ''failed to derive address: '' @ m"
| "display_wollet_error (WUnblind m) = ''failed to unblind output: '' @ m"

fun display_spend_error :: "('id \<Rightarrow> string) \<Rightarrow> 'id spend_error \<Rightarrow> string" where
  "display_spend_error sid (SBuild m) = ''transaction build failed: '' @ m"
| "display_spend_error sid (SDescriptor m) = ''descriptor derivation failed: '' @ m"
| "display_spend_error sid (SEnrich m) = ''input enrichment failed: '' @ m"
| "display_spend_error sid (SUnblind m) = ''output unblind failed: '' @ m"
| "display_spend_error sid (SPset e) = display_pset_error sid e"

fun display_sync_error :: "sync_error \<Rightarrow> string" where
  "display_sync_error (Store m) = ''store error: '' @ m"
| "display_sync_error (ChainSource m) = ''chain source error: '' @ m"
| "display_sync_error (Encoding m) = ''encoding error: '' @ m"
| "display_sync_error (Wollet e) = display_wollet_error e"

fun display_ct_descriptor_error :: "ct_descriptor_error \<Rightarrow> string" where
  "display_ct_descriptor_error (BadBlindingKeyLength n) =
     ''master blinding key must be exactly 32 bytes (got '' @ dec n @ '')''"
| "display_ct_descriptor_error (DuplicateKey m) = ''duplicate signer key: '' @ m"
| "display_ct_descriptor_error NoSigners = ''descriptor builder has no signers''"
| "display_ct_descriptor_error (CtDescriptor m) = ''descriptor error: '' @ m"
| "display_ct_descriptor_error (CtNetworkMismatch e a) =
     ''network mismatch: expected '' @ e @ '', got '' @ a"

end
