(* ===== verification/Network.thy ===== *)
theory Network
  imports Elements_Types
begin

text \<open>
  \<open>src/network.rs\<close>: the network enum, its conversions to the types of \<open>emvault-core\<close>, LWK and
  \<open>elements\<close>, and its rendering. The types of the other crates appear with the constructors this
  crate names; LWK's default regtest parameters and its parameter builder are arguments.
\<close>

datatype elements_network = Liquid | LiquidTestnet | ElementsRegtest

datatype elements_network_id = IdLiquid | IdLiquidTestnet | IdElementsRegtest

datatype network_type = NT_Bitcoin string | NT_Elements elements_network_id

datatype addr_params = LIQUID | LIQUID_TESTNET | ELEMENTS

datatype elements_params = ElementsParams (ep_policy_asset: asset_id) (ep_genesis: block_hash)

datatype lwk_network = LwkLiquid | LwkTestnetLiquid | LwkCustomElements elements_params

fun address_params :: "elements_network \<Rightarrow> addr_params" where
  "address_params Liquid = LIQUID"
| "address_params LiquidTestnet = LIQUID_TESTNET"
| "address_params ElementsRegtest = ELEMENTS"

fun to_lwk :: "lwk_network \<Rightarrow> elements_network \<Rightarrow> lwk_network" where
  "to_lwk default_regtest Liquid = LwkLiquid"
| "to_lwk default_regtest LiquidTestnet = LwkTestnetLiquid"
| "to_lwk default_regtest ElementsRegtest = default_regtest"

text \<open>\<open>build\<close> is LWK's parameter builder; its failure is the \<open>expect\<close> of the source.\<close>

definition custom_regtest ::
    "(asset_id \<Rightarrow> block_hash \<Rightarrow> string + elements_params) \<Rightarrow> asset_id \<Rightarrow> block_hash
     \<Rightarrow> ('e, lwk_network) result" where
  "custom_regtest build policy_asset genesis_hash =
     (case build policy_asset genesis_hash of
        Inl _ \<Rightarrow> Inl (Panic ''valid Elements params'')
      | Inr params \<Rightarrow> Inr (LwkCustomElements params))"

fun to_core_id :: "elements_network \<Rightarrow> elements_network_id" where
  "to_core_id Liquid = IdLiquid"
| "to_core_id LiquidTestnet = IdLiquidTestnet"
| "to_core_id ElementsRegtest = IdElementsRegtest"

fun from_core_id :: "elements_network_id \<Rightarrow> elements_network" where
  "from_core_id IdLiquid = Liquid"
| "from_core_id IdLiquidTestnet = LiquidTestnet"
| "from_core_id IdElementsRegtest = ElementsRegtest"

definition to_network_type :: "elements_network \<Rightarrow> network_type" where
  "to_network_type n = NT_Elements (to_core_id n)"

fun display_network :: "elements_network \<Rightarrow> string" where
  "display_network Liquid = ''liquid''"
| "display_network LiquidTestnet = ''liquidtestnet''"
| "display_network ElementsRegtest = ''elementsregtest''"

lemma from_to_core_id [simp]: "from_core_id (to_core_id n) = n"
  by (cases n) simp_all

lemma to_from_core_id [simp]: "to_core_id (from_core_id i) = i"
  by (cases i) simp_all

lemma to_network_type_inj [simp]: "to_network_type m = to_network_type n \<longleftrightarrow> m = n"
  unfolding to_network_type_def by (metis from_to_core_id network_type.inject(2))

lemma display_network_inj: "display_network m = display_network n \<longleftrightarrow> m = n"
  by (cases m; cases n) simp_all

end
