(* ===== verification/Hex.thy ===== *)
theory Hex
  imports EV_Prelude
begin

text \<open>
  Lowercase hexadecimal. The crate has three encoders: \<open>hex_encode_byte\<close>/\<open>hex::encode\<close> of
  \<open>src/descriptor.rs\<close>, \<open>hex32\<close> of \<open>src/wollet.rs\<close> and the \<open>{b:02x}\<close> loop of
  \<open>FinalizedPset::serialize_hex\<close> in \<open>src/pset.rs\<close> (the \<open>Debug\<close> of \<open>WalletId\<close> has the same loop).
  They are modelled as written and proved equal, and the encoding is proved to be reversible.
\<close>

unbundle bit_operations_syntax

definition HEX :: "string" where
  "HEX = ''0123456789abcdef''"

definition hex_encode_byte :: "u8 \<Rightarrow> char \<times> char" where
  "hex_encode_byte b = (HEX ! unat (drop_bit 4 b), HEX ! unat (b AND 0x0f))"

fun hex_encode :: "u8 list \<Rightarrow> string" where
  "hex_encode [] = []"
| "hex_encode (b # bs) = (case hex_encode_byte b of (hi, lo) \<Rightarrow> hi # lo # hex_encode bs)"

fun hex32 :: "u8 list \<Rightarrow> string" where
  "hex32 [] = []"
| "hex32 (b # bs) = HEX ! unat (drop_bit 4 b) # HEX ! unat (b AND 0x0f) # hex32 bs"

text \<open>The formatter's \<open>{b:02x}\<close>: the hexadecimal digits of the number, padded to two with zeros.\<close>

fun hex_digits :: "nat \<Rightarrow> string" where
  "hex_digits n = (if n < 16 then [HEX ! n] else hex_digits (n div 16) @ [HEX ! (n mod 16)])"

declare hex_digits.simps [simp del]

definition fmt_02x :: "u8 \<Rightarrow> string" where
  "fmt_02x b = (let s = hex_digits (unat b) in replicate (2 - length s) CHR ''0'' @ s)"

text \<open>A decoder, to state that nothing is lost: two digits at a time, \<open>None\<close> on anything else.\<close>

definition hex_val :: "char \<Rightarrow> nat option" where
  "hex_val c = map_of (zip HEX [0..<16]) c"

fun hex_decode :: "string \<Rightarrow> u8 list option" where
  "hex_decode [] = Some []"
| "hex_decode [c] = None"
| "hex_decode (c # d # cs) =
     (case (hex_val c, hex_val d, hex_decode cs) of
        (Some h, Some l, Some bs) \<Rightarrow> Some (word_of_nat (16 * h + l) # bs)
      | _ \<Rightarrow> None)"

lemma hi_nibble: "unat (drop_bit 4 b :: u8) = unat b div 16"
  by (simp add: drop_bit_eq_div unat_div)

lemma lo_nibble: "unat (b AND 0x0f :: u8) = unat b mod 16"
proof -
  have "b AND 0x0f = take_bit 4 b" by (simp add: take_bit_eq_mask mask_eq_exp_minus_1)
  then show ?thesis by (simp add: take_bit_eq_mod unat_mod)
qed

lemma u8_bound: "unat (b :: u8) < 256"
  using unsigned_less [of b] by simp

lemma hex_val_HEX: "n < 16 \<Longrightarrow> hex_val (HEX ! n) = Some n"
proof -
  have "\<forall>n \<in> {..<16}. hex_val (HEX ! n) = Some n"
    by (simp add: hex_val_def HEX_def lessThan_nat_numeral upt_rec)
  then show "n < 16 \<Longrightarrow> hex_val (HEX ! n) = Some n" by simp
qed

lemma hex32_hex_encode: "hex32 bs = hex_encode bs"
  by (induction bs) (simp_all add: hex_encode_byte_def)

lemma fmt_02x_encode: "fmt_02x b = (case hex_encode_byte b of (hi, lo) \<Rightarrow> [hi, lo])"
proof (cases "unat b < 16")
  case True
  then show ?thesis
    by (simp add: fmt_02x_def hex_encode_byte_def hi_nibble lo_nibble hex_digits.simps HEX_def)
next
  case False
  then have "unat b div 16 < 16" using u8_bound [of b] by simp
  with False show ?thesis
    by (simp add: fmt_02x_def hex_encode_byte_def hi_nibble lo_nibble
        hex_digits.simps [of "unat b"] hex_digits.simps [of "unat b div 16"] Let_def)
qed

lemma hex_encode_decode: "hex_decode (hex_encode bs) = Some bs"
proof (induction bs)
  case Nil
  show ?case by simp
next
  case (Cons b bs)
  have "unat b div 16 < 16" using u8_bound [of b] by simp
  moreover have "word_of_nat (16 * (unat b div 16) + unat b mod 16) = b" by simp
  ultimately show ?case
    using Cons.IH by (simp add: hex_encode_byte_def hi_nibble lo_nibble hex_val_HEX)
qed

lemma length_hex_encode [simp]: "length (hex_encode bs) = 2 * length bs"
  by (induction bs) (simp_all add: hex_encode_byte_def)

lemma HEX_nth_in: "n < 16 \<Longrightarrow> HEX ! n \<in> set HEX"
  by (rule nth_mem) (simp add: HEX_def)

lemma set_hex_encode: "set (hex_encode bs) \<subseteq> set HEX"
proof (induction bs)
  case (Cons b bs)
  have "unat b div 16 < 16" using u8_bound [of b] by simp
  then show ?case using Cons.IH by (simp add: hex_encode_byte_def hi_nibble lo_nibble HEX_nth_in)
qed simp

end
