(* ===== verification/Wollet.thy ===== *)
theory Wollet
  imports Network Hex
begin

text \<open>
  \<open>src/wollet.rs\<close>: the client-side wallet around LWK's descriptor. The descriptor, the master
  blinding key and LWK's wallet are values of the LWK crates and are type variables here
  (\<open>'d\<close>, \<open>'k\<close>, \<open>'w\<close>); the functions of those crates that this one calls are the record
  \<open>lwk_lib\<close>. The file shows which scripts a wallet watches and that they agree with the addresses
  it hands out.
\<close>

datatype chain = External | Internal

text \<open>An address, through the two accessors the crate uses.\<close>

record address =
  ad_script_pubkey :: script
  ad_blinding_pubkey :: "u8 list option"

record ('d, 'k, 'w) lwk_lib =
  lwk_parse_descriptor :: "string \<Rightarrow> string + 'd"
  lwk_build_wollet :: "lwk_network \<Rightarrow> 'd \<Rightarrow> string + 'w"
  lwk_parse_mbk :: "string \<Rightarrow> string + 'k"
  lwk_address :: "'d \<Rightarrow> u32 \<Rightarrow> addr_params \<Rightarrow> string + address"
  lwk_change :: "'d \<Rightarrow> u32 \<Rightarrow> addr_params \<Rightarrow> string + address"
  lwk_try_unblind :: "txout \<Rightarrow> 'd \<Rightarrow> string + txout_secrets"

record ('d, 'k, 'w) elements_wollet =
  ew_inner :: 'w
  ew_descriptor :: 'd
  ew_master_blinding_key :: 'k
  ew_network :: elements_network
  ew_lwk_network :: lwk_network

definition from_descriptor_str ::
    "('d, 'k, 'w) lwk_lib \<Rightarrow> string \<Rightarrow> u8 list \<Rightarrow> elements_network \<Rightarrow> lwk_network
     \<Rightarrow> (wollet_error, ('d, 'k, 'w) elements_wollet) result" where
  "from_descriptor_str L descriptor_str blinding_key network lwk_net =
     bindR (lib_err WDescriptor (lwk_parse_descriptor L descriptor_str)) (\<lambda>descriptor.
     bindR (lib_err WBuild (lwk_build_wollet L lwk_net descriptor)) (\<lambda>inner.
     bindR (lib_err (\<lambda>e. WDescriptor (''invalid blinding key: '' @ e))
              (lwk_parse_mbk L (hex32 blinding_key))) (\<lambda>mbk.
     Inr \<lparr>ew_inner = inner, ew_descriptor = descriptor, ew_master_blinding_key = mbk,
          ew_network = network, ew_lwk_network = lwk_net\<rparr>)))"

definition address ::
    "('d, 'k, 'w) lwk_lib \<Rightarrow> ('d, 'k, 'w) elements_wollet \<Rightarrow> chain \<Rightarrow> u32
     \<Rightarrow> (wollet_error, address) result" where
  "address L w ch index =
     (let params = address_params (ew_network w);
          res = (case ch of
                   External \<Rightarrow> lwk_address L (ew_descriptor w) index params
                 | Internal \<Rightarrow> lwk_change L (ew_descriptor w) index params)
      in lib_err WAddressDerivation res)"

text \<open>The loop \<open>for i in 0..gap\<close> of \<open>watched_scripts\<close>, over the list of indices still to do.\<close>

fun watched_scripts_loop ::
    "('d, 'k, 'w) lwk_lib \<Rightarrow> ('d, 'k, 'w) elements_wollet \<Rightarrow> u32 list \<Rightarrow> (script \<times> chain \<times> u32) list
     \<Rightarrow> (wollet_error, (script \<times> chain \<times> u32) list) result" where
  "watched_scripts_loop L w [] out = Inr out"
| "watched_scripts_loop L w (i # is) out =
     (let params = address_params (ew_network w) in
      bindR (lib_err WAddressDerivation (lwk_address L (ew_descriptor w) i params)) (\<lambda>ext.
      let out = out @ [(ad_script_pubkey ext, External, i)] in
      bindR (lib_err WAddressDerivation (lwk_change L (ew_descriptor w) i params)) (\<lambda>int.
      watched_scripts_loop L w is (out @ [(ad_script_pubkey int, Internal, i)]))))"

definition watched_scripts ::
    "('d, 'k, 'w) lwk_lib \<Rightarrow> ('d, 'k, 'w) elements_wollet \<Rightarrow> u32
     \<Rightarrow> (wollet_error, (script \<times> chain \<times> u32) list) result" where
  "watched_scripts L w gap = watched_scripts_loop L w (map word_of_nat [0 ..< unat gap]) []"

definition unblind ::
    "('d, 'k, 'w) lwk_lib \<Rightarrow> ('d, 'k, 'w) elements_wollet \<Rightarrow> txout
     \<Rightarrow> (wollet_error, txout_secrets) result" where
  "unblind L w t = lib_err WUnblind (lwk_try_unblind L t (ew_descriptor w))"

definition wollet_descriptor :: "('d, 'k, 'w) elements_wollet \<Rightarrow> 'd" where
  "wollet_descriptor w = ew_descriptor w"

definition master_blinding_key :: "('d, 'k, 'w) elements_wollet \<Rightarrow> 'k" where
  "master_blinding_key w = ew_master_blinding_key w"

definition network_of_wollet :: "('d, 'k, 'w) elements_wollet \<Rightarrow> elements_network" where
  "network_of_wollet w = ew_network w"

definition lwk_network_of :: "('d, 'k, 'w) elements_wollet \<Rightarrow> lwk_network" where
  "lwk_network_of w = ew_lwk_network w"

definition inner_wollet :: "('d, 'k, 'w) elements_wollet \<Rightarrow> 'w" where
  "inner_wollet w = ew_inner w"

section \<open>What is watched\<close>

lemma address_External:
  "address L w External i =
     lib_err WAddressDerivation (lwk_address L (ew_descriptor w) i (address_params (ew_network w)))"
  by (simp add: address_def)

lemma address_Internal:
  "address L w Internal i =
     lib_err WAddressDerivation (lwk_change L (ew_descriptor w) i (address_params (ew_network w)))"
  by (simp add: address_def)

lemma watched_scripts_loop_Cons:
  "watched_scripts_loop L w (i # is) out =
     bindR (address L w External i) (\<lambda>ext.
     bindR (address L w Internal i) (\<lambda>int.
     watched_scripts_loop L w is
       (out @ [(ad_script_pubkey ext, External, i), (ad_script_pubkey int, Internal, i)])))"
  by (simp add: address_External address_Internal Let_def)

declare watched_scripts_loop.simps(2) [simp del]

lemma watched_scripts_loop_acc:
  "watched_scripts_loop L w is out =
     bindR (watched_scripts_loop L w is []) (\<lambda>r. Inr (out @ r))"
proof (induction "is" arbitrary: out)
  case Nil
  show ?case by simp
next
  case (Cons i "is")
  show ?case
    unfolding watched_scripts_loop_Cons
    by (subst Cons.IH, subst (2) Cons.IH)
      (auto simp: bindR_def split: sum.splits)
qed

text \<open>
  A successful derivation gives, for each index in order, the external script and then the
  internal one, each the script of the address the wallet hands out for that chain and index.
\<close>

lemma watched_scripts_loop_Inr:
  assumes "watched_scripts_loop L w is [] = Inr out"
  shows "length out = 2 * length is
    \<and> (\<forall>k < length is. \<exists>a b. address L w External (is ! k) = Inr a
        \<and> address L w Internal (is ! k) = Inr b
        \<and> out ! (2 * k) = (ad_script_pubkey a, External, is ! k)
        \<and> out ! (2 * k + 1) = (ad_script_pubkey b, Internal, is ! k))"
  using assms
proof (induction "is" arbitrary: out)
  case Nil
  then show ?case by simp
next
  case (Cons i "is")
  from Cons.prems obtain a b where a: "address L w External i = Inr a"
    and b: "address L w Internal i = Inr b"
    and rec: "watched_scripts_loop L w is
        [(ad_script_pubkey a, External, i), (ad_script_pubkey b, Internal, i)] = Inr out"
    by (auto simp: watched_scripts_loop_Cons bindR_Inr)
  from rec obtain r where r: "watched_scripts_loop L w is [] = Inr r"
    and out: "out = [(ad_script_pubkey a, External, i), (ad_script_pubkey b, Internal, i)] @ r"
    by (subst (asm) watched_scripts_loop_acc) (auto simp: bindR_Inr)
  note IH = Cons.IH [OF r]
  show ?case
  proof (intro conjI allI impI)
    show "length out = 2 * length (i # is)" using IH out by simp
  next
    fix k assume "k < length (i # is)"
    then show "\<exists>a b. address L w External ((i # is) ! k) = Inr a
        \<and> address L w Internal ((i # is) ! k) = Inr b
        \<and> out ! (2 * k) = (ad_script_pubkey a, External, (i # is) ! k)
        \<and> out ! (2 * k + 1) = (ad_script_pubkey b, Internal, (i # is) ! k)"
      using IH a b out by (cases k) auto
  qed
qed

lemma set_watched_scripts:
  assumes "watched_scripts_loop L w is [] = Inr out"
  shows "set out = {(s, c, i). i \<in> set is \<and> (\<exists>a. address L w c i = Inr a \<and> s = ad_script_pubkey a)}"
  using assms
proof (induction "is" arbitrary: out)
  case Nil
  then show ?case by simp
next
  case (Cons i "is")
  from Cons.prems obtain a b r where a: "address L w External i = Inr a"
    and b: "address L w Internal i = Inr b"
    and r: "watched_scripts_loop L w is [] = Inr r"
    and out: "out = [(ad_script_pubkey a, External, i), (ad_script_pubkey b, Internal, i)] @ r"
    unfolding watched_scripts_loop_Cons
    by (subst (asm) watched_scripts_loop_acc) (auto simp: bindR_Inr)
  have "(s, c, j) \<in> set out \<longleftrightarrow>
      (j = i \<or> j \<in> set is) \<and> (\<exists>a. address L w c j = Inr a \<and> s = ad_script_pubkey a)" for s c j
    using a b Cons.IH [OF r] out by (cases c) auto
  then show ?case by auto
qed

end
