(* ===== verification/Sync_Types.thy ===== *)
theory Sync_Types
  imports Wollet "HOL-Library.List_Lexorder"
begin

text \<open>
  \<open>src/sync/mod.rs\<close>: the records of the block-scan pipeline and its three interfaces. A trait is
  the record of its methods; a method of a trait that takes \<open>&self\<close> over interior mutability or a
  connection pool is an action on the implementation's state, so that it can change that state
  and can fail (and what a failing call has already written stays written).
\<close>

section \<open>Wallet identifiers\<close>

datatype wallet_id = WalletId (wid_bytes: "u8 list")

definition wallet_id_from_bytes :: "u8 list \<Rightarrow> wallet_id" where
  "wallet_id_from_bytes bytes = WalletId bytes"

definition wallet_id_as_bytes :: "wallet_id \<Rightarrow> u8 list" where
  "wallet_id_as_bytes w = wid_bytes w"

text \<open>The hand-written \<open>Debug\<close>: \<open>WalletId(\<close>, each byte through \<open>{b:02x}\<close>, \<open>)\<close>.\<close>

fun debug_wallet_id_loop :: "u8 list \<Rightarrow> string" where
  "debug_wallet_id_loop [] = []"
| "debug_wallet_id_loop (b # bs) = fmt_02x b @ debug_wallet_id_loop bs"

definition debug_wallet_id :: "wallet_id \<Rightarrow> string" where
  "debug_wallet_id w = ''WalletId('' @ debug_wallet_id_loop (wid_bytes w) @ '')''"

text \<open>The derived \<open>Ord\<close>: lexicographic on the bytes.\<close>

instantiation wallet_id :: linorder
begin

definition less_eq_wallet_id :: "wallet_id \<Rightarrow> wallet_id \<Rightarrow> bool" where
  "less_eq_wallet_id v w \<longleftrightarrow> wid_bytes v \<le> wid_bytes w"

definition less_wallet_id :: "wallet_id \<Rightarrow> wallet_id \<Rightarrow> bool" where
  "less_wallet_id v w \<longleftrightarrow> wid_bytes v < wid_bytes w"

instance
  by standard
    (auto simp: less_eq_wallet_id_def less_wallet_id_def wallet_id.expand dest: antisym)

end

lemma debug_wallet_id_loop_hex: "debug_wallet_id_loop bs = hex_encode bs"
  by (induction bs) (simp_all add: fmt_02x_encode split: prod.splits)

section \<open>Captured outputs and the synced tip\<close>

record captured_utxo =
  cu_wallet_id :: wallet_id
  cu_outpoint :: outpoint
  cu_txout :: txout
  cu_secrets :: txout_secrets
  cu_chain :: chain
  cu_wildcard_index :: u32
  cu_height :: u32
  cu_is_spent :: bool

definition cu_value :: "captured_utxo \<Rightarrow> u64" where
  "cu_value u = sec_value (cu_secrets u)"

definition cu_asset :: "captured_utxo \<Rightarrow> asset_id" where
  "cu_asset u = sec_asset (cu_secrets u)"

definition cu_script_pubkey :: "captured_utxo \<Rightarrow> script" where
  "cu_script_pubkey u = to_script_pubkey (cu_txout u)"

record synced_tip =
  st_height :: u32
  st_hash :: block_hash

section \<open>The three interfaces\<close>

record 'u utxo_store_ops =
  us_upsert_utxos :: "captured_utxo list \<Rightarrow> ('u, sync_error, unit) act"
  us_mark_spent :: "outpoint list \<Rightarrow> u32 \<Rightarrow> ('u, sync_error, unit) act"
  us_list_unspent :: "wallet_id \<Rightarrow> ('u, sync_error, captured_utxo list) act"
  us_unspent_outpoints :: "('u, sync_error, (outpoint \<times> wallet_id) list) act"
  us_rollback_above :: "u32 \<Rightarrow> ('u, sync_error, unit) act"

record 'b block_store_ops =
  bs_store_block :: "u32 \<Rightarrow> block_hash \<Rightarrow> u8 list \<Rightarrow> ('b, sync_error, unit) act"
  bs_synced_tip :: "('b, sync_error, synced_tip option) act"
  bs_set_synced_tip :: "synced_tip \<Rightarrow> ('b, sync_error, unit) act"
  bs_block_hash_at :: "u32 \<Rightarrow> ('b, sync_error, block_hash option) act"
  bs_rollback_above :: "u32 \<Rightarrow> ('b, sync_error, unit) act"

record 'c chain_source_ops =
  cs_tip_height :: "('c, sync_error, u32) act"
  cs_block_hash :: "u32 \<Rightarrow> ('c, sync_error, block_hash) act"
  cs_block :: "block_hash \<Rightarrow> ('c, sync_error, block) act"
  cs_broadcast :: "transaction \<Rightarrow> ('c, sync_error, txid) act"

end
