(* ===== verification/Ledger.thy ===== *)
theory Ledger
  imports Sync_Types
begin

text \<open>
  What the stores promise. A ledger is the map a UTXO store represents: each outpoint with the
  captured output and the height at which it was spent. The operations on ledgers are the
  contract of the \<open>WalletUtxoStore\<close> trait (its documentation in \<open>src/sync/mod.rs\<close>, and the
  in-memory store of \<open>src/sync/fakes.rs\<close>, which the source calls the behavioural reference for
  other implementations). The locales state the contracts of the three traits; clients are
  verified against them.
\<close>

record utxo_entry =
  en_utxo :: captured_utxo
  en_spent_height :: "u32 option"

type_synonym ledger = "outpoint \<rightharpoonup> utxo_entry"

section \<open>Operations on ledgers\<close>

definition put_utxo :: "captured_utxo \<Rightarrow> ledger \<Rightarrow> ledger" where
  "put_utxo u m =
     (case m (cu_outpoint u) of
        Some e \<Rightarrow> m(cu_outpoint u \<mapsto> e\<lparr>en_utxo := u\<rparr>)
      | None \<Rightarrow> m(cu_outpoint u \<mapsto> \<lparr>en_utxo = u, en_spent_height = None\<rparr>))"

definition put_all :: "captured_utxo list \<Rightarrow> ledger \<Rightarrow> ledger" where
  "put_all us = fold put_utxo us"

definition spend_entry :: "u32 \<Rightarrow> utxo_entry \<Rightarrow> utxo_entry" where
  "spend_entry h e = e\<lparr>en_utxo := (en_utxo e)\<lparr>cu_is_spent := True\<rparr>, en_spent_height := Some h\<rparr>"

definition spend_one :: "u32 \<Rightarrow> outpoint \<Rightarrow> ledger \<Rightarrow> ledger" where
  "spend_one h op m = (case m op of Some e \<Rightarrow> m(op \<mapsto> spend_entry h e) | None \<Rightarrow> m)"

definition spend_all :: "outpoint list \<Rightarrow> u32 \<Rightarrow> ledger \<Rightarrow> ledger" where
  "spend_all ops h = fold (spend_one h) ops"

definition unspend_above :: "u32 \<Rightarrow> utxo_entry \<Rightarrow> utxo_entry" where
  "unspend_above a e =
     (case en_spent_height e of
        Some h \<Rightarrow> if a < h
          then e\<lparr>en_utxo := (en_utxo e)\<lparr>cu_is_spent := False\<rparr>, en_spent_height := None\<rparr> else e
      | None \<Rightarrow> e)"

definition roll_back :: "u32 \<Rightarrow> ledger \<Rightarrow> ledger" where
  "roll_back a m = (\<lambda>op. case m op of
      Some e \<Rightarrow> if cu_height (en_utxo e) \<le> a then Some (unspend_above a e) else None
    | None \<Rightarrow> None)"

definition is_unspent :: "ledger \<Rightarrow> outpoint \<Rightarrow> bool" where
  "is_unspent m op = (case m op of Some e \<Rightarrow> \<not> cu_is_spent (en_utxo e) | None \<Rightarrow> False)"

text \<open>
  The two fields that record a spend agree, and every entry is stored under its own outpoint.
\<close>

definition consistent :: "ledger \<Rightarrow> bool" where
  "consistent m \<longleftrightarrow> (\<forall>op e. m op = Some e \<longrightarrow>
     cu_outpoint (en_utxo e) = op \<and> (cu_is_spent (en_utxo e) \<longleftrightarrow> en_spent_height e \<noteq> None))"

definition keyed :: "ledger \<Rightarrow> bool" where
  "keyed m \<longleftrightarrow> (\<forall>op e. m op = Some e \<longrightarrow> cu_outpoint (en_utxo e) = op)"

lemma put_all_simps [simp]:
  "put_all [] m = m" "put_all (u # us) m = put_all us (put_utxo u m)"
  "put_all (us @ vs) m = put_all vs (put_all us m)"
  by (simp_all add: put_all_def)

lemma spend_all_simps [simp]:
  "spend_all [] h m = m" "spend_all (p # ps) h m = spend_all ps h (spend_one h p m)"
  "spend_all (ps @ qs) h m = spend_all qs h (spend_all ps h m)"
  by (simp_all add: spend_all_def)

lemma spend_entry_fields [simp]:
  "en_utxo (spend_entry h e) = (en_utxo e)\<lparr>cu_is_spent := True\<rparr>"
  "en_spent_height (spend_entry h e) = Some h"
  by (simp_all add: spend_entry_def)

lemma spend_entry_idem [simp]: "spend_entry h (spend_entry g e) = spend_entry h e"
  by (simp add: spend_entry_def)

lemma spend_all_apply:
  "spend_all ps h m op = (if op \<in> set ps then map_option (spend_entry h) (m op) else m op)"
proof (induction ps arbitrary: m)
  case Nil
  show ?case by simp
next
  case (Cons p ps)
  show ?case
    by (simp only: spend_all_simps Cons.IH)
      (auto simp: spend_one_def split: option.splits)
qed

lemma dom_spend_all [simp]: "dom (spend_all ps h m) = dom m"
  by (auto simp: spend_all_apply dom_def split: if_splits)

lemma put_utxo_fresh:
  "cu_outpoint u \<notin> dom m \<Longrightarrow>
   put_utxo u m = m(cu_outpoint u \<mapsto> \<lparr>en_utxo = u, en_spent_height = None\<rparr>)"
  by (auto simp: put_utxo_def split: option.splits)

lemma dom_put_utxo [simp]: "dom (put_utxo u m) = insert (cu_outpoint u) (dom m)"
  by (auto simp: put_utxo_def split: option.splits)

lemma dom_put_all [simp]: "dom (put_all us m) = cu_outpoint ` set us \<union> dom m"
  by (induction us arbitrary: m) auto

text \<open>A fresh output may be put before or after spends of other outpoints.\<close>

lemma put_spend_commute:
  assumes "cu_outpoint u \<notin> dom m" and "cu_outpoint u \<notin> set ps"
  shows "put_utxo u (spend_all ps h m) = spend_all ps h (put_utxo u m)"
proof
  fix op
  show "put_utxo u (spend_all ps h m) op = spend_all ps h (put_utxo u m) op"
    using assms by (auto simp: put_utxo_fresh spend_all_apply)
qed

lemma keyed_put [intro]: "keyed m \<Longrightarrow> keyed (put_utxo u m)"
  by (auto simp: keyed_def put_utxo_def split: option.splits if_splits)

lemma keyed_put_all [intro]: "keyed m \<Longrightarrow> keyed (put_all us m)"
  by (induction us arbitrary: m) auto

lemma keyed_spend_one [intro]: "keyed m \<Longrightarrow> keyed (spend_one h p m)"
  by (auto simp: keyed_def spend_one_def split: option.splits if_splits)

lemma keyed_spend_all [intro]: "keyed m \<Longrightarrow> keyed (spend_all ps h m)"
  by (induction ps arbitrary: m) auto

lemma unspend_above_fields [simp]:
  "cu_outpoint (en_utxo (unspend_above a e)) = cu_outpoint (en_utxo e)"
  "cu_height (en_utxo (unspend_above a e)) = cu_height (en_utxo e)"
  "cu_wallet_id (en_utxo (unspend_above a e)) = cu_wallet_id (en_utxo e)"
  by (simp_all add: unspend_above_def split: option.splits)

lemma keyed_roll_back [intro]: "keyed m \<Longrightarrow> keyed (roll_back a m)"
  by (auto simp: keyed_def roll_back_def split: option.splits if_splits)

lemma consistent_keyed: "consistent m \<Longrightarrow> keyed m"
  by (simp add: consistent_def keyed_def)

lemma keyed_empty [simp]: "keyed Map.empty" and consistent_empty [simp]: "consistent Map.empty"
  by (simp_all add: keyed_def consistent_def)

section \<open>The contracts of the three traits\<close>

text \<open>
  \<open>us_ledger s\<close> is the ledger a store state represents, \<open>us_inv\<close> the implementation's own
  invariant. A law speaks of calls that return \<open>Ok\<close>; a call may fail at any time, and then
  nothing is promised about the state it leaves.
\<close>

locale utxo_store =
  fixes U :: "'u utxo_store_ops"
    and us_ledger :: "'u \<Rightarrow> ledger"
    and us_inv :: "'u \<Rightarrow> bool"
  assumes us_keyed: "us_inv s \<Longrightarrow> keyed (us_ledger s)"
    and upsert: "us_inv s \<Longrightarrow> us_upsert_utxos U us s = (Inr x, s') \<Longrightarrow>
      us_inv s' \<and> us_ledger s' = put_all us (us_ledger s)"
    and mark_spent: "us_inv s \<Longrightarrow> us_mark_spent U ps h s = (Inr x, s') \<Longrightarrow>
      us_inv s' \<and> us_ledger s' = spend_all ps h (us_ledger s)"
    and list_unspent: "us_inv s \<Longrightarrow> us_list_unspent U w s = (Inr us, s') \<Longrightarrow>
      s' = s \<and> set us = {u. \<exists>op e. us_ledger s op = Some e \<and> en_utxo e = u
        \<and> \<not> cu_is_spent u \<and> cu_wallet_id u = w}"
    and unspent_outpoints: "us_inv s \<Longrightarrow> us_unspent_outpoints U s = (Inr pairs, s') \<Longrightarrow>
      s' = s \<and> fst ` set pairs = {op. is_unspent (us_ledger s) op}"
    and us_rollback: "us_inv s \<Longrightarrow> us_rollback_above U a s = (Inr x, s') \<Longrightarrow>
      us_inv s' \<and> us_ledger s' = roll_back a (us_ledger s)"

text \<open>
  \<open>bs_blocks s\<close> is the map from heights to stored hashes and raw blocks, \<open>bs_tip s\<close> the cursor.
  After a rollback the cursor is the old one or names a stored block at or below the height
  rolled back to (the trait leaves the choice to the implementation).
\<close>

locale block_store =
  fixes B :: "'b block_store_ops"
    and bs_blocks :: "'b \<Rightarrow> u32 \<rightharpoonup> (block_hash \<times> u8 list)"
    and bs_tip :: "'b \<Rightarrow> synced_tip option"
    and bs_inv :: "'b \<Rightarrow> bool"
  assumes store_block: "bs_inv s \<Longrightarrow> bs_store_block B h x raw s = (Inr y, s') \<Longrightarrow>
      bs_inv s' \<and> bs_blocks s' = (bs_blocks s)(h \<mapsto> (x, raw)) \<and> bs_tip s' = bs_tip s"
    and store_block_err: "bs_inv s \<Longrightarrow> bs_store_block B h x raw s = (Inl e, s') \<Longrightarrow>
      bs_tip s' = bs_tip s"
    and synced_tip: "bs_inv s \<Longrightarrow> bs_synced_tip B s = (rt, s') \<Longrightarrow>
      s' = s \<and> (\<forall>t. rt = Inr t \<longrightarrow> t = bs_tip s)"
    and set_synced_tip: "bs_inv s \<Longrightarrow> bs_set_synced_tip B t s = (Inr y, s') \<Longrightarrow>
      bs_inv s' \<and> bs_blocks s' = bs_blocks s \<and> bs_tip s' = Some t"
    and set_synced_tip_err: "bs_inv s \<Longrightarrow> bs_set_synced_tip B t s = (Inl e, s') \<Longrightarrow>
      bs_tip s' = bs_tip s"
    and block_hash_at: "bs_inv s \<Longrightarrow> bs_block_hash_at B h s = (rx, s') \<Longrightarrow>
      s' = s \<and> (\<forall>x. rx = Inr x \<longrightarrow> x = map_option fst (bs_blocks s h))"
    and bs_rollback: "bs_inv s \<Longrightarrow> bs_rollback_above B a s = (r, s') \<Longrightarrow>
      (\<forall>t. bs_tip s' = Some t \<longrightarrow> bs_tip s = Some t
         \<or> (st_height t \<le> a \<and> map_option fst (bs_blocks s (st_height t)) = Some (st_hash t)))
      \<and> (\<forall>y. r = Inr y \<longrightarrow> bs_inv s' \<and> bs_blocks s' = (\<lambda>h. if h \<le> a then bs_blocks s h else None))"

text \<open>
  A node whose active chain \<open>cs_chain c\<close> does not change while it is read.
\<close>

locale stable_chain_source =
  fixes C :: "'c chain_source_ops"
    and block_hash_of :: "block \<Rightarrow> block_hash"
    and cs_chain :: "'c \<Rightarrow> block list"
  assumes tip_height: "cs_tip_height C c = (rt, c') \<Longrightarrow> cs_chain c' = cs_chain c \<and>
      (\<forall>t. rt = Inr t \<longrightarrow> Suc (unat t) = length (cs_chain c))"
    and block_hash: "cs_block_hash C h c = (r, c') \<Longrightarrow> cs_chain c' = cs_chain c \<and>
      (\<forall>x. r = Inr x \<longrightarrow> unat h < length (cs_chain c) \<and> x = block_hash_of (cs_chain c ! unat h))"
    and block_by_hash: "cs_block C x c = (rb, c') \<Longrightarrow> cs_chain c' = cs_chain c \<and>
      (\<forall>b. rb = Inr b \<longrightarrow> b \<in> set (cs_chain c) \<and> block_hash_of b = x)"

end
