(* ===== verification/Sync_Scan.thy ===== *)
theory Sync_Scan
  imports Ledger
begin

text \<open>
  \<open>src/sync/scan.rs\<close>: the block-scan engine. The three backends are trait records, so one
  \<open>sync\<close> pass is an action on a world that holds the node, the block store and the UTXO store;
  the calls come in the source's order and the first failure stops the pass with whatever was
  already written. Heights are \<open>u32\<close> values and their sums wrap, as they do in a release build
  (a build with overflow checks panics instead, see the theory Sync_Checked; on chains shorter than
  \<open>2 ^ 32\<close> blocks, which the theorems assume, no sum wraps).
\<close>

record sync_summary =
  ss_blocks_scanned :: u32
  ss_utxos_captured :: nat
  ss_utxos_spent :: nat
  ss_skipped_unblindable :: nat
  ss_reorg_to :: "u32 option"

definition default_summary :: sync_summary where
  "default_summary = \<lparr>ss_blocks_scanned = 0, ss_utxos_captured = 0, ss_utxos_spent = 0,
     ss_skipped_unblindable = 0, ss_reorg_to = None\<rparr>"

record script_entry =
  se_wallet_id :: wallet_id
  se_chain :: chain
  se_wildcard_index :: u32
  se_wollet_idx :: nat

record ('d, 'k, 'w) scan_engine =
  eng_index :: "(script \<times> script_entry) list"
  eng_wollets :: "('d, 'k, 'w) elements_wollet list"

definition engine_new :: "('d, 'k, 'w) scan_engine" where
  "engine_new = \<lparr>eng_index = [], eng_wollets = []\<rparr>"

definition engine_default :: "('d, 'k, 'w) scan_engine" where
  "engine_default = engine_new"

fun index_scripts ::
    "wallet_id \<Rightarrow> nat \<Rightarrow> (script \<times> chain \<times> u32) list \<Rightarrow> (script \<times> script_entry) list
     \<Rightarrow> (script \<times> script_entry) list" where
  "index_scripts i wx [] m = m"
| "index_scripts i wx ((spk, ch, widx) # rest) m =
     index_scripts i wx rest (AList.update spk
       \<lparr>se_wallet_id = i, se_chain = ch, se_wildcard_index = widx, se_wollet_idx = wx\<rparr> m)"

definition register_wallet ::
    "('d, 'k, 'w) lwk_lib \<Rightarrow> wallet_id \<Rightarrow> ('d, 'k, 'w) elements_wollet \<Rightarrow> u32
     \<Rightarrow> (('d, 'k, 'w) scan_engine, sync_error, unit) act" where
  "register_wallet L i wollet gap eng =
     (let wollet_idx = length (eng_wollets eng);
          eng = eng\<lparr>eng_wollets := eng_wollets eng @ [wollet]\<rparr>
      in case map_fault Wollet (watched_scripts L wollet gap) of
           Inl f \<Rightarrow> (Inl f, eng)
         | Inr scripts \<Rightarrow>
             (Inr (), eng\<lparr>eng_index := index_scripts i wollet_idx scripts (eng_index eng)\<rparr>))"

definition indexed_script_count :: "('d, 'k, 'w) scan_engine \<Rightarrow> nat" where
  "indexed_script_count eng = length (eng_index eng)"

section \<open>The world of a pass\<close>

record ('c, 'b, 'u) world =
  w_chain :: 'c
  w_blocks :: 'b
  w_utxos :: 'u

definition on_chain :: "('c, 'e, 'a) act \<Rightarrow> (('c, 'b, 'u) world, 'e, 'a) act" where
  "on_chain m w = (case m (w_chain w) of (r, c) \<Rightarrow> (r, w\<lparr>w_chain := c\<rparr>))"

definition on_blocks :: "('b, 'e, 'a) act \<Rightarrow> (('c, 'b, 'u) world, 'e, 'a) act" where
  "on_blocks m w = (case m (w_blocks w) of (r, b) \<Rightarrow> (r, w\<lparr>w_blocks := b\<rparr>))"

definition on_utxos :: "('u, 'e, 'a) act \<Rightarrow> (('c, 'b, 'u) world, 'e, 'a) act" where
  "on_utxos m w = (case m (w_utxos w) of (r, u) \<Rightarrow> (r, w\<lparr>w_utxos := u\<rparr>))"

section \<open>Scanning one block\<close>

text \<open>
  The variables of the loop: the spend-detection index and the summary live for the whole pass,
  \<open>captured\<close> and \<open>spent\<close> for one block.
\<close>

record scan_acc =
  sa_spend_index :: "(outpoint \<times> wallet_id) list"
  sa_summary :: sync_summary
  sa_captured :: "captured_utxo list"
  sa_spent :: "outpoint list"

fun scan_inputs :: "txin list \<Rightarrow> scan_acc \<Rightarrow> scan_acc" where
  "scan_inputs [] acc = acc"
| "scan_inputs (inp # inputs) acc =
     (let prevout = ti_previous_output inp in
      scan_inputs inputs
        (case map_of (sa_spend_index acc) prevout of
           Some _ \<Rightarrow> acc\<lparr>sa_spend_index := AList.delete prevout (sa_spend_index acc),
                        sa_spent := sa_spent acc @ [prevout]\<rparr>
         | None \<Rightarrow> acc))"

definition bump_skipped :: "scan_acc \<Rightarrow> scan_acc" where
  "bump_skipped acc =
     acc\<lparr>sa_summary := (sa_summary acc)\<lparr>ss_skipped_unblindable :=
       Suc (ss_skipped_unblindable (sa_summary acc))\<rparr>\<rparr>"

text \<open>The body of the loop over outputs: output number \<open>vout\<close> of transaction \<open>tid\<close> at height \<open>h\<close>.\<close>

definition scan_output ::
    "('d, 'k, 'w) lwk_lib \<Rightarrow> ('d, 'k, 'w) scan_engine \<Rightarrow> u32 \<Rightarrow> txid \<Rightarrow> nat \<Rightarrow> txout \<Rightarrow> scan_acc
     \<Rightarrow> (sync_error, scan_acc) result" where
  "scan_output L eng h tid vout t acc =
     (case map_of (eng_index eng) (to_script_pubkey t) of
        None \<Rightarrow> Inr acc
      | Some entry \<Rightarrow>
          if se_wollet_idx entry < length (eng_wollets eng) then
            (case unblind L (eng_wollets eng ! se_wollet_idx entry) t of
               Inl _ \<Rightarrow> Inr (bump_skipped acc)
             | Inr secrets \<Rightarrow>
                 if fits_u32 vout then
                   (let outpoint = OutPoint tid (word_of_nat vout);
                        u = \<lparr>cu_wallet_id = se_wallet_id entry, cu_outpoint = outpoint,
                             cu_txout = t, cu_secrets = secrets, cu_chain = se_chain entry,
                             cu_wildcard_index = se_wildcard_index entry, cu_height = h,
                             cu_is_spent = False\<rparr>
                    in Inr (acc\<lparr>sa_captured := sa_captured acc @ [u],
                              sa_spend_index := AList.update outpoint (se_wallet_id entry)
                                (sa_spend_index acc)\<rparr>))
                 else Inl (Panic ''vout fits in u32''))
          else Inl (Panic ''index out of bounds''))"

fun scan_outputs ::
    "('d, 'k, 'w) lwk_lib \<Rightarrow> ('d, 'k, 'w) scan_engine \<Rightarrow> u32 \<Rightarrow> txid \<Rightarrow> nat \<Rightarrow> txout list
     \<Rightarrow> scan_acc \<Rightarrow> (sync_error, scan_acc) result" where
  "scan_outputs L eng h tid vout [] acc = Inr acc"
| "scan_outputs L eng h tid vout (t # ts) acc =
     bindR (scan_output L eng h tid vout t acc) (scan_outputs L eng h tid (Suc vout) ts)"

definition scan_tx ::
    "elements_lib \<Rightarrow> ('d, 'k, 'w) lwk_lib \<Rightarrow> ('d, 'k, 'w) scan_engine \<Rightarrow> u32 \<Rightarrow> transaction
     \<Rightarrow> scan_acc \<Rightarrow> (sync_error, scan_acc) result" where
  "scan_tx E L eng h tx acc =
     scan_outputs L eng h (lib_txid E tx) 0 (tx_output tx) (scan_inputs (tx_input tx) acc)"

fun scan_txs ::
    "elements_lib \<Rightarrow> ('d, 'k, 'w) lwk_lib \<Rightarrow> ('d, 'k, 'w) scan_engine \<Rightarrow> u32 \<Rightarrow> transaction list
     \<Rightarrow> scan_acc \<Rightarrow> (sync_error, scan_acc) result" where
  "scan_txs E L eng h [] acc = Inr acc"
| "scan_txs E L eng h (tx # txs) acc =
     bindR (scan_tx E L eng h tx acc) (scan_txs E L eng h txs)"

text \<open>The two conditional writes at the end of a block, each with its summary counter.\<close>

definition flush_captured ::
    "'u utxo_store_ops \<Rightarrow> scan_acc \<Rightarrow> (('c, 'b, 'u) world, sync_error, scan_acc) act" where
  "flush_captured U acc =
     (if sa_captured acc = [] then ret acc
      else let acc' = acc\<lparr>sa_summary := (sa_summary acc)\<lparr>ss_utxos_captured :=
                        ss_utxos_captured (sa_summary acc) + length (sa_captured acc)\<rparr>\<rparr>
           in bindS (on_utxos (us_upsert_utxos U (sa_captured acc))) (\<lambda>_. ret acc'))"

definition flush_spent ::
    "'u utxo_store_ops \<Rightarrow> u32 \<Rightarrow> scan_acc \<Rightarrow> (('c, 'b, 'u) world, sync_error, scan_acc) act" where
  "flush_spent U h acc =
     (if sa_spent acc = [] then ret acc
      else let acc' = acc\<lparr>sa_summary := (sa_summary acc)\<lparr>ss_utxos_spent :=
                        ss_utxos_spent (sa_summary acc) + length (sa_spent acc)\<rparr>\<rparr>
           in bindS (on_utxos (us_mark_spent U (sa_spent acc) h)) (\<lambda>_. ret acc'))"

definition bump_blocks :: "scan_acc \<Rightarrow> scan_acc" where
  "bump_blocks acc =
     acc\<lparr>sa_summary := (sa_summary acc)\<lparr>ss_blocks_scanned :=
       ss_blocks_scanned (sa_summary acc) + 1\<rparr>\<rparr>"

definition scan_block ::
    "'c chain_source_ops \<Rightarrow> 'b block_store_ops \<Rightarrow> 'u utxo_store_ops \<Rightarrow> elements_lib
     \<Rightarrow> ('d, 'k, 'w) lwk_lib \<Rightarrow> ('d, 'k, 'w) scan_engine \<Rightarrow> u32 \<Rightarrow> scan_acc
     \<Rightarrow> (('c, 'b, 'u) world, sync_error, scan_acc) act" where
  "scan_block C B U E L eng h acc =
     bindS (on_chain (cs_block_hash C h)) (\<lambda>hash.
     bindS (on_chain (cs_block C hash)) (\<lambda>blk.
     bindS (on_blocks (bs_store_block B h hash (lib_serialize_block E blk))) (\<lambda>_.
     bindS (of_result (scan_txs E L eng h (blk_txdata blk)
              (acc\<lparr>sa_captured := [], sa_spent := []\<rparr>))) (\<lambda>acc.
     bindS (flush_captured U acc) (\<lambda>acc.
     bindS (flush_spent U h acc) (\<lambda>acc.
     ret (bump_blocks acc)))))))"

fun scan_blocks ::
    "'c chain_source_ops \<Rightarrow> 'b block_store_ops \<Rightarrow> 'u utxo_store_ops \<Rightarrow> elements_lib
     \<Rightarrow> ('d, 'k, 'w) lwk_lib \<Rightarrow> ('d, 'k, 'w) scan_engine \<Rightarrow> u32 list \<Rightarrow> scan_acc
     \<Rightarrow> (('c, 'b, 'u) world, sync_error, scan_acc) act" where
  "scan_blocks C B U E L eng [] acc = ret acc"
| "scan_blocks C B U E L eng (h # hs) acc =
     bindS (scan_block C B U E L eng h acc) (scan_blocks C B U E L eng hs)"

section \<open>A whole pass\<close>

text \<open>
  The walk back to the common ancestor: the node is asked for its hash only where a stored hash
  exists; the loop ends at height 0 at the latest.
\<close>

function find_common_ancestor ::
    "'c chain_source_ops \<Rightarrow> 'b block_store_ops \<Rightarrow> u32 \<Rightarrow> (('c, 'b, 'u) world, sync_error, u32) act"
  where
  "find_common_ancestor C B h =
     bindS (on_blocks (bs_block_hash_at B h)) (\<lambda>at_h.
     bindS (case at_h of
              Some stored \<Rightarrow> bindS (on_chain (cs_block_hash C h)) (\<lambda>x. ret (stored = x))
            | None \<Rightarrow> ret False) (\<lambda>same.
     if same then ret h
     else if h = 0 then ret 0
     else find_common_ancestor C B (h - 1)))"
  by pat_completeness auto
termination
  by (relation "measure (\<lambda>(C, B, h). unat h)") (auto simp: measure_unat)

declare find_common_ancestor.simps [simp del]

text \<open>The start height of the pass and the height a reorg rolled back to, if any.\<close>

definition determine_start ::
    "'c chain_source_ops \<Rightarrow> 'b block_store_ops \<Rightarrow> 'u utxo_store_ops
     \<Rightarrow> (('c, 'b, 'u) world, sync_error, u32 \<times> u32 option) act" where
  "determine_start C B U =
     bindS (on_blocks (bs_synced_tip B)) (\<lambda>cursor.
     case cursor of
       None \<Rightarrow> ret (0, None)
     | Some t \<Rightarrow>
         bindS (on_chain (cs_block_hash C (st_height t))) (\<lambda>x.
         if x = st_hash t then ret (st_height t + 1, None)
         else
           bindS (find_common_ancestor C B (st_height t)) (\<lambda>ancestor.
           bindS (on_blocks (bs_rollback_above B ancestor)) (\<lambda>_.
           bindS (on_utxos (us_rollback_above U ancestor)) (\<lambda>_.
           ret (ancestor + 1, Some ancestor))))))"

definition clamp_start :: "u32 \<Rightarrow> u32 \<Rightarrow> u32" where
  "clamp_start start tip = (if start > tip + 1 then tip + 1 else start)"

definition advance_cursor ::
    "'c chain_source_ops \<Rightarrow> 'b block_store_ops \<Rightarrow> u32 \<Rightarrow> u32
     \<Rightarrow> (('c, 'b, 'u) world, sync_error, unit) act" where
  "advance_cursor C B start tip =
     (if tip + 1 \<ge> start then
        bindS (on_chain (cs_block_hash C tip)) (\<lambda>tip_hash.
        on_blocks (bs_set_synced_tip B \<lparr>st_height = tip, st_hash = tip_hash\<rparr>))
      else ret ())"

definition sync ::
    "'c chain_source_ops \<Rightarrow> 'b block_store_ops \<Rightarrow> 'u utxo_store_ops \<Rightarrow> elements_lib
     \<Rightarrow> ('d, 'k, 'w) lwk_lib \<Rightarrow> ('d, 'k, 'w) scan_engine
     \<Rightarrow> (('c, 'b, 'u) world, sync_error, sync_summary) act" where
  "sync C B U E L eng =
     bindS (on_chain (cs_tip_height C)) (\<lambda>tip.
     bindS (determine_start C B U) (\<lambda>(start, reorg_to).
     let summary = default_summary\<lparr>ss_reorg_to := reorg_to\<rparr>;
         start = clamp_start start tip in
     bindS (on_utxos (us_unspent_outpoints U)) (\<lambda>pairs.
     let spend_index = fold (\<lambda>(op, wid). AList.update op wid) pairs [] in
     bindS (scan_blocks C B U E L eng (u32_range start tip)
              \<lparr>sa_spend_index = spend_index, sa_summary = summary, sa_captured = [], sa_spent = []\<rparr>)
       (\<lambda>acc.
     bindS (advance_cursor C B start tip) (\<lambda>_.
     ret (sa_summary acc))))))"

end
