(* ===== verification/Wallet_Ledger.thy ===== *)
theory Wallet_Ledger
  imports Sync_Scan
begin

text \<open>
  What a scan should compute, independently of how the engine computes it. A chain of blocks is
  the sequence of its events, in order: an input that spends an outpoint, an output that pays a
  watched script and can be unblinded. The wallet ledger of a chain is what these events, played
  one after the other from nothing, leave. The engine instead batches the events of a block and
  keeps a spend index; the theory Sync_Correct proves the two equal.
\<close>

datatype event = ESpend outpoint u32 | ECreate captured_utxo

fun ev_height :: "event \<Rightarrow> u32" where
  "ev_height (ESpend p h) = h"
| "ev_height (ECreate u) = cu_height u"

fun apply_event :: "event \<Rightarrow> ledger \<Rightarrow> ledger" where
  "apply_event (ESpend p h) m =
     (case m p of
        Some e \<Rightarrow> if cu_is_spent (en_utxo e) then m else m(p \<mapsto> spend_entry h e)
      | None \<Rightarrow> m)"
| "apply_event (ECreate u) m = m(cu_outpoint u \<mapsto> \<lparr>en_utxo = u, en_spent_height = None\<rparr>)"

text \<open>The record captured for output \<open>v\<close> of transaction \<open>tid\<close>, if the wallets can spend it.\<close>

definition capture_of ::
    "('d, 'k, 'w) lwk_lib \<Rightarrow> ('d, 'k, 'w) scan_engine \<Rightarrow> u32 \<Rightarrow> txid \<Rightarrow> nat \<Rightarrow> txout
     \<Rightarrow> captured_utxo option" where
  "capture_of L eng h tid v t =
     (case map_of (eng_index eng) (to_script_pubkey t) of
        None \<Rightarrow> None
      | Some e \<Rightarrow>
          (case unblind L (eng_wollets eng ! se_wollet_idx e) t of
             Inl _ \<Rightarrow> None
           | Inr secrets \<Rightarrow> Some
               \<lparr>cu_wallet_id = se_wallet_id e, cu_outpoint = OutPoint tid (word_of_nat v),
                cu_txout = t, cu_secrets = secrets, cu_chain = se_chain e,
                cu_wildcard_index = se_wildcard_index e, cu_height = h, cu_is_spent = False\<rparr>))"

fun output_captures ::
    "('d, 'k, 'w) lwk_lib \<Rightarrow> ('d, 'k, 'w) scan_engine \<Rightarrow> u32 \<Rightarrow> txid \<Rightarrow> nat \<Rightarrow> txout list
     \<Rightarrow> captured_utxo list" where
  "output_captures L eng h tid v [] = []"
| "output_captures L eng h tid v (t # ts) =
     (case capture_of L eng h tid v t of None \<Rightarrow> [] | Some u \<Rightarrow> [u])
     @ output_captures L eng h tid (Suc v) ts"

definition input_spends :: "u32 \<Rightarrow> txin list \<Rightarrow> event list" where
  "input_spends h ins = map (\<lambda>i. ESpend (ti_previous_output i) h) ins"

definition tx_events ::
    "elements_lib \<Rightarrow> ('d, 'k, 'w) lwk_lib \<Rightarrow> ('d, 'k, 'w) scan_engine \<Rightarrow> u32 \<Rightarrow> transaction
     \<Rightarrow> event list" where
  "tx_events E L eng h tx =
     input_spends h (tx_input tx)
     @ map ECreate (output_captures L eng h (lib_txid E tx) 0 (tx_output tx))"

definition txs_events ::
    "elements_lib \<Rightarrow> ('d, 'k, 'w) lwk_lib \<Rightarrow> ('d, 'k, 'w) scan_engine \<Rightarrow> u32 \<Rightarrow> transaction list
     \<Rightarrow> event list" where
  "txs_events E L eng h txs = concat (map (tx_events E L eng h) txs)"

fun chain_events ::
    "elements_lib \<Rightarrow> ('d, 'k, 'w) lwk_lib \<Rightarrow> ('d, 'k, 'w) scan_engine \<Rightarrow> nat \<Rightarrow> block list
     \<Rightarrow> event list" where
  "chain_events E L eng n [] = []"
| "chain_events E L eng n (b # bs) =
     txs_events E L eng (word_of_nat n) (blk_txdata b) @ chain_events E L eng (Suc n) bs"

definition play :: "event list \<Rightarrow> ledger \<Rightarrow> ledger" where
  "play evs = fold apply_event evs"

definition wallet_ledger ::
    "elements_lib \<Rightarrow> ('d, 'k, 'w) lwk_lib \<Rightarrow> ('d, 'k, 'w) scan_engine \<Rightarrow> block list \<Rightarrow> ledger" where
  "wallet_ledger E L eng chain = play (chain_events E L eng 0 chain) Map.empty"

text \<open>
  What consensus guarantees of the transactions of a chain, in order: transaction ids are unique,
  an input refers to an earlier transaction only, and output numbers fit \<open>u32\<close>.
\<close>

fun wf_txs :: "elements_lib \<Rightarrow> transaction list \<Rightarrow> bool" where
  "wf_txs E [] \<longleftrightarrow> True"
| "wf_txs E (t # ts) \<longleftrightarrow>
     lib_txid E t \<notin> lib_txid E ` set ts
     \<and> (\<forall>i \<in> set (tx_input t). op_txid (ti_previous_output i) \<notin> lib_txid E ` set (t # ts))
     \<and> length (tx_output t) \<le> 2 ^ 32
     \<and> wf_txs E ts"

definition all_txs :: "block list \<Rightarrow> transaction list" where
  "all_txs chain = concat (map blk_txdata chain)"

definition wf_chain :: "elements_lib \<Rightarrow> block list \<Rightarrow> bool" where
  "wf_chain E chain \<longleftrightarrow> wf_txs E (all_txs chain) \<and> length chain < 2 ^ 32"

section \<open>Playing events\<close>

lemma play_simps [simp]:
  "play [] m = m" "play (e # es) m = play es (apply_event e m)"
  "play (es @ fs) m = play fs (play es m)"
  by (simp_all add: play_def)

fun ev_creates :: "event list \<Rightarrow> captured_utxo list" where
  "ev_creates [] = []"
| "ev_creates (ESpend p h # es) = ev_creates es"
| "ev_creates (ECreate u # es) = u # ev_creates es"

lemma ev_creates_append [simp]: "ev_creates (xs @ ys) = ev_creates xs @ ev_creates ys"
  by (induction xs rule: ev_creates.induct) simp_all

lemma ev_creates_input_spends [simp]: "ev_creates (input_spends h ins) = []"
  by (induction ins) (simp_all add: input_spends_def)

lemma ev_creates_ECreate [simp]: "ev_creates (map ECreate us) = us"
  by (induction us) simp_all

lemma ev_creates_Cons: "ev_creates (e # es) = ev_creates [e] @ ev_creates es"
  by (cases e) simp_all

lemma dom_apply_event: "dom (apply_event e m) = cu_outpoint ` set (ev_creates [e]) \<union> dom m"
  by (cases e) (auto split: option.splits)

lemma consistent_apply_event:
  assumes "consistent m" and "\<forall>u \<in> set (ev_creates [e]). \<not> cu_is_spent u"
  shows "consistent (apply_event e m)"
  using assms by (cases e) (auto simp: consistent_def split: option.splits)

declare apply_event.simps [simp del]

lemma dom_play: "dom (play es m) = cu_outpoint ` set (ev_creates es) \<union> dom m"
proof (induction es arbitrary: m)
  case (Cons e es)
  show ?case by (simp only: play_simps Cons.IH dom_apply_event ev_creates_Cons [of e es]) auto
qed simp

lemma consistent_play:
  "consistent m \<Longrightarrow> \<forall>u \<in> set (ev_creates es). \<not> cu_is_spent u \<Longrightarrow> consistent (play es m)"
proof (induction es arbitrary: m)
  case (Cons e es)
  then have "consistent (apply_event e m)"
    unfolding ev_creates_Cons [of e es] by (intro consistent_apply_event) auto
  with Cons show ?case unfolding ev_creates_Cons [of e es] by auto
qed simp

text \<open>
  Rolling back undoes events above the height, provided an output is created under a fresh
  outpoint; it leaves a ledger of events at or below the height alone.
\<close>

lemma unspend_spend:
  assumes "\<not> cu_is_spent (en_utxo e)" and "en_spent_height e = None" and "a < h"
  shows "unspend_above a (spend_entry h e) = e"
  using assms by (cases e; cases "en_utxo e") (simp add: unspend_above_def spend_entry_def)

lemma roll_back_apply_event:
  assumes "consistent m" and "a < ev_height e"
    and "\<forall>u \<in> set (ev_creates [e]). cu_outpoint u \<notin> dom m"
  shows "roll_back a (apply_event e m) = roll_back a m"
proof (rule ext)
  fix op
  show "roll_back a (apply_event e m) op = roll_back a m op"
  proof (cases e)
    case (ESpend p h)
    with assms(1,2) show ?thesis
      by (auto simp: apply_event.simps roll_back_def consistent_def unspend_above_def spend_entry_def
          intro!: utxo_entry.equality captured_utxo.equality split: option.splits)
  next
    case (ECreate u)
    with assms(2,3) show ?thesis by (auto simp: apply_event.simps roll_back_def dom_def split: option.splits)
  qed
qed

lemma roll_back_play:
  assumes "consistent m" and "\<forall>e \<in> set es. a < ev_height e"
    and "distinct (map cu_outpoint (ev_creates es))"
    and "\<forall>u \<in> set (ev_creates es). cu_outpoint u \<notin> dom m \<and> \<not> cu_is_spent u"
  shows "roll_back a (play es m) = roll_back a m"
  using assms
proof (induction es arbitrary: m)
  case Nil
  show ?case by simp
next
  case (Cons e es)
  note prems = Cons.prems [unfolded ev_creates_Cons [of e es]]
  have "consistent (apply_event e m)"
    using prems by (intro consistent_apply_event) auto
  then have "roll_back a (play es (apply_event e m)) = roll_back a (apply_event e m)"
    using prems(2-4) by (intro Cons.IH) (auto simp: dom_apply_event)
  also have "\<dots> = roll_back a m"
    using prems by (intro roll_back_apply_event) auto
  finally show ?case by simp
qed

definition settled_at :: "u32 \<Rightarrow> ledger \<Rightarrow> bool" where
  "settled_at a m \<longleftrightarrow> (\<forall>op e. m op = Some e \<longrightarrow> cu_height (en_utxo e) \<le> a
     \<and> (\<forall>h. en_spent_height e = Some h \<longrightarrow> h \<le> a))"

lemma roll_back_settled: "settled_at a m \<Longrightarrow> roll_back a m = m"
  by (rule ext)
    (fastforce simp: roll_back_def settled_at_def unspend_above_def split: option.splits)

lemma settled_apply_event: "settled_at a m \<Longrightarrow> ev_height e \<le> a \<Longrightarrow> settled_at a (apply_event e m)"
  by (cases e) (auto simp: apply_event.simps settled_at_def split: option.splits)

lemma settled_play:
  "settled_at a m \<Longrightarrow> \<forall>e \<in> set es. ev_height e \<le> a \<Longrightarrow> settled_at a (play es m)"
  by (induction es arbitrary: m) (auto intro: settled_apply_event)

section \<open>The events of a chain\<close>

lemma capture_of_fields:
  "capture_of L eng h tid v t = Some u \<Longrightarrow>
   cu_outpoint u = OutPoint tid (word_of_nat v) \<and> cu_height u = h \<and> \<not> cu_is_spent u"
  by (auto simp: capture_of_def split: option.splits sum.splits)

lemma output_captures_fields:
  "u \<in> set (output_captures L eng h tid v ts) \<Longrightarrow>
   (\<exists>i. v \<le> i \<and> i < v + length ts \<and> cu_outpoint u = OutPoint tid (word_of_nat i))
   \<and> cu_height u = h \<and> \<not> cu_is_spent u"
proof (induction ts arbitrary: v)
  case (Cons t ts)
  from Cons.prems consider "capture_of L eng h tid v t = Some u"
    | "u \<in> set (output_captures L eng h tid (Suc v) ts)"
    by (auto split: option.splits)
  then show ?case
  proof cases
    case 1
    then show ?thesis by (auto dest: capture_of_fields)
  next
    case 2
    from Cons.IH [OF this] show ?thesis by (auto intro: Suc_leD)
  qed
qed simp

lemma distinct_output_captures:
  "v + length ts \<le> 2 ^ 32 \<Longrightarrow> distinct (map cu_outpoint (output_captures L eng h tid v ts))"
proof (induction ts arbitrary: v)
  case (Cons t ts)
  have "cu_outpoint u \<noteq> OutPoint tid (word_of_nat v)"
    if "u \<in> set (output_captures L eng h tid (Suc v) ts)" for u
  proof -
    from output_captures_fields [OF that] obtain i where
      i: "Suc v \<le> i" "i < Suc v + length ts" "cu_outpoint u = OutPoint tid (word_of_nat i)" by blast
    with Cons.prems have "unat (word_of_nat i :: u32) = i" "unat (word_of_nat v :: u32) = v"
      by (auto intro!: unat_word_of_nat_u32)
    with i show ?thesis by auto
  qed
  with Cons show ?case by (auto dest!: capture_of_fields split: option.splits)
qed simp

lemma txs_events_Nil [simp]: "txs_events E L eng h [] = []"
  and txs_events_Cons [simp]:
    "txs_events E L eng h (t # ts) = tx_events E L eng h t @ txs_events E L eng h ts"
  and txs_events_append [simp]:
    "txs_events E L eng h (ts @ us) = txs_events E L eng h ts @ txs_events E L eng h us"
  by (simp_all add: txs_events_def)

lemma chain_events_append:
  "chain_events E L eng n (bs @ cs) =
     chain_events E L eng n bs @ chain_events E L eng (n + length bs) cs"
  by (induction bs arbitrary: n) simp_all

lemma txs_events_creates:
  "u \<in> set (ev_creates (txs_events E L eng h ts)) \<Longrightarrow>
   op_txid (cu_outpoint u) \<in> lib_txid E ` set ts \<and> cu_height u = h \<and> \<not> cu_is_spent u"
  by (induction ts) (auto simp: tx_events_def dest!: output_captures_fields)

lemma txs_events_height: "e \<in> set (txs_events E L eng h ts) \<Longrightarrow> ev_height e = h"
  by (induction ts) (auto simp: tx_events_def input_spends_def dest!: output_captures_fields)

lemma tx_events_creates:
  "u \<in> set (ev_creates (tx_events E L eng h t)) \<Longrightarrow>
   op_txid (cu_outpoint u) = lib_txid E t \<and> cu_height u = h \<and> \<not> cu_is_spent u"
  by (auto simp: tx_events_def dest!: output_captures_fields)

lemma distinct_tx_events:
  "length (tx_output t) \<le> 2 ^ 32 \<Longrightarrow>
   distinct (map cu_outpoint (ev_creates (tx_events E L eng h t)))"
  using distinct_output_captures [of 0 "tx_output t"] by (simp add: tx_events_def)

text \<open>Two lists of captures whose transaction ids are apart are distinct together.\<close>

lemma distinct_append_outpoints:
  assumes "distinct (map cu_outpoint us)" and "distinct (map cu_outpoint vs)"
    and "\<And>u. u \<in> set us \<Longrightarrow> op_txid (cu_outpoint u) \<in> A"
    and "\<And>v. v \<in> set vs \<Longrightarrow> op_txid (cu_outpoint v) \<in> B" and "A \<inter> B = {}"
  shows "distinct (map cu_outpoint (us @ vs))"
proof -
  have "cu_outpoint u \<noteq> cu_outpoint v" if "u \<in> set us" "v \<in> set vs" for u v
    using assms(3) [OF that(1)] assms(4) [OF that(2)] assms(5) by auto
  then have "cu_outpoint ` set us \<inter> cu_outpoint ` set vs = {}" by blast
  then show ?thesis using assms(1,2) by simp
qed

lemma distinct_txs_events:
  "wf_txs E ts \<Longrightarrow> distinct (map cu_outpoint (ev_creates (txs_events E L eng h ts)))"
proof (induction ts)
  case (Cons t ts)
  then have "length (tx_output t) \<le> 2 ^ 32" and "wf_txs E ts"
    and fresh: "{lib_txid E t} \<inter> lib_txid E ` set ts = {}" by auto
  then show ?case
    unfolding txs_events_Cons ev_creates_append
    by (intro distinct_append_outpoints [OF distinct_tx_events Cons.IH _ _ fresh])
      (auto dest!: tx_events_creates txs_events_creates)
qed simp

lemma wf_txs_outputs: "wf_txs E txs \<Longrightarrow> t \<in> set txs \<Longrightarrow> length (tx_output t) \<le> 2 ^ 32"
  by (induction txs) auto

lemma wf_txs_append:
  "wf_txs E (ts @ us) \<Longrightarrow> wf_txs E ts \<and> wf_txs E us
     \<and> lib_txid E ` set ts \<inter> lib_txid E ` set us = {}"
  by (induction ts) auto

lemma all_txs_simps [simp]:
  "all_txs [] = []" "all_txs (b # bs) = blk_txdata b @ all_txs bs"
  "all_txs (bs @ cs) = all_txs bs @ all_txs cs"
  by (simp_all add: all_txs_def)

lemma chain_events_creates:
  "u \<in> set (ev_creates (chain_events E L eng n bs)) \<Longrightarrow>
   op_txid (cu_outpoint u) \<in> lib_txid E ` set (all_txs bs) \<and> \<not> cu_is_spent u"
  by (induction bs arbitrary: n) (auto dest!: txs_events_creates)

lemma chain_events_height:
  "e \<in> set (chain_events E L eng n bs) \<Longrightarrow>
   \<exists>i. n \<le> i \<and> i < n + length bs \<and> ev_height e = word_of_nat i"
proof (induction bs arbitrary: n)
  case (Cons b bs)
  then consider "ev_height e = word_of_nat n" | "e \<in> set (chain_events E L eng (Suc n) bs)"
    by (auto dest: txs_events_height)
  then show ?case
  proof cases
    case 1
    then show ?thesis by auto
  next
    case 2
    from Cons.IH [OF this] show ?thesis by (auto intro: Suc_leD)
  qed
qed simp

lemma distinct_chain_events:
  "wf_txs E (all_txs bs) \<Longrightarrow>
   distinct (map cu_outpoint (ev_creates (chain_events E L eng n bs)))"
proof (induction bs arbitrary: n)
  case (Cons b bs)
  then have wf: "wf_txs E (blk_txdata b)" "wf_txs E (all_txs bs)"
    and apart: "lib_txid E ` set (blk_txdata b) \<inter> lib_txid E ` set (all_txs bs) = {}"
    using wf_txs_append [of E "blk_txdata b" "all_txs bs"] by auto
  show ?case
    unfolding chain_events.simps ev_creates_append
    by (intro distinct_append_outpoints
        [OF distinct_txs_events [OF wf(1)] Cons.IH [OF wf(2)] _ _ apart])
      (auto dest: txs_events_creates chain_events_creates)
qed simp

section \<open>Ledgers of prefixes\<close>

lemma wf_chain_take: "wf_chain E chain \<Longrightarrow> wf_chain E (take n chain)"
proof -
  assume wf: "wf_chain E chain"
  have "all_txs chain = all_txs (take n chain) @ all_txs (drop n chain)"
    by (subst append_take_drop_id [of n chain, symmetric]) (simp only: all_txs_simps)
  then have "wf_txs E (all_txs (take n chain))"
    using wf wf_txs_append [of E "all_txs (take n chain)" "all_txs (drop n chain)"]
    by (simp add: wf_chain_def)
  moreover have "length (take n chain) \<le> length chain" by simp
  ultimately show ?thesis using wf unfolding wf_chain_def by linarith
qed

lemma wallet_ledger_Nil [simp]: "wallet_ledger E L eng [] = Map.empty"
  by (simp add: wallet_ledger_def)

lemma wallet_ledger_snoc:
  "wallet_ledger E L eng (chain @ [b]) =
     play (txs_events E L eng (word_of_nat (length chain)) (blk_txdata b)) (wallet_ledger E L eng chain)"
  by (simp add: wallet_ledger_def chain_events_append)

lemma consistent_wallet_ledger: "consistent (wallet_ledger E L eng chain)"
  unfolding wallet_ledger_def
  by (rule consistent_play) (auto dest: chain_events_creates)

lemma dom_wallet_ledger:
  "op \<in> dom (wallet_ledger E L eng chain) \<Longrightarrow> op_txid op \<in> lib_txid E ` set (all_txs chain)"
  by (auto simp: wallet_ledger_def dom_play dest: chain_events_creates)

text \<open>Rolling the ledger of a chain back to height \<open>a\<close> gives the ledger of its first \<open>a + 1\<close> blocks.\<close>

lemma roll_back_wallet_ledger:
  assumes wf: "wf_chain E chain"
  shows "roll_back a (wallet_ledger E L eng chain) = wallet_ledger E L eng (take (Suc (unat a)) chain)"
proof -
  let ?n = "Suc (unat a)"
  let ?lo = "take ?n chain" and ?hi = "drop ?n chain"
  have len: "length chain < 2 ^ 32" using wf by (simp add: wf_chain_def)
  have split: "wf_txs E (all_txs ?lo)" "wf_txs E (all_txs ?hi)"
      "lib_txid E ` set (all_txs ?lo) \<inter> lib_txid E ` set (all_txs ?hi) = {}"
    using wf_txs_append [of E "all_txs ?lo" "all_txs ?hi"] wf
    by (simp_all add: wf_chain_def flip: all_txs_simps)
  let ?es = "chain_events E L eng (length ?lo) ?hi"
  have "wallet_ledger E L eng chain = play ?es (wallet_ledger E L eng ?lo)"
    using chain_events_append [of E L eng 0 ?lo ?hi] by (simp add: wallet_ledger_def)
  then have "roll_back a (wallet_ledger E L eng chain) =
      roll_back a (play ?es (wallet_ledger E L eng ?lo))" by simp
  also have "\<dots> = roll_back a (wallet_ledger E L eng ?lo)"
  proof (rule roll_back_play)
    show "consistent (wallet_ledger E L eng ?lo)" by (rule consistent_wallet_ledger)
    show "distinct (map cu_outpoint (ev_creates ?es))" by (rule distinct_chain_events [OF split(2)])
    show "\<forall>u \<in> set (ev_creates ?es). cu_outpoint u \<notin> dom (wallet_ledger E L eng ?lo) \<and> \<not> cu_is_spent u"
      using split(3) by (auto dest!: chain_events_creates dom_wallet_ledger)
    show "\<forall>e \<in> set ?es. a < ev_height e"
    proof
      fix e assume "e \<in> set ?es"
      from chain_events_height [OF this] obtain i where
        i: "length ?lo \<le> i" "i < length ?lo + length ?hi" "ev_height e = word_of_nat i" by blast
      then have "unat (word_of_nat i :: u32) = i" using len by (intro unat_word_of_nat_u32) simp
      then show "a < ev_height e" using i by (simp add: word_less_nat_alt)
    qed
  qed
  also have "\<dots> = wallet_ledger E L eng ?lo"
  proof (rule roll_back_settled, unfold wallet_ledger_def, rule settled_play)
    show "settled_at a Map.empty" by (simp add: settled_at_def)
    show "\<forall>e \<in> set (chain_events E L eng 0 ?lo). ev_height e \<le> a"
    proof
      fix e assume "e \<in> set (chain_events E L eng 0 ?lo)"
      from chain_events_height [OF this] obtain i where
        i: "i < length ?lo" "ev_height e = word_of_nat i" by auto
      then have "unat (word_of_nat i :: u32) = i" using len by (intro unat_word_of_nat_u32) simp
      then show "ev_height e \<le> a" using i by (simp add: word_le_nat_alt)
    qed
  qed
  finally show ?thesis .
qed

end
