(* ===== verification/Ledger_Meaning.thy ===== *)
theory Ledger_Meaning
  imports Wallet_Ledger
begin

text \<open>
  The wallet ledger of a chain without events: which outputs of the chain are the wallets' and
  which of them an input of the chain spends. On a well-formed chain the order of the events does
  not matter any more: an output is unspent in the ledger iff no input anywhere refers to it, and
  a spent one carries the height of the first input that does.
\<close>

definition captured_in ::
    "elements_lib \<Rightarrow> ('d, 'k, 'w) lwk_lib \<Rightarrow> ('d, 'k, 'w) scan_engine \<Rightarrow> block list
     \<Rightarrow> captured_utxo set" where
  "captured_in E L eng chain = {u. \<exists>i < length chain. \<exists>t \<in> set (blk_txdata (chain ! i)).
     \<exists>v < length (tx_output t).
       capture_of L eng (word_of_nat i) (lib_txid E t) v (tx_output t ! v) = Some u}"

definition spent_in :: "block list \<Rightarrow> outpoint set" where
  "spent_in chain = {p. \<exists>b \<in> set chain. \<exists>t \<in> set (blk_txdata b). \<exists>i \<in> set (tx_input t).
     ti_previous_output i = p}"

section \<open>Lists of events in causal order\<close>

fun ev_spends :: "event list \<Rightarrow> (outpoint \<times> u32) list" where
  "ev_spends [] = []"
| "ev_spends (ESpend p h # es) = (p, h) # ev_spends es"
| "ev_spends (ECreate u # es) = ev_spends es"

fun causal :: "event list \<Rightarrow> bool" where
  "causal [] \<longleftrightarrow> True"
| "causal (ESpend p h # es) \<longleftrightarrow> p \<notin> cu_outpoint ` set (ev_creates es) \<and> causal es"
| "causal (ECreate u # es) \<longleftrightarrow> causal es"

definition spend_heights :: "outpoint \<Rightarrow> event list \<Rightarrow> u32 list" where
  "spend_heights p es = map snd (filter (\<lambda>x. fst x = p) (ev_spends es))"

definition settle :: "u32 list \<Rightarrow> captured_utxo \<Rightarrow> utxo_entry" where
  "settle hs u = (case hs of
     [] \<Rightarrow> \<lparr>en_utxo = u, en_spent_height = None\<rparr>
   | h # _ \<Rightarrow> spend_entry h \<lparr>en_utxo = u, en_spent_height = None\<rparr>)"

lemma ev_spends_append [simp]: "ev_spends (xs @ ys) = ev_spends xs @ ev_spends ys"
  by (induction xs rule: ev_spends.induct) simp_all

lemma causal_append:
  "causal (xs @ ys) \<longleftrightarrow> causal xs \<and> causal ys
     \<and> fst ` set (ev_spends xs) \<inter> cu_outpoint ` set (ev_creates ys) = {}"
  by (induction xs rule: causal.induct) auto

lemma ev_spends_inputs [simp]:
  "ev_spends (input_spends h ins) = map (\<lambda>i. (ti_previous_output i, h)) ins"
  by (induction ins) (simp_all add: input_spends_def)

lemma ev_spends_ECreate [simp]: "ev_spends (map ECreate us) = []"
  by (induction us) simp_all

lemma causal_ECreate [simp]: "causal (map ECreate us)"
  by (induction us) simp_all

lemma causal_inputs [simp]: "causal (input_spends h ins)"
proof (induction ins)
  case (Cons i ins)
  then show ?case using ev_creates_input_spends [of h ins] by (simp add: input_spends_def)
qed (simp add: input_spends_def)

lemma settle_spent [simp]: "\<not> cu_is_spent u \<Longrightarrow> cu_is_spent (en_utxo (settle hs u)) \<longleftrightarrow> hs \<noteq> []"
  by (simp add: settle_def split: list.split)

lemma find_append:
  "find P (xs @ ys) = (case find P xs of Some x \<Rightarrow> Some x | None \<Rightarrow> find P ys)"
  by (induction xs) auto

text \<open>What playing a causal list of events leaves under one outpoint.\<close>

lemma play_lookup:
  assumes "causal es" and "distinct (map cu_outpoint (ev_creates es))"
    and "\<forall>u \<in> set (ev_creates es). \<not> cu_is_spent u"
  shows "play es Map.empty op =
    map_option (settle (spend_heights op es)) (find (\<lambda>u. cu_outpoint u = op) (ev_creates es))"
  using assms
proof (induction es rule: rev_induct)
  case Nil
  show ?case by simp
next
  case (snoc e es)
  then have IH: "play es Map.empty op =
    map_option (settle (spend_heights op es)) (find (\<lambda>u. cu_outpoint u = op) (ev_creates es))"
    by (auto simp: causal_append)
  show ?case
  proof (cases e)
    case (ESpend p h)
    have unspent: "\<not> cu_is_spent u" if "find (\<lambda>u. cu_outpoint u = op) (ev_creates es) = Some u" for u
      using that snoc.prems(3) by (auto simp: find_Some_iff)
    show ?thesis
    proof (cases "p = op")
      case False
      then show ?thesis using IH ESpend
        by (auto simp: apply_event.simps spend_heights_def split: option.split)
    next
      case True
      then show ?thesis using IH ESpend unspent
        by (cases "find (\<lambda>u. cu_outpoint u = op) (ev_creates es)"; cases "spend_heights op es")
          (auto simp: apply_event.simps spend_heights_def settle_def)
    qed
  next
    case (ECreate u)
    with snoc.prems have "cu_outpoint u \<notin> cu_outpoint ` set (ev_creates es)" by simp
    then have fresh: "\<forall>v \<in> set (ev_creates es). cu_outpoint v \<noteq> cu_outpoint u"
      by (metis image_eqI)
    from ECreate snoc.prems have no_spend: "cu_outpoint u \<notin> fst ` set (ev_spends es)"
      by (auto simp: causal_append)
    from no_spend have "spend_heights (cu_outpoint u) es = []"
      by (force simp: spend_heights_def filter_empty_conv)
    moreover have "find (\<lambda>v. cu_outpoint v = cu_outpoint u) (ev_creates es) = None"
      using fresh by (auto simp: find_None_iff)
    ultimately show ?thesis using IH ECreate
      by (auto simp: apply_event.simps find_append settle_def spend_heights_def split: option.split)
  qed
qed

section \<open>The events of a chain are causal\<close>

lemma tx_events_spends [simp]:
  "fst ` set (ev_spends (tx_events E L eng h t)) = ti_previous_output ` set (tx_input t)"
  by (auto simp: tx_events_def image_image)

lemma causal_tx_events:
  assumes "\<forall>i \<in> set (tx_input t). op_txid (ti_previous_output i) \<noteq> lib_txid E t"
  shows "causal (tx_events E L eng h t)"
  using assms by (fastforce simp: tx_events_def causal_append dest: output_captures_fields)

lemma txs_events_spends:
  "fst ` set (ev_spends (txs_events E L eng h ts)) =
     {p. \<exists>t \<in> set ts. \<exists>i \<in> set (tx_input t). ti_previous_output i = p}"
  by (induction ts) (auto simp: image_Un)

lemma chain_events_spends:
  "fst ` set (ev_spends (chain_events E L eng n bs)) = spent_in bs"
  by (induction bs arbitrary: n) (auto simp: spent_in_def image_Un txs_events_spends)

text \<open>The txids that inputs of well-formed transactions refer to are not those of later ones.\<close>

lemma wf_txs_apart:
  "wf_txs E (ts @ us) \<Longrightarrow> t \<in> set ts \<Longrightarrow> i \<in> set (tx_input t) \<Longrightarrow>
   op_txid (ti_previous_output i) \<notin> lib_txid E ` set us"
  by (induction ts) auto

lemma causal_txs_events: "wf_txs E ts \<Longrightarrow> causal (txs_events E L eng h ts)"
proof (induction ts)
  case (Cons t ts)
  then have "causal (tx_events E L eng h t)" by (intro causal_tx_events) auto
  with Cons show ?case by (fastforce simp: causal_append dest: txs_events_creates)
qed simp

lemma causal_chain_events: "wf_txs E (all_txs bs) \<Longrightarrow> causal (chain_events E L eng n bs)"
proof (induction bs arbitrary: n)
  case (Cons b bs)
  then have wf: "wf_txs E (blk_txdata b @ all_txs bs)" by simp
  then have "wf_txs E (blk_txdata b)" "wf_txs E (all_txs bs)" using wf_txs_append by blast+
  then show ?case
    using Cons.IH wf_txs_apart [OF wf]
    by (fastforce simp: causal_append causal_txs_events txs_events_spends dest: chain_events_creates)
qed simp

section \<open>Which outputs are captured\<close>

lemma set_output_captures:
  "set (output_captures L eng h tid v ts) =
     {u. \<exists>k < length ts. capture_of L eng h tid (v + k) (ts ! k) = Some u}"
proof (induction ts arbitrary: v)
  case Nil
  show ?case by simp
next
  case (Cons t ts)
  have "(\<exists>k < length (t # ts). capture_of L eng h tid (v + k) ((t # ts) ! k) = Some u) \<longleftrightarrow>
      capture_of L eng h tid v t = Some u
      \<or> (\<exists>k < length ts. capture_of L eng h tid (Suc v + k) (ts ! k) = Some u)" for u
    by (auto simp: less_Suc_eq_0_disj)
  then show ?case by (auto simp: Cons.IH split: option.splits)
qed

lemma set_creates_tx:
  "set (ev_creates (tx_events E L eng h t)) =
     {u. \<exists>v < length (tx_output t). capture_of L eng h (lib_txid E t) v (tx_output t ! v) = Some u}"
  by (simp add: tx_events_def set_output_captures)

lemma set_creates_txs:
  "set (ev_creates (txs_events E L eng h ts)) =
     (\<Union>t \<in> set ts. set (ev_creates (tx_events E L eng h t)))"
  by (induction ts) simp_all

lemma set_creates_chain:
  "set (ev_creates (chain_events E L eng n bs)) =
     {u. \<exists>i < length bs. u \<in> set (ev_creates (txs_events E L eng (word_of_nat (n + i)) (blk_txdata (bs ! i))))}"
proof (induction bs arbitrary: n)
  case Nil
  show ?case by simp
next
  case (Cons b bs)
  show ?case by (auto simp: Cons.IH less_Suc_eq_0_disj simp del: of_nat_Suc of_nat_add)
qed

lemma set_creates_captured:
  "set (ev_creates (chain_events E L eng 0 chain)) = captured_in E L eng chain"
  by (auto simp: set_creates_chain set_creates_txs set_creates_tx captured_in_def)

section \<open>The ledger of a chain\<close>

text \<open>
  The heights of the inputs of the chain that spend an outpoint, in order, are those of its
  spend events.
\<close>

lemma spend_heights_Nil:
  "spend_heights p (chain_events E L eng 0 chain) = [] \<longleftrightarrow> p \<notin> spent_in chain"
  by (auto simp: spend_heights_def filter_empty_conv chain_events_spends [of E L eng 0, symmetric] rev_image_eqI)

lemma wallet_ledger_entry:
  assumes wf: "wf_chain E chain"
  shows "wallet_ledger E L eng chain op = Some e \<longleftrightarrow>
    (\<exists>u \<in> captured_in E L eng chain. cu_outpoint u = op
       \<and> e = settle (spend_heights op (chain_events E L eng 0 chain)) u)"
proof -
  let ?es = "chain_events E L eng 0 chain"
  have txs: "wf_txs E (all_txs chain)" using wf by (simp add: wf_chain_def)
  note distinct = distinct_chain_events [OF txs, of L eng 0]
  have "wallet_ledger E L eng chain op =
      map_option (settle (spend_heights op ?es)) (find (\<lambda>u. cu_outpoint u = op) (ev_creates ?es))"
    unfolding wallet_ledger_def
    by (rule play_lookup [OF causal_chain_events [OF txs] distinct])
      (auto dest: chain_events_creates)
  moreover have "find (\<lambda>u. cu_outpoint u = op) (ev_creates ?es) = Some u \<longleftrightarrow>
      u \<in> captured_in E L eng chain \<and> cu_outpoint u = op" for u
  proof -
    have "find (\<lambda>u. cu_outpoint u = op) us = Some u \<longleftrightarrow> u \<in> set us \<and> cu_outpoint u = op"
      if "distinct (map cu_outpoint us)" for us
      using that by (induction us) auto
    from this [OF distinct] show ?thesis by (simp add: set_creates_captured)
  qed
  ultimately show ?thesis by auto
qed

lemma captured_in_unspent: "u \<in> captured_in E L eng chain \<Longrightarrow> \<not> cu_is_spent u"
  by (auto simp: captured_in_def dest: capture_of_fields)

text \<open>The unspent outputs of the ledger are the captured ones that no input refers to.\<close>

lemma unspent_wallet_ledger:
  assumes wf: "wf_chain E chain"
  shows "{u. \<exists>op e. wallet_ledger E L eng chain op = Some e \<and> en_utxo e = u \<and> \<not> cu_is_spent u}
    = {u \<in> captured_in E L eng chain. cu_outpoint u \<notin> spent_in chain}"
proof -
  have "(\<exists>op e. wallet_ledger E L eng chain op = Some e \<and> en_utxo e = u \<and> \<not> cu_is_spent u) \<longleftrightarrow>
      u \<in> captured_in E L eng chain \<and> cu_outpoint u \<notin> spent_in chain" (is "?l \<longleftrightarrow> ?r") for u
  proof
    assume ?l
    then obtain v where v: "v \<in> captured_in E L eng chain"
        "en_utxo (settle (spend_heights (cu_outpoint v) (chain_events E L eng 0 chain)) v) = u"
      and "\<not> cu_is_spent u" unfolding wallet_ledger_entry [OF wf] by auto
    with captured_in_unspent [OF v(1)] have
      none: "spend_heights (cu_outpoint v) (chain_events E L eng 0 chain) = []" by auto
    with v have "u = v" by (simp add: settle_def)
    then show ?r using v(1) none by (simp add: spend_heights_Nil)
  next
    assume r: ?r
    then have "spend_heights (cu_outpoint u) (chain_events E L eng 0 chain) = []"
      by (simp add: spend_heights_Nil)
    then have "wallet_ledger E L eng chain (cu_outpoint u) = Some \<lparr>en_utxo = u, en_spent_height = None\<rparr>"
      unfolding wallet_ledger_entry [OF wf] using r by (intro bexI [of _ u]) (auto simp: settle_def)
    then show ?l using r captured_in_unspent [of u]
      by (intro exI [of _ "cu_outpoint u"] exI [of _ "\<lparr>en_utxo = u, en_spent_height = None\<rparr>"]) auto
  qed
  then show ?thesis by simp
qed

end
