(* ===== verification/Sync_Block.thy ===== *)
theory Sync_Block
  imports Wallet_Ledger
begin

text \<open>
  One block through the engine, against the events of the block. The engine never touches a store
  while it looks at the transactions: it collects captures and spends and keeps its spend index up
  to date. The relation \<open>acc_rel\<close> says what these stand for: the ledger the store held when the
  block began, with the captures put and the spends marked, is the ledger the events so far lead
  to, and the keys of the index are its unspent outpoints.
\<close>

definition engine_wf :: "('d, 'k, 'w) scan_engine \<Rightarrow> bool" where
  "engine_wf eng \<longleftrightarrow> distinct (map fst (eng_index eng))
     \<and> (\<forall>p \<in> set (eng_index eng). se_wollet_idx (snd p) < length (eng_wollets eng))"

lemma engine_wf_index:
  "engine_wf eng \<Longrightarrow> map_of (eng_index eng) s = Some e \<Longrightarrow> se_wollet_idx e < length (eng_wollets eng)"
  by (auto simp: engine_wf_def dest!: map_of_SomeD)

definition acc_rel :: "ledger \<Rightarrow> u32 \<Rightarrow> scan_acc \<Rightarrow> ledger \<Rightarrow> bool" where
  "acc_rel m0 h acc m \<longleftrightarrow>
     m = spend_all (sa_spent acc) h (put_all (sa_captured acc) m0)
     \<and> dom (map_of (sa_spend_index acc)) = {op. is_unspent m op}
     \<and> set (sa_spent acc) \<subseteq> dom m"

lemma acc_relD:
  assumes "acc_rel m0 h acc m"
  shows "m = spend_all (sa_spent acc) h (put_all (sa_captured acc) m0)"
    and "map_of (sa_spend_index acc) op \<noteq> None \<longleftrightarrow> is_unspent m op"
    and "set (sa_spent acc) \<subseteq> dom m"
  using assms unfolding acc_rel_def by (auto simp: dom_def set_eq_iff)

lemma acc_rel_summary [simp]: "acc_rel m0 h (acc\<lparr>sa_summary := s\<rparr>) m = acc_rel m0 h acc m"
  by (simp add: acc_rel_def)

lemma acc_relI:
  assumes "m = spend_all (sa_spent acc) h (put_all (sa_captured acc) m0)"
    and "\<And>op. map_of (sa_spend_index acc) op \<noteq> None \<longleftrightarrow> is_unspent m op"
    and "set (sa_spent acc) \<subseteq> dom m"
  shows "acc_rel m0 h acc m"
  using assms unfolding acc_rel_def by (auto simp: dom_def set_eq_iff)

lemma is_unspent_spend [simp]:
  "is_unspent (m(p \<mapsto> spend_entry h e)) op \<longleftrightarrow> op \<noteq> p \<and> is_unspent m op"
  by (simp add: is_unspent_def)

lemma is_unspent_create [simp]:
  "\<not> cu_is_spent u \<Longrightarrow>
   is_unspent (m(p \<mapsto> \<lparr>en_utxo = u, en_spent_height = None\<rparr>)) op \<longleftrightarrow> op = p \<or> is_unspent m op"
  by (simp add: is_unspent_def)

section \<open>Inputs\<close>

lemma scan_input_rel:
  assumes rel: "acc_rel m0 h acc m"
  shows "acc_rel m0 h
      (case map_of (sa_spend_index acc) p of
         Some _ \<Rightarrow> acc\<lparr>sa_spend_index := AList.delete p (sa_spend_index acc),
                      sa_spent := sa_spent acc @ [p]\<rparr>
       | None \<Rightarrow> acc)
      (apply_event (ESpend p h) m)"
proof (cases "is_unspent m p")
  case True
  then obtain e where e: "m p = Some e" "\<not> cu_is_spent (en_utxo e)"
    by (auto simp: is_unspent_def split: option.splits)
  obtain w where w: "map_of (sa_spend_index acc) p = Some w"
    using acc_relD(2) [OF rel, of p] True by auto
  let ?acc = "acc\<lparr>sa_spend_index := AList.delete p (sa_spend_index acc), sa_spent := sa_spent acc @ [p]\<rparr>"
  have ev: "apply_event (ESpend p h) m = m(p \<mapsto> spend_entry h e)"
    using e by (simp add: apply_event.simps)
  have "acc_rel m0 h ?acc (m(p \<mapsto> spend_entry h e))"
  proof (rule acc_relI)
    have "m(p \<mapsto> spend_entry h e) = spend_one h p m" using e(1) by (simp add: spend_one_def)
    then show "m(p \<mapsto> spend_entry h e) = spend_all (sa_spent ?acc) h (put_all (sa_captured ?acc) m0)"
      using acc_relD(1) [OF rel] by simp
    show "set (sa_spent ?acc) \<subseteq> dom (m(p \<mapsto> spend_entry h e))"
      using acc_relD(3) [OF rel] by auto
    show "map_of (sa_spend_index ?acc) op \<noteq> None \<longleftrightarrow> is_unspent (m(p \<mapsto> spend_entry h e)) op" for op
      using acc_relD(2) [OF rel, of op] by simp
  qed
  then show ?thesis using w ev by simp
next
  case False
  then have "apply_event (ESpend p h) m = m"
    by (auto simp: apply_event.simps is_unspent_def split: option.splits)
  moreover have "map_of (sa_spend_index acc) p = None" using acc_relD(2) [OF rel, of p] False by auto
  ultimately show ?thesis using rel by simp
qed

lemma scan_inputs_rel:
  "acc_rel m0 h acc m \<Longrightarrow> acc_rel m0 h (scan_inputs ins acc) (play (input_spends h ins) m)"
proof (induction ins arbitrary: acc m)
  case Nil
  then show ?case by (simp add: input_spends_def)
next
  case (Cons i ins)
  from Cons.IH [OF scan_input_rel [OF Cons.prems]] show ?case
    by (simp add: input_spends_def Let_def)
qed

section \<open>Outputs\<close>

text \<open>What one output does to the loop's variables, in terms of the record captured for it.\<close>

lemma scan_output_None:
  assumes "engine_wf eng" and "capture_of L eng h tid v t = None"
  shows "\<exists>s. scan_output L eng h tid v t acc = Inr (acc\<lparr>sa_summary := s\<rparr>)
    \<and> s\<lparr>ss_skipped_unblindable := 0\<rparr> = (sa_summary acc)\<lparr>ss_skipped_unblindable := 0\<rparr>"
proof (cases "map_of (eng_index eng) (to_script_pubkey t)")
  case None
  then show ?thesis by (auto simp: scan_output_def intro: exI [of _ "sa_summary acc"])
next
  case (Some e)
  with assms show ?thesis
    using engine_wf_index [OF assms(1) Some]
    by (auto simp: scan_output_def capture_of_def bump_skipped_def split: sum.splits)
qed

lemma scan_output_Some:
  assumes "engine_wf eng" and "capture_of L eng h tid v t = Some u" and "v < 2 ^ 32"
  shows "scan_output L eng h tid v t acc =
    Inr (acc\<lparr>sa_captured := sa_captured acc @ [u],
            sa_spend_index := AList.update (cu_outpoint u) (cu_wallet_id u) (sa_spend_index acc)\<rparr>)"
  using assms engine_wf_index [OF assms(1)]
  by (auto simp: scan_output_def capture_of_def Let_def split: option.splits sum.splits)

text \<open>Outpoints of this transaction that the ledger holds already have smaller numbers.\<close>

definition fresh_from :: "txid \<Rightarrow> nat \<Rightarrow> ledger \<Rightarrow> bool" where
  "fresh_from tid v m \<longleftrightarrow> (\<forall>op \<in> dom m. op_txid op = tid \<longrightarrow> unat (op_vout op) < v)"

lemma acc_rel_create:
  assumes rel: "acc_rel m0 h acc m" and fresh: "cu_outpoint u \<notin> dom m" and "\<not> cu_is_spent u"
  shows "acc_rel m0 h
      (acc\<lparr>sa_captured := sa_captured acc @ [u],
           sa_spend_index := AList.update (cu_outpoint u) w (sa_spend_index acc)\<rparr>)
      (apply_event (ECreate u) m)" (is "acc_rel m0 h ?acc ?m")
proof (rule acc_relI)
  let ?cap = "put_all (sa_captured acc) m0"
  have domcap: "dom m = dom ?cap" by (subst acc_relD(1) [OF rel]) (rule dom_spend_all)
  have "cu_outpoint u \<notin> set (sa_spent acc)" using acc_relD(3) [OF rel] fresh by blast
  then have "put_utxo u m = spend_all (sa_spent acc) h (put_utxo u ?cap)"
    using fresh unfolding domcap by (subst acc_relD(1) [OF rel]) (rule put_spend_commute)
  then show "?m = spend_all (sa_spent ?acc) h (put_all (sa_captured ?acc) m0)"
    using fresh by (simp add: apply_event.simps put_utxo_fresh)
  show "map_of (sa_spend_index ?acc) op \<noteq> None \<longleftrightarrow> is_unspent ?m op" for op
    using acc_relD(2) [OF rel, of op] assms(3) by (simp add: apply_event.simps)
  show "set (sa_spent ?acc) \<subseteq> dom ?m"
    using acc_relD(3) [OF rel] by (auto simp: apply_event.simps)
qed

lemma scan_outputs_rel:
  assumes "engine_wf eng" and "acc_rel m0 h acc m" and "fresh_from tid v m"
    and "v + length ts \<le> 2 ^ 32"
  shows "\<exists>acc'. scan_outputs L eng h tid v ts acc = Inr acc'
    \<and> acc_rel m0 h acc' (play (map ECreate (output_captures L eng h tid v ts)) m)"
  using assms(2-)
proof (induction ts arbitrary: v acc m)
  case Nil
  then show ?case by simp
next
  case (Cons t ts)
  show ?case
  proof (cases "capture_of L eng h tid v t")
    case None
    obtain s where s: "scan_output L eng h tid v t acc = Inr (acc\<lparr>sa_summary := s\<rparr>)"
      using scan_output_None [OF assms(1) None] by blast
    have "acc_rel m0 h (acc\<lparr>sa_summary := s\<rparr>) m"
      using Cons.prems(1) by simp
    moreover have "fresh_from tid (Suc v) m" using Cons.prems(2) by (auto simp: fresh_from_def)
    ultimately show ?thesis
      using Cons.IH [of "acc\<lparr>sa_summary := s\<rparr>" m "Suc v"] Cons.prems(3) None s by simp
  next
    case (Some u)
    note u = capture_of_fields [OF Some]
    have v: "unat (word_of_nat v :: u32) = v" "v < 2 ^ 32"
      using Cons.prems(3) by (auto intro!: unat_word_of_nat_u32)
    have new: "cu_outpoint u \<notin> dom m"
      using Cons.prems(2) u v unfolding fresh_from_def by force
    have "fresh_from tid (Suc v) (apply_event (ECreate u) m)"
      using Cons.prems(2) u v by (auto simp: fresh_from_def apply_event.simps)
    with acc_rel_create [OF Cons.prems(1) new, of "cu_wallet_id u"] show ?thesis
      using Cons.IH [of _ "apply_event (ECreate u) m" "Suc v"] Cons.prems(3) Some u
        scan_output_Some [OF assms(1) Some v(2), of acc] by simp
  qed
qed

section \<open>Transactions\<close>

lemma fresh_from_play:
  assumes "\<forall>op \<in> dom m. op_txid op \<noteq> tid"
  shows "fresh_from tid 0 (play (input_spends h ins) m)"
  using assms by (auto simp: fresh_from_def dom_play)

lemma scan_txs_rel:
  assumes "engine_wf eng" and "acc_rel m0 h acc m" and "wf_txs E txs"
    and "\<forall>op \<in> dom m. op_txid op \<notin> lib_txid E ` set txs"
  shows "\<exists>acc'. scan_txs E L eng h txs acc = Inr acc'
    \<and> acc_rel m0 h acc' (play (txs_events E L eng h txs) m)"
  using assms(2-)
proof (induction txs arbitrary: acc m)
  case Nil
  then show ?case by simp
next
  case (Cons t ts)
  have rel: "acc_rel m0 h (scan_inputs (tx_input t) acc) (play (input_spends h (tx_input t)) m)"
    by (rule scan_inputs_rel [OF Cons.prems(1)])
  have fresh: "fresh_from (lib_txid E t) 0 (play (input_spends h (tx_input t)) m)"
    using Cons.prems(3) by (intro fresh_from_play) auto
  obtain acc1 where acc1: "scan_tx E L eng h t acc = Inr acc1"
    and rel1: "acc_rel m0 h acc1 (play (tx_events E L eng h t) m)"
    using scan_outputs_rel [OF assms(1) rel fresh, of "tx_output t" L] Cons.prems(2)
    by (auto simp: scan_tx_def tx_events_def)
  have "\<forall>op \<in> dom (play (tx_events E L eng h t) m). op_txid op \<notin> lib_txid E ` set ts"
    using Cons.prems(2,3) by (auto simp: dom_play dest!: tx_events_creates)
  with Cons.IH [OF rel1] Cons.prems(2) show ?case by (simp add: acc1)
qed

text \<open>
  Whatever the ledger, the captures collected from the transactions are those of their events and
  the counters of earlier blocks are left alone.
\<close>

lemma scan_inputs_frame:
  "sa_captured (scan_inputs ins acc) = sa_captured acc"
  "sa_summary (scan_inputs ins acc) = sa_summary acc"
  by (induction ins arbitrary: acc) (simp_all add: Let_def split: option.splits)

lemma scan_outputs_frame:
  assumes "engine_wf eng" and "v + length ts \<le> 2 ^ 32"
    and "scan_outputs L eng h tid v ts acc = Inr acc'"
  shows "sa_captured acc' = sa_captured acc @ output_captures L eng h tid v ts
    \<and> sa_spent acc' = sa_spent acc
    \<and> (sa_summary acc')\<lparr>ss_skipped_unblindable := 0\<rparr> = (sa_summary acc)\<lparr>ss_skipped_unblindable := 0\<rparr>"
  using assms(2,3)
proof (induction ts arbitrary: v acc)
  case Nil
  then show ?case by simp
next
  case (Cons t ts)
  show ?case
  proof (cases "capture_of L eng h tid v t")
    case None
    from scan_output_None [OF assms(1) None, of acc] obtain s where
      s: "scan_output L eng h tid v t acc = Inr (acc\<lparr>sa_summary := s\<rparr>)"
        "s\<lparr>ss_skipped_unblindable := 0\<rparr> = (sa_summary acc)\<lparr>ss_skipped_unblindable := 0\<rparr>" by blast
    show ?thesis using Cons.IH [of "Suc v" "acc\<lparr>sa_summary := s\<rparr>"] Cons.prems s None by simp
  next
    case (Some u)
    have "v < 2 ^ 32" using Cons.prems(1) by simp
    note s = scan_output_Some [OF assms(1) Some this, of acc]
    show ?thesis using Cons.prems Some
      by (auto dest!: Cons.IH [rotated] simp: s)
  qed
qed

lemma scan_txs_frame:
  assumes "engine_wf eng" and "wf_txs E txs" and "scan_txs E L eng h txs acc = Inr acc'"
  shows "sa_captured acc' = sa_captured acc @ ev_creates (txs_events E L eng h txs)
    \<and> (sa_summary acc')\<lparr>ss_skipped_unblindable := 0\<rparr> = (sa_summary acc)\<lparr>ss_skipped_unblindable := 0\<rparr>"
  using assms(2,3)
proof (induction txs arbitrary: acc)
  case Nil
  then show ?case by simp
next
  case (Cons t ts)
  then obtain acc1 where t: "scan_outputs L eng h (lib_txid E t) 0 (tx_output t)
        (scan_inputs (tx_input t) acc) = Inr acc1"
    and ts: "scan_txs E L eng h ts acc1 = Inr acc'"
    by (auto simp: bindR_Inr scan_tx_def)
  have "0 + length (tx_output t) \<le> 2 ^ 32" using Cons.prems(1) by simp
  from scan_outputs_frame [OF assms(1) this t] Cons.IH [OF _ ts] Cons.prems(1) show ?case
    by (simp add: scan_inputs_frame tx_events_def)
qed

end
