(* ===== verification/Sync_Correct.thy ===== *)
theory Sync_Correct
  imports Sync_Block
begin

text \<open>
  A whole pass, against the contracts of the three traits. \<open>synced\<close> says that the stores hold
  exactly a given chain: its blocks, its tip as the cursor and its wallet ledger. The locale
  \<open>scan_env\<close> proves once, for every store and node that honour the contracts, that a pass that
  returns \<open>Ok\<close> takes stores synced with one chain to stores synced with the node's chain, by the
  shortest rollback that the stored hashes allow.
\<close>

definition blocks_match ::
    "elements_lib \<Rightarrow> (u32 \<rightharpoonup> (block_hash \<times> u8 list)) \<Rightarrow> block list \<Rightarrow> bool" where
  "blocks_match E bl chain \<longleftrightarrow> (\<forall>i < length chain. bl (word_of_nat i) =
     Some (lib_block_hash E (chain ! i), lib_serialize_block E (chain ! i)))"

definition tip_of :: "elements_lib \<Rightarrow> block list \<Rightarrow> synced_tip option" where
  "tip_of E chain = (if chain = [] then None else
     Some \<lparr>st_height = word_of_nat (length chain - 1), st_hash = lib_block_hash E (last chain)\<rparr>)"

definition synced ::
    "elements_lib \<Rightarrow> ('d, 'k, 'w) lwk_lib \<Rightarrow> ('d, 'k, 'w) scan_engine \<Rightarrow> block list
     \<Rightarrow> (u32 \<rightharpoonup> (block_hash \<times> u8 list)) \<Rightarrow> synced_tip option \<Rightarrow> ledger \<Rightarrow> bool" where
  "synced E L eng chain bl tip led \<longleftrightarrow> wf_chain E chain \<and> blocks_match E bl chain
     \<and> tip = tip_of E chain \<and> led = wallet_ledger E L eng chain"

text \<open>
  What the hash links of a block chain give: blocks of the two chains that have the same hash at
  the same height have the same history, and the two chains start with the same block.
\<close>

definition linked :: "elements_lib \<Rightarrow> block list \<Rightarrow> block list \<Rightarrow> bool" where
  "linked E old new \<longleftrightarrow>
     (\<forall>i < min (length old) (length new). lib_block_hash E (old ! i) = lib_block_hash E (new ! i)
        \<longrightarrow> take (Suc i) old = take (Suc i) new)
     \<and> (old \<noteq> [] \<longrightarrow> new \<noteq> [] \<longrightarrow> old ! 0 = new ! 0)"

lemma on_chainE:
  assumes "on_chain m w = (r, w')"
  obtains c' where "m (w_chain w) = (r, c')" and "w' = w\<lparr>w_chain := c'\<rparr>"
  using assms by (auto simp: on_chain_def split: prod.splits)

lemma on_blocksE:
  assumes "on_blocks m w = (r, w')"
  obtains b' where "m (w_blocks w) = (r, b')" and "w' = w\<lparr>w_blocks := b'\<rparr>"
  using assms by (auto simp: on_blocks_def split: prod.splits)

lemma on_utxosE:
  assumes "on_utxos m w = (r, w')"
  obtains u' where "m (w_utxos w) = (r, u')" and "w' = w\<lparr>w_utxos := u'\<rparr>"
  using assms by (auto simp: on_utxos_def split: prod.splits)

text \<open>The invariant of the loop over blocks: heights below \<open>n\<close> are done.\<close>

definition scanned_to ::
    "elements_lib \<Rightarrow> ('d, 'k, 'w) lwk_lib \<Rightarrow> ('d, 'k, 'w) scan_engine \<Rightarrow> block list \<Rightarrow> nat
     \<Rightarrow> (u32 \<rightharpoonup> (block_hash \<times> u8 list)) \<Rightarrow> ledger \<Rightarrow> scan_acc \<Rightarrow> bool" where
  "scanned_to E L eng chain n bl led acc \<longleftrightarrow>
     blocks_match E bl (take n chain) \<and> led = wallet_ledger E L eng (take n chain)
     \<and> dom (map_of (sa_spend_index acc)) = {op. is_unspent led op}"

lemma blocks_match_step:
  assumes "blocks_match E bl (take n chain)" and "n < length chain" and "length chain < 2 ^ 32"
  shows "blocks_match E (bl(word_of_nat n \<mapsto>
    (lib_block_hash E (chain ! n), lib_serialize_block E (chain ! n)))) (take (Suc n) chain)"
proof -
  have "(word_of_nat i :: u32) \<noteq> word_of_nat n" if "i < n" for i
  proof
    assume "(word_of_nat i :: u32) = word_of_nat n"
    then have "unat (word_of_nat i :: u32) = unat (word_of_nat n :: u32)" by simp
    with that assms(2,3) show False by (simp add: unat_word_of_nat_u32)
  qed
  with assms(1,2) show ?thesis by (auto simp: blocks_match_def less_Suc_eq)
qed

text \<open>The transactions of the next block are new to the ledger of the blocks before it.\<close>

lemma next_block_fresh:
  assumes "wf_chain E chain" and "n < length chain"
  shows "wf_txs E (blk_txdata (chain ! n))"
    and "\<forall>op \<in> dom (wallet_ledger E L eng (take n chain)).
      op_txid op \<notin> lib_txid E ` set (blk_txdata (chain ! n))"
proof -
  have "wf_chain E (take (Suc n) chain)" by (rule wf_chain_take [OF assms(1)])
  then have "wf_txs E (all_txs (take n chain) @ blk_txdata (chain ! n))"
    using assms(2) by (simp add: wf_chain_def take_Suc_conv_app_nth)
  from wf_txs_append [OF this]
  show "wf_txs E (blk_txdata (chain ! n))"
    and "\<forall>op \<in> dom (wallet_ledger E L eng (take n chain)).
      op_txid op \<notin> lib_txid E ` set (blk_txdata (chain ! n))"
    by (auto dest!: dom_wallet_ledger)
qed

lemma nth_by_hash:
  assumes "inj_on (lib_block_hash E) (set chain)" and "n < length chain"
    and "b \<in> set chain" and "lib_block_hash E b = lib_block_hash E (chain ! n)"
  shows "b = chain ! n"
  using assms by (auto dest: inj_onD)

lemma summary_sameD:
  assumes "s\<lparr>ss_skipped_unblindable := 0\<rparr> = t\<lparr>ss_skipped_unblindable := (0 :: nat)\<rparr>"
  shows "ss_blocks_scanned s = ss_blocks_scanned t" "ss_utxos_captured s = ss_utxos_captured t"
    "ss_utxos_spent s = ss_utxos_spent t" "ss_reorg_to s = ss_reorg_to t"
  using assms by (cases s; cases t; simp)+

text \<open>
  \<open>k\<close> blocks are common to both chains, and where both chains go on their hashes differ.
\<close>

definition fork_at :: "elements_lib \<Rightarrow> block list \<Rightarrow> block list \<Rightarrow> nat \<Rightarrow> bool" where
  "fork_at E old new k \<longleftrightarrow> k \<le> length old \<and> k \<le> length new \<and> take k old = take k new
     \<and> (\<forall>i. k \<le> i \<and> i < length old \<and> i < length new \<longrightarrow>
          lib_block_hash E (old ! i) \<noteq> lib_block_hash E (new ! i))"

text \<open>The captures of the blocks from height \<open>k\<close> on.\<close>

definition captures_from ::
    "elements_lib \<Rightarrow> ('d, 'k, 'w) lwk_lib \<Rightarrow> ('d, 'k, 'w) scan_engine \<Rightarrow> block list \<Rightarrow> nat
     \<Rightarrow> captured_utxo list" where
  "captures_from E L eng chain k = ev_creates (chain_events E L eng k (drop k chain))"

lemma dom_spend_index:
  "dom (map_of (fold (\<lambda>(op, wid). AList.update op wid) pairs al)) = fst ` set pairs \<union> dom (map_of al)"
  by (induction pairs arbitrary: al) (auto split: prod.splits)

lemma blocks_match_take: "blocks_match E bl chain \<Longrightarrow> blocks_match E bl (take k chain)"
  by (simp add: blocks_match_def)

lemma tip_of_Some:
  assumes "tip_of E chain = Some t"
  shows "chain \<noteq> []" "st_height t = word_of_nat (length chain - 1)"
    "st_hash t = lib_block_hash E (chain ! (length chain - 1))"
  using assms by (auto simp: tip_of_def last_conv_nth split: if_splits)

lemma tip_of_last:
  assumes "Suc (unat tip) = length chain"
  shows "tip_of E chain = Some \<lparr>st_height = tip, st_hash = lib_block_hash E (chain ! unat tip)\<rparr>"
proof -
  have tip: "unat tip = length chain - 1" and "chain \<noteq> []" using assms by auto
  moreover have "(word_of_nat (length chain - 1) :: u32) = tip" unfolding tip [symmetric] by simp
  ultimately show ?thesis by (simp add: tip_of_def last_conv_nth)
qed

text \<open>The heights a pass visits: from the fork to the tip, and the clamp changes nothing.\<close>

lemma start_range:
  assumes start: "start = word_of_nat k" and "k \<le> n" and len: "n < 2 ^ 32" and tip: "Suc (unat tip) = n"
  shows "clamp_start start tip = start" and "start \<le> tip + 1"
    and "u32_range start tip = map word_of_nat [k ..< n]"
proof -
  have "unat start = k" using assms(2) len unfolding start by (intro unat_word_of_nat_u32) simp
  moreover have "unat (tip + 1) = n" using tip len u32_succ [of tip] by simp
  ultimately show "clamp_start start tip = start" and "start \<le> tip + 1"
    and "u32_range start tip = map word_of_nat [k ..< n]"
    using assms(2) tip by (auto simp: clamp_start_def word_less_nat_alt word_le_nat_alt u32_range_def
        simp del: upt_Suc)
qed

section \<open>The engine over any conforming backends\<close>

locale scan_env =
  utxo_store U us_ledger us_inv + block_store B bs_blocks bs_tip bs_inv +
  stable_chain_source C "lib_block_hash E" cs_chain
  for U :: "'u utxo_store_ops" and us_ledger and us_inv
    and B :: "'b block_store_ops" and bs_blocks and bs_tip and bs_inv
    and C :: "'c chain_source_ops" and E :: elements_lib and cs_chain
begin

text \<open>The reads, as actions on the world: they leave the stores and the node's chain alone.\<close>

lemma node_tip:
  assumes "on_chain (cs_tip_height C) w = (Inr t, w')"
  shows "cs_chain (w_chain w') = cs_chain (w_chain w) \<and> w_blocks w' = w_blocks w
    \<and> w_utxos w' = w_utxos w \<and> Suc (unat t) = length (cs_chain (w_chain w))"
  using assms tip_height by (auto elim!: on_chainE)

lemma node_hash:
  assumes "on_chain (cs_block_hash C h) w = (Inr x, w')"
  shows "cs_chain (w_chain w') = cs_chain (w_chain w) \<and> w_blocks w' = w_blocks w
    \<and> w_utxos w' = w_utxos w \<and> unat h < length (cs_chain (w_chain w))
    \<and> x = lib_block_hash E (cs_chain (w_chain w) ! unat h)"
  using assms block_hash by (auto elim!: on_chainE)

lemma node_block:
  assumes "on_chain (cs_block C x) w = (Inr b, w')"
  shows "cs_chain (w_chain w') = cs_chain (w_chain w) \<and> w_blocks w' = w_blocks w
    \<and> w_utxos w' = w_utxos w \<and> b \<in> set (cs_chain (w_chain w)) \<and> lib_block_hash E b = x"
  using assms block_by_hash by (auto elim!: on_chainE)

lemma store_cursor:
  assumes "on_blocks (bs_synced_tip B) w = (Inr t, w')" and "bs_inv (w_blocks w)"
  shows "w' = w \<and> t = bs_tip (w_blocks w)"
  using assms synced_tip by (auto elim!: on_blocksE)

lemma store_hash:
  assumes "on_blocks (bs_block_hash_at B h) w = (Inr x, w')" and "bs_inv (w_blocks w)"
  shows "w' = w \<and> x = map_option fst (bs_blocks (w_blocks w) h)"
  using assms block_hash_at by (auto elim!: on_blocksE)

lemma flush_captured_ok:
  assumes "flush_captured U acc w = (Inr acc', w')" and "us_inv (w_utxos w)"
  shows "us_inv (w_utxos w') \<and> us_ledger (w_utxos w') = put_all (sa_captured acc) (us_ledger (w_utxos w))
    \<and> w_chain w' = w_chain w \<and> w_blocks w' = w_blocks w
    \<and> (\<exists>s. acc' = acc\<lparr>sa_summary := s\<rparr> \<and> s = (sa_summary acc)\<lparr>ss_utxos_captured :=
        ss_utxos_captured (sa_summary acc) + length (sa_captured acc)\<rparr>)"
proof (cases "sa_captured acc = []")
  case True
  then show ?thesis using assms by (auto simp: flush_captured_def intro: exI [of _ "sa_summary acc"])
next
  case False
  with assms(1) show ?thesis
    using upsert [OF assms(2)]
    by (fastforce simp: flush_captured_def Let_def elim!: bindS_InrE on_utxosE)
qed

lemma flush_spent_ok:
  assumes "flush_spent U h acc w = (Inr acc', w')" and "us_inv (w_utxos w)"
  shows "us_inv (w_utxos w') \<and> us_ledger (w_utxos w') = spend_all (sa_spent acc) h (us_ledger (w_utxos w))
    \<and> w_chain w' = w_chain w \<and> w_blocks w' = w_blocks w
    \<and> (\<exists>s. acc' = acc\<lparr>sa_summary := s\<rparr> \<and> s = (sa_summary acc)\<lparr>ss_utxos_spent :=
        ss_utxos_spent (sa_summary acc) + length (sa_spent acc)\<rparr>)"
proof (cases "sa_spent acc = []")
  case True
  then show ?thesis using assms by (auto simp: flush_spent_def intro: exI [of _ "sa_summary acc"])
next
  case False
  with assms(1) show ?thesis
    using mark_spent [OF assms(2)]
    by (fastforce simp: flush_spent_def Let_def elim!: bindS_InrE on_utxosE)
qed

text \<open>The three calls at the start of a block fetch the block of the chain and store it.\<close>

lemma fetch_ok:
  assumes n: "n < length chain" "n < 2 ^ 32" and inj: "inj_on (lib_block_hash E) (set chain)"
    and inv: "bs_inv (w_blocks w)" and chain: "cs_chain (w_chain w) = chain"
    and c1: "on_chain (cs_block_hash C (word_of_nat n)) w = (Inr x, w1)"
    and c2: "on_chain (cs_block C x) w1 = (Inr blk, w2)"
    and c3: "on_blocks (bs_store_block B (word_of_nat n) x (lib_serialize_block E blk)) w2 = (Inr (), w3)"
  shows "blk = chain ! n \<and> cs_chain (w_chain w3) = chain \<and> w_utxos w3 = w_utxos w
    \<and> bs_inv (w_blocks w3) \<and> bs_tip (w_blocks w3) = bs_tip (w_blocks w)
    \<and> bs_blocks (w_blocks w3) = (bs_blocks (w_blocks w))(word_of_nat n \<mapsto>
        (lib_block_hash E (chain ! n), lib_serialize_block E (chain ! n)))"
proof -
  have h: "unat (word_of_nat n :: u32) = n" using n(2) by (rule unat_word_of_nat_u32)
  from chain h have x: "x = lib_block_hash E (chain ! n)" "cs_chain (w_chain w1) = chain"
      "w_blocks w1 = w_blocks w" "w_utxos w1 = w_utxos w"
    using node_hash [OF c1] by auto
  from x have "blk \<in> set chain" "lib_block_hash E blk = lib_block_hash E (chain ! n)"
    and w2: "cs_chain (w_chain w2) = chain" "w_blocks w2 = w_blocks w" "w_utxos w2 = w_utxos w"
    using node_block [OF c2] by auto
  then have blk: "blk = chain ! n" using nth_by_hash [OF inj n(1)] by blast
  from c3 inv w2 show ?thesis
    by (auto simp: x blk elim!: on_blocksE dest: store_block)
qed

text \<open>The two writes at the end of a block bring the store to the ledger the events lead to.\<close>

lemma flush_ok:
  assumes rel: "acc_rel (us_ledger (w_utxos w)) h acc m" and inv: "us_inv (w_utxos w)"
    and c5: "flush_captured U acc w = (Inr acc2, w2)" and c6: "flush_spent U h acc2 w2 = (Inr acc3, w3)"
  shows "us_inv (w_utxos w3) \<and> us_ledger (w_utxos w3) = m \<and> w_chain w3 = w_chain w
    \<and> w_blocks w3 = w_blocks w \<and> sa_spend_index acc3 = sa_spend_index acc
    \<and> ss_blocks_scanned (sa_summary acc3) = ss_blocks_scanned (sa_summary acc)
    \<and> ss_utxos_captured (sa_summary acc3) = ss_utxos_captured (sa_summary acc) + length (sa_captured acc)
    \<and> ss_utxos_spent (sa_summary acc3) = ss_utxos_spent (sa_summary acc) + length (sa_spent acc)
    \<and> ss_reorg_to (sa_summary acc3) = ss_reorg_to (sa_summary acc)"
proof -
  from flush_captured_ok [OF c5 inv] have
    inv2: "us_inv (w_utxos w2)" and
    w2: "us_ledger (w_utxos w2) = put_all (sa_captured acc) (us_ledger (w_utxos w))"
      "w_chain w2 = w_chain w" "w_blocks w2 = w_blocks w"
    and a2: "acc2 = acc\<lparr>sa_summary := (sa_summary acc)\<lparr>ss_utxos_captured :=
        ss_utxos_captured (sa_summary acc) + length (sa_captured acc)\<rparr>\<rparr>" by auto
  from flush_spent_ok [OF c6 inv2] have
    w3: "us_inv (w_utxos w3)" "us_ledger (w_utxos w3) = spend_all (sa_spent acc) h (us_ledger (w_utxos w2))"
      "w_chain w3 = w_chain w2" "w_blocks w3 = w_blocks w2"
    and a3: "acc3 = acc2\<lparr>sa_summary := (sa_summary acc2)\<lparr>ss_utxos_spent :=
        ss_utxos_spent (sa_summary acc2) + length (sa_spent acc2)\<rparr>\<rparr>" using a2 by auto
  have "us_ledger (w_utxos w3) = m"
    unfolding w3(2) w2(1) by (rule acc_relD(1) [OF rel, symmetric])
  then show ?thesis using w2 w3 by (simp add: a3 a2)
qed

text \<open>Whatever the stores hold, a block that is scanned leaves the contracts' invariants in place.\<close>

lemma scan_block_keeps:
  assumes n: "n < length chain" "n < 2 ^ 32" and inj: "inj_on (lib_block_hash E) (set chain)"
    and inv: "us_inv (w_utxos w)" "bs_inv (w_blocks w)" and chain: "cs_chain (w_chain w) = chain"
    and call: "scan_block C B U E L eng (word_of_nat n) acc w = (Inr acc', w')"
  shows "us_inv (w_utxos w') \<and> bs_inv (w_blocks w') \<and> cs_chain (w_chain w') = chain"
proof -
  let ?h = "word_of_nat n :: u32"
  from call obtain x w1 blk w2 w3 acc1 acc2 w4 acc3 where
    c: "on_chain (cs_block_hash C ?h) w = (Inr x, w1)" "on_chain (cs_block C x) w1 = (Inr blk, w2)"
      "on_blocks (bs_store_block B ?h x (lib_serialize_block E blk)) w2 = (Inr (), w3)"
    and c5: "flush_captured U acc1 w3 = (Inr acc2, w4)" and c6: "flush_spent U ?h acc2 w4 = (Inr acc3, w')"
    by (auto simp: scan_block_def elim!: bindS_InrE)
  note w3 = fetch_ok [OF n inj inv(2) chain c]
  have inv3: "us_inv (w_utxos w3)" using w3 inv by simp
  have w4: "us_inv (w_utxos w4)" "w_blocks w4 = w_blocks w3" "w_chain w4 = w_chain w3"
    using flush_captured_ok [OF c5 inv3] by blast+
  have "us_inv (w_utxos w')" "w_blocks w' = w_blocks w4" "w_chain w' = w_chain w4"
    using flush_spent_ok [OF c6 w4(1)] by blast+
  then show ?thesis using w3 w4 by simp
qed

text \<open>One block: the loop invariant moves on by one height.\<close>

lemma scan_block_ok:
  assumes eng: "engine_wf eng" and wf: "wf_chain E chain" and n: "n < length chain"
    and inj: "inj_on (lib_block_hash E) (set chain)"
    and inv: "us_inv (w_utxos w)" "bs_inv (w_blocks w)" and chain: "cs_chain (w_chain w) = chain"
    and at: "scanned_to E L eng chain n (bs_blocks (w_blocks w)) (us_ledger (w_utxos w)) acc"
    and call: "scan_block C B U E L eng (word_of_nat n) acc w = (Inr acc', w')"
  shows "us_inv (w_utxos w') \<and> bs_inv (w_blocks w') \<and> cs_chain (w_chain w') = chain
    \<and> bs_tip (w_blocks w') = bs_tip (w_blocks w)
    \<and> scanned_to E L eng chain (Suc n) (bs_blocks (w_blocks w')) (us_ledger (w_utxos w')) acc'
    \<and> ss_blocks_scanned (sa_summary acc') = ss_blocks_scanned (sa_summary acc) + 1
    \<and> ss_utxos_captured (sa_summary acc') = ss_utxos_captured (sa_summary acc)
        + length (ev_creates (txs_events E L eng (word_of_nat n) (blk_txdata (chain ! n))))
    \<and> ss_reorg_to (sa_summary acc') = ss_reorg_to (sa_summary acc)"
proof -
  let ?h = "word_of_nat n :: u32"
  let ?led = "us_ledger (w_utxos w)" and ?led' = "wallet_ledger E L eng (take (Suc n) chain)"
  let ?acc0 = "acc\<lparr>sa_captured := [], sa_spent := []\<rparr>"
  have n32: "n < 2 ^ 32" "length chain < 2 ^ 32" using n wf by (auto simp: wf_chain_def)
  from call obtain x w1 blk w2 w3 acc1 acc2 w4 acc3 where
    c: "on_chain (cs_block_hash C ?h) w = (Inr x, w1)"
      "on_chain (cs_block C x) w1 = (Inr blk, w2)"
      "on_blocks (bs_store_block B ?h x (lib_serialize_block E blk)) w2 = (Inr (), w3)"
    and c4: "scan_txs E L eng ?h (blk_txdata blk) ?acc0 = Inr acc1"
    and c5: "flush_captured U acc1 w3 = (Inr acc2, w4)"
    and c6: "flush_spent U ?h acc2 w4 = (Inr acc3, w')" and out: "acc' = bump_blocks acc3"
    by (auto simp: scan_block_def elim!: bindS_InrE)
  note w3 = fetch_ok [OF n n32(1) inj inv(2) chain c]
  then have c4: "scan_txs E L eng ?h (blk_txdata (chain ! n)) ?acc0 = Inr acc1"
    and inv3: "us_inv (w_utxos w3)" and led3: "us_ledger (w_utxos w3) = ?led" using c4 inv by auto
  note next_block = next_block_fresh [OF wf n]
  have rel0: "acc_rel ?led ?h ?acc0 ?led" using at by (simp add: acc_rel_def scanned_to_def)
  have led: "?led = wallet_ledger E L eng (take n chain)" using at by (simp add: scanned_to_def)
  have play: "play (txs_events E L eng ?h (blk_txdata (chain ! n))) ?led = ?led'"
    using n wallet_ledger_snoc [of E L eng "take n chain" "chain ! n"]
    by (simp add: led take_Suc_conv_app_nth min_def)
  from scan_txs_rel [OF eng rel0 next_block(1) next_block(2) [of L eng, folded led], of L] c4
  have rel: "acc_rel ?led ?h acc1 ?led'" unfolding play by auto
  note frame = scan_txs_frame [OF eng next_block(1) c4]
  note w' = flush_ok [OF rel [folded led3] inv3 c5 c6]
  have "blocks_match E (bs_blocks (w_blocks w')) (take (Suc n) chain)"
    using at w3 w' blocks_match_step [OF _ n n32(2)] by (simp add: scanned_to_def)
  moreover have "dom (map_of (sa_spend_index acc')) = {op. is_unspent ?led' op}"
    using rel w' by (simp add: out bump_blocks_def acc_rel_def)
  ultimately have "scanned_to E L eng chain (Suc n) (bs_blocks (w_blocks w')) (us_ledger (w_utxos w')) acc'"
    using w' by (simp add: scanned_to_def)
  then show ?thesis
    using frame summary_sameD [of "sa_summary acc1" "sa_summary acc"] w3 w'
    by (simp add: out bump_blocks_def)
qed

text \<open>All blocks from height \<open>n\<close> on.\<close>

lemma scan_blocks_ok:
  assumes eng: "engine_wf eng" and wf: "wf_chain E chain"
    and inj: "inj_on (lib_block_hash E) (set chain)"
    and "n \<le> length chain"
    and "us_inv (w_utxos w)" and "bs_inv (w_blocks w)" and "cs_chain (w_chain w) = chain"
    and "scanned_to E L eng chain n (bs_blocks (w_blocks w)) (us_ledger (w_utxos w)) acc"
    and "scan_blocks C B U E L eng (map word_of_nat [n ..< length chain]) acc w = (Inr acc', w')"
  shows "us_inv (w_utxos w') \<and> bs_inv (w_blocks w') \<and> cs_chain (w_chain w') = chain
    \<and> bs_tip (w_blocks w') = bs_tip (w_blocks w)
    \<and> scanned_to E L eng chain (length chain) (bs_blocks (w_blocks w')) (us_ledger (w_utxos w')) acc'
    \<and> ss_blocks_scanned (sa_summary acc') =
        ss_blocks_scanned (sa_summary acc) + word_of_nat (length chain - n)
    \<and> ss_utxos_captured (sa_summary acc') =
        ss_utxos_captured (sa_summary acc) + length (captures_from E L eng chain n)
    \<and> ss_reorg_to (sa_summary acc') = ss_reorg_to (sa_summary acc)"
  using assms(4-)
proof (induction "length chain - n" arbitrary: n acc w)
  case 0
  then show ?case by (simp add: captures_from_def)
next
  case (Suc d)
  then have n: "n < length chain" and up: "[n ..< length chain] = n # [Suc n ..< length chain]"
    by (simp_all add: upt_conv_Cons)
  from Suc.prems(6) obtain acc1 w1 where
    c1: "scan_block C B U E L eng (word_of_nat n) acc w = (Inr acc1, w1)"
    and c2: "scan_blocks C B U E L eng (map word_of_nat [Suc n ..< length chain]) acc1 w1 = (Inr acc', w')"
    by (auto simp: up elim!: bindS_InrE)
  note step = scan_block_ok [OF eng wf n inj Suc.prems(2-5) c1]
  have "d = length chain - Suc n" "Suc n \<le> length chain" using Suc.hyps(2) n by auto
  note IH = Suc.hyps(1) [OF this, of w1 acc1]
  have "captures_from E L eng chain n =
      ev_creates (txs_events E L eng (word_of_nat n) (blk_txdata (chain ! n)))
      @ captures_from E L eng chain (Suc n)"
    using n by (simp add: captures_from_def flip: Cons_nth_drop_Suc)
  moreover have "(1 :: u32) + word_of_nat (length chain - Suc n) = word_of_nat (length chain - n)"
    using n by (subst (2) Suc_diff_Suc [symmetric]) (simp_all only: of_nat_Suc)
  ultimately show ?case using step IH c2 by (simp add: add.assoc)
qed

text \<open>
  The walk back stops at the greatest height, from the given one down, where the stored hash is
  the node's, or at height 0.
\<close>

lemma find_common_ancestor_ok:
  assumes "bs_inv (w_blocks w)" and "blocks_match E (bs_blocks (w_blocks w)) old"
    and "unat h < length old" and "cs_chain (w_chain w) = new"
    and "find_common_ancestor C B h w = (Inr a, w')"
  shows "w_blocks w' = w_blocks w \<and> w_utxos w' = w_utxos w \<and> cs_chain (w_chain w') = new
    \<and> a \<le> h \<and> unat h < length new
    \<and> (a = 0 \<or> lib_block_hash E (old ! unat a) = lib_block_hash E (new ! unat a))
    \<and> (\<forall>i. unat a < i \<and> i \<le> unat h \<longrightarrow> lib_block_hash E (old ! i) \<noteq> lib_block_hash E (new ! i))"
  using assms
proof (induction "unat h" arbitrary: h w rule: less_induct)
  case less
  from less.prems(5) obtain at_h w1 same w2 where
    c1: "on_blocks (bs_block_hash_at B h) w = (Inr at_h, w1)" and
    c2: "(case at_h of Some stored \<Rightarrow> bindS (on_chain (cs_block_hash C h)) (\<lambda>x. ret (stored = x))
          | None \<Rightarrow> ret False) w1 = (Inr same, w2)" and
    c3: "(if same then ret h else if h = 0 then ret 0 else find_common_ancestor C B (h - 1)) w2 = (Inr a, w')"
    by (subst (asm) find_common_ancestor.simps) (auto elim!: bindS_InrE)
  have "map_option fst (bs_blocks (w_blocks w) h) = Some (lib_block_hash E (old ! unat h))"
    using less.prems(2,3) by (auto simp: blocks_match_def dest!: spec [of _ "unat h"])
  then have w1: "w1 = w" "at_h = Some (lib_block_hash E (old ! unat h))"
    using store_hash [OF c1 less.prems(1)] by auto
  from c2 w1 obtain x where x: "on_chain (cs_block_hash C h) w = (Inr x, w2)"
    and "same \<longleftrightarrow> lib_block_hash E (old ! unat h) = x" by (auto elim!: bindS_InrE)
  with node_hash [OF x] less.prems(4) have w2: "w_blocks w2 = w_blocks w" "w_utxos w2 = w_utxos w"
      "cs_chain (w_chain w2) = new" "unat h < length new"
    and same: "same \<longleftrightarrow> lib_block_hash E (old ! unat h) = lib_block_hash E (new ! unat h)"
    by auto
  consider "same" | "\<not> same" "h = 0" | "\<not> same" "h \<noteq> 0" by blast
  then show ?case
  proof cases
    case 3
    then have h: "unat (h - 1) = unat h - 1" "unat h \<noteq> 0" by (simp_all add: unat_minus_one unat_eq_zero)
    then have "unat (h - 1) < unat h" "unat (h - 1) < length old" using less.prems(3) by auto
    from less.hyps [OF this(1) _ _ this(2) w2(3)] c3 less.prems(1,2) w2 3
    have IH: "w_blocks w' = w_blocks w2" "w_utxos w' = w_utxos w2" "cs_chain (w_chain w') = new"
        "a \<le> h - 1" "a = 0 \<or> lib_block_hash E (old ! unat a) = lib_block_hash E (new ! unat a)"
      and low: "\<forall>i. unat a < i \<and> i \<le> unat h - 1 \<longrightarrow>
        lib_block_hash E (old ! i) \<noteq> lib_block_hash E (new ! i)"
      using h by auto
    have "lib_block_hash E (old ! i) \<noteq> lib_block_hash E (new ! i)"
      if "unat a < i" "i \<le> unat h" for i
      using low same 3 that h(2) by (cases "i = unat h") auto
    moreover have "a \<le> h" using IH(4) h by (simp add: word_le_nat_alt)
    ultimately show ?thesis using IH w2 by auto
  qed (use c3 w2 same in auto)
qed

text \<open>Whatever it finds, the walk writes nothing.\<close>

lemma find_common_ancestor_stores:
  assumes "find_common_ancestor C B h w = (Inr a, w')" and "bs_inv (w_blocks w)"
  shows "w_blocks w' = w_blocks w \<and> w_utxos w' = w_utxos w"
  using assms
proof (induction "unat h" arbitrary: h w rule: less_induct)
  case less
  from less.prems(1) obtain at_h w1 same w2 where
    c1: "on_blocks (bs_block_hash_at B h) w = (Inr at_h, w1)" and
    c2: "(case at_h of Some stored \<Rightarrow> bindS (on_chain (cs_block_hash C h)) (\<lambda>x. ret (stored = x))
          | None \<Rightarrow> ret False) w1 = (Inr same, w2)" and
    c3: "(if same then ret h else if h = 0 then ret 0 else find_common_ancestor C B (h - 1)) w2 = (Inr a, w')"
    by (subst (asm) find_common_ancestor.simps) (auto elim!: bindS_InrE)
  have "w1 = w" using store_hash [OF c1 less.prems(2)] by simp
  with c2 have w2: "w_blocks w2 = w_blocks w" "w_utxos w2 = w_utxos w"
    by (auto elim!: bindS_InrE dest: node_hash split: option.splits)
  have "unat (h - 1) < unat h" if "h \<noteq> 0" using that by (simp add: measure_unat)
  with less.hyps c3 less.prems(2) w2 show ?case by (auto split: if_splits)
qed

text \<open>The branch taken on a reorg: walk back, roll both stores back.\<close>

lemma reorg_ok:
  assumes inv: "us_inv (w_utxos w)" "bs_inv (w_blocks w)"
    and wf: "wf_chain E old" and bm: "blocks_match E (bs_blocks (w_blocks w)) old"
    and led: "us_ledger (w_utxos w) = wallet_ledger E L eng old"
    and chain: "cs_chain (w_chain w) = new" and link: "linked E old new"
    and m: "unat h = m" "Suc m = length old" "m < length new"
    and differ: "lib_block_hash E (old ! m) \<noteq> lib_block_hash E (new ! m)"
    and c1: "find_common_ancestor C B h w = (Inr a, w1)"
    and c2: "on_blocks (bs_rollback_above B a) w1 = (Inr (), w2)"
    and c3: "on_utxos (us_rollback_above U a) w2 = (Inr (), w')"
  shows "fork_at E old new (Suc (unat a)) \<and> Suc (unat a) < length old
    \<and> us_inv (w_utxos w') \<and> bs_inv (w_blocks w') \<and> cs_chain (w_chain w') = new
    \<and> blocks_match E (bs_blocks (w_blocks w')) (take (Suc (unat a)) new)
    \<and> us_ledger (w_utxos w') = wallet_ledger E L eng (take (Suc (unat a)) new)"
proof -
  let ?k = "Suc (unat a)"
  have "unat h < length old" using m by simp
  note walk = find_common_ancestor_ok [OF inv(2) bm this chain c1, unfolded m(1)]
  then have w1: "w_blocks w1 = w_blocks w" "w_utxos w1 = w_utxos w" "cs_chain (w_chain w1) = new"
      "unat a \<le> m"
    and hash: "a = 0 \<or> lib_block_hash E (old ! unat a) = lib_block_hash E (new ! unat a)"
    and above: "\<forall>i. unat a < i \<and> i \<le> m \<longrightarrow> lib_block_hash E (old ! i) \<noteq> lib_block_hash E (new ! i)"
    using m by (auto simp: word_le_nat_alt)
  have "a = 0 \<Longrightarrow> old ! 0 = new ! 0" using link m by (auto simp: linked_def)
  with hash have hash_a: "lib_block_hash E (old ! unat a) = lib_block_hash E (new ! unat a)" by auto
  with link w1 m have pre: "take ?k old = take ?k new" by (simp add: linked_def)
  have "unat a \<noteq> m" using hash_a differ by auto
  with w1(4) m have k: "?k < length old" "?k \<le> length new" by auto
  have "fork_at E old new ?k" using k pre above m by (auto simp: fork_at_def)
  moreover have "bs_inv (w_blocks w2) \<and> w_utxos w2 = w_utxos w \<and> cs_chain (w_chain w2) = new
      \<and> bs_blocks (w_blocks w2) = (\<lambda>h. if h \<le> a then bs_blocks (w_blocks w) h else None)"
    using c2 w1 bs_rollback inv by (auto elim!: on_blocksE)
  moreover have "us_inv (w_utxos w') \<and> us_ledger (w_utxos w') = roll_back a (us_ledger (w_utxos w2))
      \<and> w_blocks w' = w_blocks w2 \<and> w_chain w' = w_chain w2"
    using c3 us_rollback inv calculation by (auto elim!: on_utxosE)
  moreover have "roll_back a (wallet_ledger E L eng old) = wallet_ledger E L eng (take ?k new)"
    unfolding roll_back_wallet_ledger [OF wf] pre ..
  moreover have "blocks_match E (\<lambda>h. if h \<le> a then bs_blocks (w_blocks w) h else None) (take ?k new)"
    using bm wf k unfolding pre [symmetric]
    by (auto simp: blocks_match_def word_le_nat_alt unat_word_of_nat_u32 wf_chain_def)
  ultimately show ?thesis using led k by simp
qed

text \<open>A cursor whose hash the node confirms: the stores' chain is a prefix of the node's.\<close>

lemma confirmed_cursor:
  assumes wf: "wf_chain E old" and link: "linked E old new" and t: "tip_of E old = Some t"
    and new: "length old - 1 < length new" and same: "lib_block_hash E (new ! (length old - 1)) = st_hash t"
  shows "take (length old) new = old" and "length old \<le> length new" and "st_height t + 1 = word_of_nat (length old)"
proof -
  note t = tip_of_Some [OF t]
  have m: "length old - 1 < length old" "Suc (length old - 1) = length old" using t by auto
  have "lib_block_hash E (old ! (length old - 1)) = lib_block_hash E (new ! (length old - 1))" using same t by simp
  with link new m show "take (length old) new = old" "length old \<le> length new"
    by (auto simp: linked_def dest!: spec [of _ "length old - 1"])
  have "word_of_nat (Suc (length old - 1)) = st_height t + 1" unfolding of_nat_Suc t(2) by (rule add.commute)
  then show "st_height t + 1 = word_of_nat (length old)" unfolding m(2) by simp
qed

text \<open>The start of a pass: the stores end up at the fork with the node's chain.\<close>

lemma determine_start_ok:
  assumes inv: "us_inv (w_utxos w)" "bs_inv (w_blocks w)"
    and at: "synced E L eng old (bs_blocks (w_blocks w)) (bs_tip (w_blocks w)) (us_ledger (w_utxos w))"
    and chain: "cs_chain (w_chain w) = new" and link: "linked E old new"
    and call: "determine_start C B U w = (Inr (start, reorg), w')"
  shows "\<exists>k. fork_at E old new k \<and> start = word_of_nat k
    \<and> reorg = (if k = length old then None else Some (word_of_nat (k - 1)))
    \<and> us_inv (w_utxos w') \<and> bs_inv (w_blocks w') \<and> cs_chain (w_chain w') = new
    \<and> blocks_match E (bs_blocks (w_blocks w')) (take k new)
    \<and> us_ledger (w_utxos w') = wallet_ledger E L eng (take k new)"
proof -
  have wf: "wf_chain E old" and bm: "blocks_match E (bs_blocks (w_blocks w)) old"
    and tip: "bs_tip (w_blocks w) = tip_of E old"
    and led: "us_ledger (w_utxos w) = wallet_ledger E L eng old"
    using at by (auto simp: synced_def)
  from call tip store_cursor [OF _ inv(2)] have
    rest: "(case tip_of E old of None \<Rightarrow> ret (0, None) | Some t \<Rightarrow>
         bindS (on_chain (cs_block_hash C (st_height t))) (\<lambda>x.
         if x = st_hash t then ret (st_height t + 1, None)
         else
           bindS (find_common_ancestor C B (st_height t)) (\<lambda>ancestor.
           bindS (on_blocks (bs_rollback_above B ancestor)) (\<lambda>_.
           bindS (on_utxos (us_rollback_above U ancestor)) (\<lambda>_.
           ret (ancestor + 1, Some ancestor)))))) w = (Inr (start, reorg), w')"
    by (auto simp: determine_start_def elim!: bindS_InrE)
  show ?thesis
  proof (cases "tip_of E old")
    case None
    with rest show ?thesis using inv chain led
      by (intro exI [of _ 0]) (auto simp: tip_of_def fork_at_def blocks_match_def split: if_splits)
  next
    case (Some t)
    note t = tip_of_Some [OF Some]
    let ?m = "length old - 1"
    have m: "unat (st_height t) = ?m" "?m < length old" "Suc ?m = length old"
      using t wf by (auto simp: wf_chain_def unat_word_of_nat_u32)
    from rest Some obtain x w1 where c1: "on_chain (cs_block_hash C (st_height t)) w = (Inr x, w1)"
      and c2: "(if x = st_hash t then ret (st_height t + 1, None)
         else
           bindS (find_common_ancestor C B (st_height t)) (\<lambda>ancestor.
           bindS (on_blocks (bs_rollback_above B ancestor)) (\<lambda>_.
           bindS (on_utxos (us_rollback_above U ancestor)) (\<lambda>_.
           ret (ancestor + 1, Some ancestor))))) w1 = (Inr (start, reorg), w')"
      by (auto elim!: bindS_InrE)
    note w1 = node_hash [OF c1, unfolded m chain]
    show ?thesis
    proof (cases "x = st_hash t")
      case True
      with w1 have "?m < length new" "lib_block_hash E (new ! ?m) = st_hash t" by simp_all
      note conf = confirmed_cursor [OF wf link Some this]
      show ?thesis using c2 True inv w1 bm led conf t
        by (intro exI [of _ "length old"]) (auto simp: fork_at_def)
    next
      case False
      with c2 obtain a w2 w3 where c3: "find_common_ancestor C B (st_height t) w1 = (Inr a, w2)"
        and c4: "on_blocks (bs_rollback_above B a) w2 = (Inr (), w3)"
        and c5: "on_utxos (us_rollback_above U a) w3 = (Inr (), w')"
        and out: "start = a + 1" "reorg = Some a"
        by (auto elim!: bindS_InrE)
      have differ: "lib_block_hash E (old ! ?m) \<noteq> lib_block_hash E (new ! ?m)"
        using False w1 t by simp
      have "us_inv (w_utxos w1)" "bs_inv (w_blocks w1)" "blocks_match E (bs_blocks (w_blocks w1)) old"
          "us_ledger (w_utxos w1) = wallet_ledger E L eng old" "cs_chain (w_chain w1) = new" "?m < length new"
        using inv bm led w1 by auto
      note rolled = reorg_ok [OF this(1,2) wf this(3,4,5) link m(1,3) this(6) differ c3 c4 c5]
      then show ?thesis using out
        by (intro exI [of _ "Suc (unat a)"]) (auto simp: add.commute)
    qed
  qed
qed

text \<open>The last write of a pass: the cursor names the node's tip.\<close>

lemma advance_cursor_ok:
  assumes "advance_cursor C B start tip w = (Inr (), w')"
    and "us_inv (w_utxos w)" and "bs_inv (w_blocks w)" and "cs_chain (w_chain w) = new"
    and "Suc (unat tip) = length new" and "start \<le> tip + 1"
  shows "us_inv (w_utxos w') \<and> bs_inv (w_blocks w') \<and> cs_chain (w_chain w') = new
    \<and> w_utxos w' = w_utxos w \<and> bs_blocks (w_blocks w') = bs_blocks (w_blocks w)
    \<and> bs_tip (w_blocks w') = Some \<lparr>st_height = tip, st_hash = lib_block_hash E (new ! unat tip)\<rparr>"
proof -
  from assms(1,6) obtain x w1 where c1: "on_chain (cs_block_hash C tip) w = (Inr x, w1)"
    and c2: "on_blocks (bs_set_synced_tip B \<lparr>st_height = tip, st_hash = x\<rparr>) w1 = (Inr (), w')"
    by (auto simp: advance_cursor_def elim!: bindS_InrE)
  from node_hash [OF c1] c2 assms show ?thesis
    by (auto elim!: on_blocksE dest: set_synced_tip)
qed

text \<open>
  A pass that returns \<open>Ok\<close> leaves the stores synced with the node's chain, having scanned the
  blocks above the fork and no other.
\<close>

lemma sync_ok:
  assumes eng: "engine_wf eng" and inv: "us_inv (w_utxos w)" "bs_inv (w_blocks w)"
    and at: "synced E L eng old (bs_blocks (w_blocks w)) (bs_tip (w_blocks w)) (us_ledger (w_utxos w))"
    and chain: "cs_chain (w_chain w) = new" and wf: "wf_chain E new"
    and inj: "inj_on (lib_block_hash E) (set new)" and link: "linked E old new"
    and call: "sync C B U E L eng w = (Inr summary, w')"
  shows "us_inv (w_utxos w') \<and> bs_inv (w_blocks w') \<and> cs_chain (w_chain w') = new
    \<and> synced E L eng new (bs_blocks (w_blocks w')) (bs_tip (w_blocks w')) (us_ledger (w_utxos w'))
    \<and> (\<exists>k. fork_at E old new k
        \<and> ss_reorg_to summary = (if k = length old then None else Some (word_of_nat (k - 1)))
        \<and> unat (ss_blocks_scanned summary) = length new - k
        \<and> ss_utxos_captured summary = length (captures_from E L eng new k))"
proof -
  from call obtain tip w1 start reorg w2 pairs w3 acc w4 where
    c1: "on_chain (cs_tip_height C) w = (Inr tip, w1)"
    and c2: "determine_start C B U w1 = (Inr (start, reorg), w2)"
    and c3: "on_utxos (us_unspent_outpoints U) w2 = (Inr pairs, w3)"
    and c4: "scan_blocks C B U E L eng (u32_range (clamp_start start tip) tip)
      \<lparr>sa_spend_index = fold (\<lambda>(op, wid). AList.update op wid) pairs [],
       sa_summary = default_summary\<lparr>ss_reorg_to := reorg\<rparr>, sa_captured = [], sa_spent = []\<rparr> w3
      = (Inr acc, w4)"
    and c5: "advance_cursor C B (clamp_start start tip) tip w4 = (Inr (), w')"
    and out: "summary = sa_summary acc"
    by (auto simp: sync_def Let_def elim!: bindS_InrE)
  note w1 = node_tip [OF c1, unfolded chain]
  then have tip: "unat tip = length new - 1" "Suc (unat tip) = length new" by auto
  have len: "length new < 2 ^ 32" using wf by (simp add: wf_chain_def)
  have "us_inv (w_utxos w1)" "bs_inv (w_blocks w1)" "cs_chain (w_chain w1) = new"
      "synced E L eng old (bs_blocks (w_blocks w1)) (bs_tip (w_blocks w1)) (us_ledger (w_utxos w1))"
    using inv at w1 by auto
  from determine_start_ok [OF this(1,2,4,3) link c2] obtain k where
    k: "fork_at E old new k" "start = word_of_nat k"
      "reorg = (if k = length old then None else Some (word_of_nat (k - 1)))"
    and inv2: "us_inv (w_utxos w2)" "bs_inv (w_blocks w2)" "cs_chain (w_chain w2) = new"
    and bm2: "blocks_match E (bs_blocks (w_blocks w2)) (take k new)"
    and led2: "us_ledger (w_utxos w2) = wallet_ledger E L eng (take k new)" by auto
  have kn: "k \<le> length new" using k(1) by (simp add: fork_at_def)
  note pass = start_range [OF k(2) kn len tip(2)]
  have w3: "w_utxos w3 = w_utxos w2" "w_blocks w3 = w_blocks w2" "w_chain w3 = w_chain w2"
    and pairs: "fst ` set pairs = {op. is_unspent (us_ledger (w_utxos w2)) op}"
    using c3 unspent_outpoints [OF inv2(1)] by (auto elim!: on_utxosE)
  let ?acc = "\<lparr>sa_spend_index = fold (\<lambda>(op, wid). AList.update op wid) pairs [],
       sa_summary = default_summary\<lparr>ss_reorg_to := reorg\<rparr>, sa_captured = [], sa_spent = []\<rparr>"
  have "scanned_to E L eng new k (bs_blocks (w_blocks w3)) (us_ledger (w_utxos w3)) ?acc"
    using bm2 led2 pairs by (simp add: scanned_to_def dom_spend_index w3)
  with c4 inv2 have w4: "us_inv (w_utxos w4)" "bs_inv (w_blocks w4)" "cs_chain (w_chain w4) = new"
    "scanned_to E L eng new (length new) (bs_blocks (w_blocks w4)) (us_ledger (w_utxos w4)) acc"
    "ss_blocks_scanned summary = word_of_nat (length new - k)"
    "ss_utxos_captured summary = length (captures_from E L eng new k)"
    "ss_reorg_to summary = reorg"
    using scan_blocks_ok [OF eng wf inj kn, of w3 L ?acc acc w4]
    unfolding pass by (auto simp: w3 out default_summary_def)
  note cursor = advance_cursor_ok [OF c5 w4(1,2,3) tip(2), unfolded pass(1), OF pass(2)]
  have "synced E L eng new (bs_blocks (w_blocks w')) (bs_tip (w_blocks w')) (us_ledger (w_utxos w'))"
    using cursor w4(4) wf tip_of_last [OF tip(2), of E] by (simp add: synced_def scanned_to_def)
  moreover have "unat (ss_blocks_scanned summary) = length new - k"
    unfolding w4(5) using len by (intro unat_word_of_nat_u32) simp
  ultimately show ?thesis using cursor w4 k by blast
qed

end

end
