(* ===== verification/Partial_Ledger.thy ===== *)
theory Partial_Ledger
  imports Ledger_Meaning Sync_Correct
begin

text \<open>
  Ledgers a broken-off pass leaves. A pass writes the outputs and spends of a block before the
  cursor moves, so after a failure the store holds more than the ledger of the blocks the cursor
  vouches for. It is caught between two ledgers: it \<open>covers\<close> that of the scanned prefix, and it is
  a \<open>fragment\<close> of that of the whole chain. Scanning the next block again keeps it in between and
  moves the lower bound up by one block; when the bounds meet, the ledger is the chain's.
\<close>

definition partial_of :: "utxo_entry \<Rightarrow> utxo_entry \<Rightarrow> bool" where
  "partial_of t e \<longleftrightarrow>
     (en_utxo e)\<lparr>cu_is_spent := False\<rparr> = (en_utxo t)\<lparr>cu_is_spent := False\<rparr>
     \<and> (en_spent_height e = None \<or> en_spent_height e = en_spent_height t)
     \<and> (cu_is_spent (en_utxo e) \<longrightarrow> e = t)"

definition fragment :: "ledger \<Rightarrow> ledger \<Rightarrow> bool" where
  "fragment T m \<longleftrightarrow> (\<forall>op e. m op = Some e \<longrightarrow> (\<exists>t. T op = Some t \<and> partial_of t e))"

definition covers :: "ledger \<Rightarrow> ledger \<Rightarrow> bool" where
  "covers W m \<longleftrightarrow> (\<forall>op e. W op = Some e \<longrightarrow>
     (\<exists>e'. m op = Some e' \<and> (cu_is_spent (en_utxo e) \<longrightarrow> cu_is_spent (en_utxo e'))))"

lemma partial_of_refl [simp]: "partial_of t t"
  by (simp add: partial_of_def)

lemma fragment_refl [simp]: "fragment T T" and covers_refl [simp]: "covers W W"
  by (simp_all add: fragment_def covers_def)

lemma fragmentD: "fragment T m \<Longrightarrow> m op = Some e \<Longrightarrow> \<exists>t. T op = Some t \<and> partial_of t e"
  by (simp add: fragment_def)

lemma coversD:
  "covers W m \<Longrightarrow> W op = Some e \<Longrightarrow>
   \<exists>e'. m op = Some e' \<and> (cu_is_spent (en_utxo e) \<longrightarrow> cu_is_spent (en_utxo e'))"
  by (simp add: covers_def)

lemma partial_of_trans:
  assumes "partial_of t s" and "partial_of s e"
  shows "partial_of t e"
  using assms unfolding partial_of_def by auto

lemma fragment_trans: "fragment T S \<Longrightarrow> fragment S m \<Longrightarrow> fragment T m"
  unfolding fragment_def by (meson partial_of_trans)

lemma covers_trans: "covers W V \<Longrightarrow> covers V m \<Longrightarrow> covers W m"
  unfolding covers_def by meson

lemma utxo_eq_iff:
  "(u :: captured_utxo)\<lparr>cu_is_spent := False\<rparr> = v\<lparr>cu_is_spent := False\<rparr> \<Longrightarrow>
   cu_is_spent u = cu_is_spent v \<Longrightarrow> u = v"
  by (cases u; cases v) simp

text \<open>When the bounds meet.\<close>

lemma fragment_complete:
  assumes frag: "fragment T m" and cov: "covers T m" and cons: "consistent T"
  shows "m = T"
proof (rule ext)
  fix op
  show "m op = T op"
  proof (cases "T op")
    case None
    then show ?thesis using fragmentD [OF frag, of op] by (cases "m op") auto
  next
    case (Some t)
    obtain e where e: "m op = Some e" "cu_is_spent (en_utxo t) \<longrightarrow> cu_is_spent (en_utxo e)"
      using coversD [OF cov Some] by blast
    have part: "partial_of t e" using fragmentD [OF frag e(1)] Some by auto
    have "e = t"
    proof (cases "cu_is_spent (en_utxo e)")
      case True
      then show ?thesis using part by (simp add: partial_of_def)
    next
      case False
      then have "\<not> cu_is_spent (en_utxo t)" using e(2) by blast
      then have "en_spent_height t = None" using cons Some by (auto simp: consistent_def)
      with part False \<open>\<not> cu_is_spent (en_utxo t)\<close> show ?thesis
        by (intro utxo_entry.equality) (auto simp: partial_of_def intro: utxo_eq_iff)
    qed
    then show ?thesis using e Some by simp
  qed
qed

section \<open>Writing a captured output or a spend again\<close>

lemma fragment_put:
  assumes "fragment T m" and "T (cu_outpoint u) = Some t" and "\<not> cu_is_spent u"
    and "(en_utxo t)\<lparr>cu_is_spent := False\<rparr> = u"
  shows "fragment T (put_utxo u m)"
proof -
  have "partial_of t (e\<lparr>en_utxo := u\<rparr>)" if "partial_of t e" for e
    using that assms(3,4) by (auto simp: partial_of_def)
  moreover have "partial_of t \<lparr>en_utxo = u, en_spent_height = None\<rparr>"
    using assms(3,4) by (auto simp: partial_of_def)
  moreover have "partial_of t e" if "m (cu_outpoint u) = Some e" for e
    using fragmentD [OF assms(1) that] assms(2) by auto
  ultimately show ?thesis
    using assms(1,2) unfolding fragment_def put_utxo_def
    by (auto split: option.splits)
qed

lemma covers_put: "covers W m \<Longrightarrow> cu_outpoint u \<notin> dom W \<Longrightarrow> covers W (put_utxo u m)"
  unfolding covers_def put_utxo_def by (auto split: option.splits)

lemma fragment_put_all:
  assumes "fragment T m"
    and "\<forall>u \<in> set us. \<not> cu_is_spent u
      \<and> (\<exists>t. T (cu_outpoint u) = Some t \<and> (en_utxo t)\<lparr>cu_is_spent := False\<rparr> = u)"
  shows "fragment T (put_all us m)"
  using assms
proof (induction us arbitrary: m)
  case (Cons u us)
  then obtain t where "T (cu_outpoint u) = Some t" "(en_utxo t)\<lparr>cu_is_spent := False\<rparr> = u" by auto
  with fragment_put [OF Cons.prems(1)] Cons show ?case by simp
qed simp

lemma covers_put_all:
  "covers W m \<Longrightarrow> \<forall>u \<in> set us. cu_outpoint u \<notin> dom W \<Longrightarrow> covers W (put_all us m)"
  by (induction us arbitrary: m) (simp_all add: covers_put)

lemma fragment_spend_all:
  assumes "fragment T m"
    and "\<forall>p \<in> set ps. p \<in> dom m \<longrightarrow> (\<exists>u. T p = Some (spend_entry h \<lparr>en_utxo = u, en_spent_height = None\<rparr>))"
  shows "fragment T (spend_all ps h m)"
proof (unfold fragment_def, intro allI impI)
  fix op e assume e: "spend_all ps h m op = Some e"
  show "\<exists>t. T op = Some t \<and> partial_of t e"
  proof (cases "op \<in> set ps")
    case False
    then show ?thesis using e fragmentD [OF assms(1)] by (simp add: spend_all_apply)
  next
    case True
    then obtain e0 where e0: "m op = Some e0" "e = spend_entry h e0" using e by (auto simp: spend_all_apply)
    obtain u where u: "T op = Some (spend_entry h \<lparr>en_utxo = u, en_spent_height = None\<rparr>)"
      using assms(2) True e0(1) by blast
    with fragmentD [OF assms(1) e0(1)] have
      "(en_utxo e0)\<lparr>cu_is_spent := False\<rparr> = u\<lparr>cu_is_spent := False\<rparr>"
      by (auto simp: partial_of_def spend_entry_def)
    then have "spend_entry h e0 = spend_entry h \<lparr>en_utxo = u, en_spent_height = None\<rparr>"
      by (cases e0; cases "en_utxo e0"; cases u) (simp add: spend_entry_def)
    then show ?thesis using u e0 by simp
  qed
qed

lemma covers_spend_all:
  assumes "covers W m"
  shows "covers W (spend_all ps h m)"
proof (unfold covers_def, intro allI impI)
  fix op e assume "W op = Some e"
  with assms obtain e' where "m op = Some e'" "cu_is_spent (en_utxo e) \<longrightarrow> cu_is_spent (en_utxo e')"
    by (blast dest: coversD)
  then show "\<exists>e'. spend_all ps h m op = Some e' \<and> (cu_is_spent (en_utxo e) \<longrightarrow> cu_is_spent (en_utxo e'))"
    by (simp add: spend_all_apply spend_entry_def)
qed

lemma is_unspent_put: "\<not> cu_is_spent u \<Longrightarrow> is_unspent (put_utxo u m) op \<longleftrightarrow> op = cu_outpoint u \<or> is_unspent m op"
  by (auto simp: is_unspent_def put_utxo_def split: option.split)

lemma unspent_put_all:
  "\<forall>u \<in> set us. \<not> cu_is_spent u \<Longrightarrow>
   {op. is_unspent (put_all us m) op} = {op. is_unspent m op} \<union> cu_outpoint ` set us"
  by (induction us arbitrary: m) (auto simp: is_unspent_put)

lemma unspent_spend_all:
  "{op. is_unspent (spend_all ps h m) op} = {op. is_unspent m op} - set ps"
  by (auto simp: is_unspent_def spend_all_apply spend_entry_def split: option.splits if_splits)

section \<open>What one block contributes\<close>

text \<open>The captured outpoints of a block and the outpoints its inputs refer to.\<close>

definition block_creates ::
    "elements_lib \<Rightarrow> ('d, 'k, 'w) lwk_lib \<Rightarrow> ('d, 'k, 'w) scan_engine \<Rightarrow> nat \<Rightarrow> block list
     \<Rightarrow> captured_utxo list" where
  "block_creates E L eng n chain = ev_creates (txs_events E L eng (word_of_nat n) (blk_txdata (chain ! n)))"

definition block_inputs :: "nat \<Rightarrow> block list \<Rightarrow> outpoint set" where
  "block_inputs n chain = {p. \<exists>t \<in> set (blk_txdata (chain ! n)). \<exists>i \<in> set (tx_input t).
     ti_previous_output i = p}"

lemma dom_map_of_delete: "dom (map_of (AList.delete p al)) = dom (map_of al) - {p}"
  by (auto simp: AList.delete_conv split: if_splits)

lemma dom_map_of_update: "dom (map_of (AList.update p w al)) = insert p (dom (map_of al))"
  by (auto simp: AList.update_conv split: if_splits)

lemma scan_inputs_sets:
  "dom (map_of (sa_spend_index (scan_inputs ins acc))) =
     dom (map_of (sa_spend_index acc)) - ti_previous_output ` set ins
   \<and> set (sa_spent (scan_inputs ins acc)) =
     set (sa_spent acc) \<union> (ti_previous_output ` set ins \<inter> dom (map_of (sa_spend_index acc)))"
proof (induction ins arbitrary: acc)
  case (Cons i ins)
  let ?p = "ti_previous_output i"
  show ?case
  proof (cases "map_of (sa_spend_index acc) ?p")
    case None
    then have "?p \<notin> dom (map_of (sa_spend_index acc))" by (simp add: domIff)
    with None Cons.IH [of acc] show ?thesis by (simp add: Let_def)
  next
    case (Some w)
    let ?acc = "acc\<lparr>sa_spend_index := AList.delete ?p (sa_spend_index acc), sa_spent := sa_spent acc @ [?p]\<rparr>"
    have step: "scan_inputs (i # ins) acc = scan_inputs ins ?acc" using Some by (simp add: Let_def)
    have dom: "dom (map_of (sa_spend_index ?acc)) = dom (map_of (sa_spend_index acc)) - {?p}"
      and spent: "set (sa_spent ?acc) = insert ?p (set (sa_spent acc))"
      by (simp_all add: dom_map_of_delete del: map_of_delete)
    have p: "?p \<in> dom (map_of (sa_spend_index acc))" using Some by blast
    have sets: "D - {q} - I = D - insert q I" "q \<in> D \<Longrightarrow> insert q S \<union> (I \<inter> (D - {q})) = S \<union> (insert q I \<inter> D)"
      for q and D I S :: "outpoint set" by blast+
    show ?thesis using Cons.IH [of ?acc, unfolded dom spent, unfolded sets(1) sets(2) [OF p]]
      unfolding step list.set image_insert .
  qed
qed simp

lemma scan_outputs_sets:
  assumes "engine_wf eng" and "v + length ts \<le> 2 ^ 32"
  shows "\<exists>acc'. scan_outputs L eng h tid v ts acc = Inr acc'
    \<and> dom (map_of (sa_spend_index acc')) =
        dom (map_of (sa_spend_index acc)) \<union> cu_outpoint ` set (output_captures L eng h tid v ts)"
  using assms(2)
proof (induction ts arbitrary: v acc)
  case (Cons t ts)
  show ?case
  proof (cases "capture_of L eng h tid v t")
    case None
    obtain s where "scan_output L eng h tid v t acc = Inr (acc\<lparr>sa_summary := s\<rparr>)"
      using scan_output_None [OF assms(1) None] by blast
    with None Cons.IH [of "Suc v" "acc\<lparr>sa_summary := s\<rparr>"] Cons.prems show ?thesis by simp
  next
    case (Some u)
    have v: "v < 2 ^ 32" "Suc v + length ts \<le> 2 ^ 32" using Cons.prems by simp_all
    let ?acc = "acc\<lparr>sa_captured := sa_captured acc @ [u],
        sa_spend_index := AList.update (cu_outpoint u) (cu_wallet_id u) (sa_spend_index acc)\<rparr>"
    have dom: "dom (map_of (sa_spend_index ?acc)) = insert (cu_outpoint u) (dom (map_of (sa_spend_index acc)))"
      by (simp add: dom_map_of_update del: map_of_update)
    from Cons.IH [OF v(2), of ?acc, unfolded dom] show ?thesis
      using Some by (simp add: scan_output_Some [OF assms(1) Some v(1)])
  qed
qed simp

text \<open>
  The engine's bookkeeping over a block, as sets: whatever the spend index held, every captured
  output enters it, every outpoint an input refers to leaves it, and those of them that were in it
  are spent.
\<close>

lemma scan_txs_sets:
  assumes "engine_wf eng" and "wf_txs E txs"
  shows "\<exists>acc'. scan_txs E L eng h txs acc = Inr acc'
    \<and> dom (map_of (sa_spend_index acc')) =
        (dom (map_of (sa_spend_index acc)) \<union> cu_outpoint ` set (ev_creates (txs_events E L eng h txs)))
        - fst ` set (ev_spends (txs_events E L eng h txs))
    \<and> set (sa_spent acc') = set (sa_spent acc) \<union> (fst ` set (ev_spends (txs_events E L eng h txs))
        \<inter> (dom (map_of (sa_spend_index acc)) \<union> cu_outpoint ` set (ev_creates (txs_events E L eng h txs))))"
  using assms(2)
proof (induction txs arbitrary: acc)
  case (Cons t ts)
  let ?S = "dom (map_of (sa_spend_index acc))"
  let ?I = "ti_previous_output ` set (tx_input t)"
  let ?c = "cu_outpoint ` set (ev_creates (tx_events E L eng h t))"
  let ?C = "cu_outpoint ` set (ev_creates (txs_events E L eng h ts))"
  let ?J = "fst ` set (ev_spends (txs_events E L eng h ts))"
  have len: "0 + length (tx_output t) \<le> 2 ^ 32" using Cons.prems by simp
  obtain acc1 where t: "scan_outputs L eng h (lib_txid E t) 0 (tx_output t) (scan_inputs (tx_input t) acc) = Inr acc1"
    and dom1: "dom (map_of (sa_spend_index acc1)) = (?S - ?I) \<union> ?c"
    using scan_outputs_sets [OF assms(1) len, of L h "lib_txid E t" "scan_inputs (tx_input t) acc"]
    unfolding scan_inputs_sets [THEN conjunct1] by (elim exE conjE) (rule that, simp_all add: tx_events_def)
  have spent1: "set (sa_spent acc1) = set (sa_spent acc) \<union> (?I \<inter> ?S)"
    using scan_outputs_frame [OF assms(1) len t] by (simp add: scan_inputs_sets)
  have apart: "?I \<inter> ?c = {}" "?I \<inter> ?C = {}"
    using Cons.prems by (auto dest!: tx_events_creates txs_events_creates)
  have "wf_txs E ts" using Cons.prems by simp
  from Cons.IH [OF this, of acc1] obtain acc2 where
    ts: "scan_txs E L eng h ts acc1 = Inr acc2"
      "dom (map_of (sa_spend_index acc2)) = ((?S - ?I) \<union> ?c \<union> ?C) - ?J"
      "set (sa_spent acc2) = set (sa_spent acc) \<union> (?I \<inter> ?S) \<union> (?J \<inter> ((?S - ?I) \<union> ?c \<union> ?C))"
    unfolding dom1 spent1 by (elim exE conjE) (rule that)
  have "((?S - ?I) \<union> ?c \<union> ?C) - ?J = (?S \<union> (?c \<union> ?C)) - (?I \<union> ?J)" using apart by blast
  moreover have "set (sa_spent acc) \<union> (?I \<inter> ?S) \<union> (?J \<inter> ((?S - ?I) \<union> ?c \<union> ?C)) =
      set (sa_spent acc) \<union> ((?I \<union> ?J) \<inter> (?S \<union> (?c \<union> ?C)))" using apart by blast
  ultimately show ?case using t ts by (simp add: scan_tx_def image_Un)
qed simp

lemma scan_txs_returns: "engine_wf eng \<Longrightarrow> wf_txs E txs \<Longrightarrow> \<exists>acc'. scan_txs E L eng h txs acc = Inr acc'"
  by (drule (1) scan_txs_sets [of eng E txs L h acc], elim exE conjE, rule exI)

section \<open>One block against the two bounds\<close>

lemma settle_append: "\<not> cu_is_spent u \<Longrightarrow> partial_of (settle (hs @ ks) u) (settle hs u)"
  by (cases hs) (auto simp: settle_def partial_of_def spend_entry_def split: list.split)

lemma settle_utxo: "\<not> cu_is_spent u \<Longrightarrow> (en_utxo (settle hs u))\<lparr>cu_is_spent := False\<rparr> = u"
  by (cases u) (simp add: settle_def spend_entry_def split: list.split)

lemma spend_heights_append [simp]: "spend_heights p (es @ fs) = spend_heights p es @ spend_heights p fs"
  by (simp add: spend_heights_def)

lemma chain_events_split:
  assumes "n < length chain"
  shows "chain_events E L eng 0 chain = chain_events E L eng 0 (take n chain)
    @ txs_events E L eng (word_of_nat n) (blk_txdata (chain ! n)) @ chain_events E L eng (Suc n) (drop (Suc n) chain)"
proof -
  have "chain = take n chain @ chain ! n # drop (Suc n) chain" using assms by (simp add: id_take_nth_drop)
  then have "chain_events E L eng 0 chain = chain_events E L eng 0 (take n chain @ chain ! n # drop (Suc n) chain)"
    by simp
  then show ?thesis using assms by (simp add: chain_events_append min_absorb2)
qed

lemma wallet_ledger_Suc:
  "n < length chain \<Longrightarrow> wallet_ledger E L eng (take (Suc n) chain) =
     play (txs_events E L eng (word_of_nat n) (blk_txdata (chain ! n))) (wallet_ledger E L eng (take n chain))"
  using wallet_ledger_snoc [of E L eng "take n chain" "chain ! n"]
  by (simp add: take_Suc_conv_app_nth min_absorb2)

lemma captured_in_take: "captured_in E L eng (take n chain) \<subseteq> captured_in E L eng chain"
  by (fastforce simp: captured_in_def)

lemma fragment_take:
  assumes wf: "wf_chain E chain"
  shows "fragment (wallet_ledger E L eng chain) (wallet_ledger E L eng (take n chain))"
proof (unfold fragment_def, intro allI impI)
  fix op e assume "wallet_ledger E L eng (take n chain) op = Some e"
  then obtain u where u: "u \<in> captured_in E L eng (take n chain)" "cu_outpoint u = op"
      "e = settle (spend_heights op (chain_events E L eng 0 (take n chain))) u"
    unfolding wallet_ledger_entry [OF wf_chain_take [OF wf]] by blast
  have "chain_events E L eng 0 chain = chain_events E L eng 0 (take n chain)
      @ chain_events E L eng (length (take n chain)) (drop n chain)"
    using chain_events_append [of E L eng 0 "take n chain" "drop n chain"] by simp
  then have "partial_of (settle (spend_heights op (chain_events E L eng 0 chain)) u) e"
    using settle_append [OF captured_in_unspent [OF u(1)]] by (simp add: u(3))
  moreover have "wallet_ledger E L eng chain op = Some (settle (spend_heights op (chain_events E L eng 0 chain)) u)"
    unfolding wallet_ledger_entry [OF wf] using u(1,2) captured_in_take by blast
  ultimately show "\<exists>t. wallet_ledger E L eng chain op = Some t \<and> partial_of t e" by blast
qed

lemma block_creates_in:
  assumes "wf_chain E chain" and "n < length chain" and "u \<in> set (block_creates E L eng n chain)"
  shows "\<not> cu_is_spent u \<and> (\<exists>t. wallet_ledger E L eng chain (cu_outpoint u) = Some t
    \<and> (en_utxo t)\<lparr>cu_is_spent := False\<rparr> = u)"
proof -
  have u: "u \<in> captured_in E L eng chain"
    using assms(2,3) by (auto simp: chain_events_split set_creates_captured [symmetric] block_creates_def)
  note unspent = captured_in_unspent [OF u]
  have "wallet_ledger E L eng chain (cu_outpoint u) =
      Some (settle (spend_heights (cu_outpoint u) (chain_events E L eng 0 chain)) u)"
    unfolding wallet_ledger_entry [OF assms(1)] using u by blast
  with unspent settle_utxo [OF unspent] show ?thesis by blast
qed

lemma block_creates_fresh:
  assumes "wf_chain E chain" and "n < length chain" and "u \<in> set (block_creates E L eng n chain)"
  shows "cu_outpoint u \<notin> dom (wallet_ledger E L eng (take n chain))"
  using next_block_fresh(2) [OF assms(1,2)] txs_events_creates assms(3) unfolding block_creates_def by blast

lemma block_spend_heights:
  "(p, k) \<in> set (ev_spends (txs_events E L eng h ts)) \<Longrightarrow> k = h"
  by (induction ts) (auto simp: tx_events_def)

text \<open>An outpoint that a block refers to and that was not spent before is spent at that block.\<close>

lemma block_spend:
  assumes wf: "wf_chain E chain" and n: "n < length chain" and p: "p \<in> block_inputs n chain"
    and known: "p \<in> dom (wallet_ledger E L eng chain)"
    and unspent: "\<forall>e. wallet_ledger E L eng (take n chain) p = Some e \<longrightarrow> \<not> cu_is_spent (en_utxo e)"
  shows "\<exists>u. wallet_ledger E L eng chain p =
    Some (spend_entry (word_of_nat n) \<lparr>en_utxo = u, en_spent_height = None\<rparr>)"
proof -
  let ?lo = "chain_events E L eng 0 (take n chain)"
  let ?mid = "txs_events E L eng (word_of_nat n) (blk_txdata (chain ! n))"
  let ?hi = "chain_events E L eng (Suc n) (drop (Suc n) chain)"
  note split = chain_events_split [OF n, of E L eng]
  have "causal (?lo @ ?mid @ ?hi)"
    using causal_chain_events [of E chain L eng 0] wf unfolding wf_chain_def split by blast
  then have apart: "fst ` set (ev_spends ?lo) \<inter> cu_outpoint ` set (ev_creates (?mid @ ?hi)) = {}"
    by (simp only: causal_append)
  obtain u where u: "u \<in> captured_in E L eng chain" "cu_outpoint u = p"
      "wallet_ledger E L eng chain p = Some (settle (spend_heights p (?lo @ ?mid @ ?hi)) u)"
  proof -
    obtain t where "wallet_ledger E L eng chain p = Some t" using known by blast
    with that show thesis using wallet_ledger_entry [OF wf, of L eng p t] unfolding split by blast
  qed
  have lo: "spend_heights p ?lo = []"
  proof (rule ccontr)
    assume some: "spend_heights p ?lo \<noteq> []"
    then have "p \<in> fst ` set (ev_spends ?lo)" by (force simp: spend_heights_def filter_empty_conv)
    with apart u(1,2) have "u \<in> captured_in E L eng (take n chain)"
      by (auto simp: set_creates_captured [symmetric] split)
    with u(2) have "wallet_ledger E L eng (take n chain) p = Some (settle (spend_heights p ?lo) u)"
      unfolding wallet_ledger_entry [OF wf_chain_take [OF wf]] by blast
    with unspent some captured_in_unspent [OF u(1)] show False by simp
  qed
  have "p \<in> fst ` set (ev_spends ?mid)" using p by (simp add: txs_events_spends block_inputs_def)
  then have "spend_heights p ?mid \<noteq> []" by (force simp: spend_heights_def filter_empty_conv)
  moreover have "\<forall>k \<in> set (spend_heights p ?mid). k = word_of_nat n"
    by (auto simp: spend_heights_def dest: block_spend_heights)
  ultimately have "settle (spend_heights p (?lo @ ?mid @ ?hi)) u =
      spend_entry (word_of_nat n) \<lparr>en_utxo = u, en_spent_height = None\<rparr>"
    using lo by (cases "spend_heights p ?mid") (auto simp: settle_def)
  with u(3) show ?thesis by auto
qed

lemma play_spent:
  assumes "play es m op = Some e" and "cu_is_spent (en_utxo e)"
    and "\<forall>u \<in> set (ev_creates es). \<not> cu_is_spent u"
  shows "(\<exists>e0. m op = Some e0 \<and> cu_is_spent (en_utxo e0)) \<or> op \<in> fst ` set (ev_spends es)"
  using assms
proof (induction es arbitrary: m rule: ev_spends.induct)
  case (2 p h es)
  then show ?case by (fastforce simp: apply_event.simps split: option.splits if_splits)
next
  case (3 u es)
  then show ?case by (fastforce simp: apply_event.simps split: if_splits)
qed auto

text \<open>
  One block scanned over a ledger between the bounds, with the spends the engine collects: after
  either write the ledger is still in between, after both it covers the block too.
\<close>

lemma covers_block:
  assumes wf: "wf_chain E chain" and n: "n < length chain"
    and cov: "covers (wallet_ledger E L eng (take n chain)) m"
    and spent: "set ps = block_inputs n chain
      \<inter> ({op. is_unspent m op} \<union> cu_outpoint ` set (block_creates E L eng n chain))"
  shows "covers (wallet_ledger E L eng (take (Suc n) chain))
    (spend_all ps h (put_all (block_creates E L eng n chain) m))" (is "covers ?W' (spend_all ps h ?m)")
proof (unfold covers_def, intro allI impI)
  let ?W = "wallet_ledger E L eng (take n chain)" and ?us = "block_creates E L eng n chain"
  have mid: "covers ?W ?m" using covers_put_all [OF cov] block_creates_fresh [OF wf n] by blast
  have unspent: "\<not> cu_is_spent u" if "u \<in> set ?us" for u using block_creates_in [OF wf n that] by blast
  fix op e assume e: "?W' op = Some e"
  then have "op \<in> dom ?W'" by blast
  then have "op \<in> dom ?W \<or> op \<in> cu_outpoint ` set ?us"
    by (auto simp: wallet_ledger_Suc [OF n] dom_play block_creates_def)
  moreover have "dom ?W \<subseteq> dom ?m" using mid by (fastforce dest: coversD)
  ultimately have "op \<in> dom ?m" by (auto simp: dom_put_all)
  then obtain e1 where e1: "?m op = Some e1" by blast
  have "cu_is_spent (en_utxo e1)" if "cu_is_spent (en_utxo e)" "op \<notin> set ps"
  proof -
    have "(\<exists>e0. ?W op = Some e0 \<and> cu_is_spent (en_utxo e0)) \<or> op \<in> block_inputs n chain"
      using play_spent [OF e [unfolded wallet_ledger_Suc [OF n]] that(1)] unspent
      by (simp add: txs_events_spends block_creates_def block_inputs_def)
    then show ?thesis
    proof
      assume "\<exists>e0. ?W op = Some e0 \<and> cu_is_spent (en_utxo e0)"
      then show ?thesis using coversD [OF mid] e1 by fastforce
    next
      assume "op \<in> block_inputs n chain"
      with that(2) spent have "\<not> is_unspent ?m op"
        using unspent_put_all [of ?us m] unspent by blast
      then show ?thesis using e1 by (simp add: is_unspent_def)
    qed
  qed
  with e1 show "\<exists>e'. spend_all ps h ?m op = Some e' \<and> (cu_is_spent (en_utxo e) \<longrightarrow> cu_is_spent (en_utxo e'))"
    by (auto simp: spend_all_apply spend_entry_def)
qed

lemma fragment_block:
  assumes wf: "wf_chain E chain" and n: "n < length chain"
    and frag: "fragment (wallet_ledger E L eng chain) m"
    and cov: "covers (wallet_ledger E L eng (take n chain)) m"
  shows "fragment (wallet_ledger E L eng chain) (put_all (block_creates E L eng n chain) m)" (is "fragment ?T ?m")
    and "set ps \<subseteq> block_inputs n chain \<inter> {op. is_unspent (put_all (block_creates E L eng n chain) m) op} \<Longrightarrow>
      fragment (wallet_ledger E L eng chain)
        (spend_all ps (word_of_nat n) (put_all (block_creates E L eng n chain) m))"
proof -
  let ?W = "wallet_ledger E L eng (take n chain)"
  show mid: "fragment ?T ?m"
    by (rule fragment_put_all [OF frag]) (use block_creates_in [OF wf n] in blast)
  have covm: "covers ?W ?m" using covers_put_all [OF cov] block_creates_fresh [OF wf n] by blast
  assume ps: "set ps \<subseteq> block_inputs n chain \<inter> {op. is_unspent ?m op}"
  show "fragment ?T (spend_all ps (word_of_nat n) ?m)"
  proof (rule fragment_spend_all [OF mid], intro ballI impI)
    fix p assume p: "p \<in> set ps" "p \<in> dom ?m"
    then have "is_unspent ?m p" using ps by blast
    then obtain e where e: "?m p = Some e" "\<not> cu_is_spent (en_utxo e)"
      by (auto simp: is_unspent_def split: option.splits)
    have "p \<in> dom ?T" using fragmentD [OF mid e(1)] by blast
    moreover have "\<forall>e0. ?W p = Some e0 \<longrightarrow> \<not> cu_is_spent (en_utxo e0)"
      using coversD [OF covm] e by fastforce
    ultimately show "\<exists>u. ?T p = Some (spend_entry (word_of_nat n) \<lparr>en_utxo = u, en_spent_height = None\<rparr>)"
      using ps p(1) by (intro block_spend [OF wf n]) auto
  qed
qed

text \<open>Blocks scanned and blocks seen: both bounds move with the chain.\<close>

lemma covers_take:
  assumes wf: "wf_chain E chain" and "k \<le> n"
  shows "covers (wallet_ledger E L eng (take k chain)) (wallet_ledger E L eng (take n chain))"
proof (unfold covers_def, intro allI impI)
  fix op e assume "wallet_ledger E L eng (take k chain) op = Some e"
  moreover have "take k (take n chain) = take k chain" using assms(2) by (simp add: min_absorb1)
  ultimately have e: "wallet_ledger E L eng (take k (take n chain)) op = Some e" by simp
  from fragmentD [OF fragment_take [OF wf_chain_take [OF wf]] e] show
    "\<exists>e'. wallet_ledger E L eng (take n chain) op = Some e' \<and> (cu_is_spent (en_utxo e) \<longrightarrow> cu_is_spent (en_utxo e'))"
    by (auto simp: partial_of_def)
qed

end
