(* ===== verification/Sync_Fakes.thy ===== *)
theory Sync_Fakes
  imports Ledger
begin

text \<open>
  \<open>src/sync/fakes.rs\<close>: the in-memory stores and the scripted node, the reference implementations
  of the three traits. A \<open>HashMap\<close> is an association list with distinct keys (its order stands for
  the unspecified iteration order; nothing below depends on it). The \<open>Mutex\<close>es guard against
  other threads and are not modelled. The interpretations at the end discharge the contracts of
  the theory Ledger for these implementations.
\<close>

section \<open>\<open>MemUtxoStore\<close>\<close>

record mem_utxo_store =
  mus_inner :: "(outpoint \<times> utxo_entry) list"

definition mem_utxo_new :: mem_utxo_store where
  "mem_utxo_new = \<lparr>mus_inner = []\<rparr>"

definition mem_utxo_len :: "mem_utxo_store \<Rightarrow> nat" where
  "mem_utxo_len s = length (mus_inner s)"

definition mem_utxo_is_empty :: "mem_utxo_store \<Rightarrow> bool" where
  "mem_utxo_is_empty s \<longleftrightarrow> mem_utxo_len s = 0"

fun mem_upsert_loop ::
    "captured_utxo list \<Rightarrow> (outpoint \<times> utxo_entry) list \<Rightarrow> (outpoint \<times> utxo_entry) list" where
  "mem_upsert_loop [] m = m"
| "mem_upsert_loop (u # us) m =
     mem_upsert_loop us
       (case map_of m (cu_outpoint u) of
          Some e \<Rightarrow> AList.update (cu_outpoint u) (e\<lparr>en_utxo := u\<rparr>) m
        | None \<Rightarrow> AList.update (cu_outpoint u) \<lparr>en_utxo = u, en_spent_height = None\<rparr> m)"

definition mem_upsert_utxos ::
    "captured_utxo list \<Rightarrow> (mem_utxo_store, sync_error, unit) act" where
  "mem_upsert_utxos utxos s = (Inr (), s\<lparr>mus_inner := mem_upsert_loop utxos (mus_inner s)\<rparr>)"

fun mem_mark_loop ::
    "outpoint list \<Rightarrow> u32 \<Rightarrow> (outpoint \<times> utxo_entry) list \<Rightarrow> (outpoint \<times> utxo_entry) list" where
  "mem_mark_loop [] h m = m"
| "mem_mark_loop (op # ops) h m =
     mem_mark_loop ops h
       (case map_of m op of
          Some e \<Rightarrow> AList.update op
            (e\<lparr>en_utxo := (en_utxo e)\<lparr>cu_is_spent := True\<rparr>, en_spent_height := Some h\<rparr>) m
        | None \<Rightarrow> m)"

definition mem_mark_spent ::
    "outpoint list \<Rightarrow> u32 \<Rightarrow> (mem_utxo_store, sync_error, unit) act" where
  "mem_mark_spent outpoints spent_height s =
     (Inr (), s\<lparr>mus_inner := mem_mark_loop outpoints spent_height (mus_inner s)\<rparr>)"

definition mem_list_unspent ::
    "wallet_id \<Rightarrow> (mem_utxo_store, sync_error, captured_utxo list) act" where
  "mem_list_unspent wallet s =
     (Inr (map en_utxo
        (filter (\<lambda>e. \<not> cu_is_spent (en_utxo e) \<and> cu_wallet_id (en_utxo e) = wallet)
          (map snd (mus_inner s)))), s)"

definition mem_unspent_outpoints ::
    "(mem_utxo_store, sync_error, (outpoint \<times> wallet_id) list) act" where
  "mem_unspent_outpoints s =
     (Inr (map (\<lambda>e. (cu_outpoint (en_utxo e), cu_wallet_id (en_utxo e)))
        (filter (\<lambda>e. \<not> cu_is_spent (en_utxo e)) (map snd (mus_inner s)))), s)"

definition mem_utxo_rollback_above :: "u32 \<Rightarrow> (mem_utxo_store, sync_error, unit) act" where
  "mem_utxo_rollback_above height s =
     (let kept = filter (\<lambda>p. cu_height (en_utxo (snd p)) \<le> height) (mus_inner s);
          unspend = (\<lambda>e. case en_spent_height e of
              Some h \<Rightarrow> if h > height
                then e\<lparr>en_utxo := (en_utxo e)\<lparr>cu_is_spent := False\<rparr>, en_spent_height := None\<rparr>
                else e
            | None \<Rightarrow> e)
      in (Inr (), s\<lparr>mus_inner := map (\<lambda>p. (fst p, unspend (snd p))) kept\<rparr>))"

definition mem_utxo_ops :: "mem_utxo_store utxo_store_ops" where
  "mem_utxo_ops = \<lparr>us_upsert_utxos = mem_upsert_utxos, us_mark_spent = mem_mark_spent,
     us_list_unspent = mem_list_unspent, us_unspent_outpoints = mem_unspent_outpoints,
     us_rollback_above = mem_utxo_rollback_above\<rparr>"

section \<open>\<open>MemBlockStore\<close>\<close>

record mem_block_store =
  mbs_blocks :: "(u32 \<times> (block_hash \<times> u8 list)) list"
  mbs_tip :: "synced_tip option"

definition mem_block_new :: mem_block_store where
  "mem_block_new = \<lparr>mbs_blocks = [], mbs_tip = None\<rparr>"

definition mem_block_count :: "mem_block_store \<Rightarrow> nat" where
  "mem_block_count s = length (mbs_blocks s)"

definition mem_store_block ::
    "u32 \<Rightarrow> block_hash \<Rightarrow> u8 list \<Rightarrow> (mem_block_store, sync_error, unit) act" where
  "mem_store_block height hash raw s =
     (Inr (), s\<lparr>mbs_blocks := AList.update height (hash, raw) (mbs_blocks s)\<rparr>)"

definition mem_synced_tip :: "(mem_block_store, sync_error, synced_tip option) act" where
  "mem_synced_tip s = (Inr (mbs_tip s), s)"

definition mem_set_synced_tip :: "synced_tip \<Rightarrow> (mem_block_store, sync_error, unit) act" where
  "mem_set_synced_tip t s = (Inr (), s\<lparr>mbs_tip := Some t\<rparr>)"

definition mem_block_hash_at :: "u32 \<Rightarrow> (mem_block_store, sync_error, block_hash option) act" where
  "mem_block_hash_at height s = (Inr (map_option fst (map_of (mbs_blocks s) height)), s)"

text \<open>\<open>Iterator::max_by_key\<close>: the last of the elements with the greatest key.\<close>

fun max_by_height :: "(u32 \<times> 'a) list \<Rightarrow> (u32 \<times> 'a) option" where
  "max_by_height [] = None"
| "max_by_height (p # ps) =
     (case max_by_height ps of
        None \<Rightarrow> Some p
      | Some q \<Rightarrow> if fst p > fst q then Some p else Some q)"

definition mem_block_rollback_above :: "u32 \<Rightarrow> (mem_block_store, sync_error, unit) act" where
  "mem_block_rollback_above height s =
     (let blocks = filter (\<lambda>p. fst p \<le> height) (mbs_blocks s);
          tip = (case mbs_tip s of
              Some t \<Rightarrow> if st_height t > height
                then map_option (\<lambda>p. \<lparr>st_height = fst p, st_hash = fst (snd p)\<rparr>) (max_by_height blocks)
                else Some t
            | None \<Rightarrow> None)
      in (Inr (), s\<lparr>mbs_blocks := blocks, mbs_tip := tip\<rparr>))"

definition mem_block_ops :: "mem_block_store block_store_ops" where
  "mem_block_ops = \<lparr>bs_store_block = mem_store_block, bs_synced_tip = mem_synced_tip,
     bs_set_synced_tip = mem_set_synced_tip, bs_block_hash_at = mem_block_hash_at,
     bs_rollback_above = mem_block_rollback_above\<rparr>"

section \<open>\<open>MockChainSource\<close>\<close>

record mock_chain_source =
  mcs_chain :: "block list"
  mcs_broadcast :: "transaction list"

definition mock_new :: mock_chain_source where
  "mock_new = \<lparr>mcs_chain = [], mcs_broadcast = []\<rparr>"

definition mock_push_block :: "block \<Rightarrow> mock_chain_source \<Rightarrow> mock_chain_source" where
  "mock_push_block b c = c\<lparr>mcs_chain := mcs_chain c @ [b]\<rparr>"

definition mock_reorg_to :: "u32 \<Rightarrow> mock_chain_source \<Rightarrow> mock_chain_source" where
  "mock_reorg_to height c = c\<lparr>mcs_chain := take (unat height + 1) (mcs_chain c)\<rparr>"

definition mock_broadcasted :: "mock_chain_source \<Rightarrow> transaction list" where
  "mock_broadcasted c = mcs_broadcast c"

definition mock_tip_height :: "(mock_chain_source, sync_error, u32) act" where
  "mock_tip_height c =
     (if mcs_chain c = [] then (Inl (Err (ChainSource ''empty chain'')), c)
      else if fits_u32 (length (mcs_chain c) - 1)
        then (Inr (word_of_nat (length (mcs_chain c) - 1)), c)
        else (Inl (Err (ChainSource ''chain too long'')), c))"

definition mock_block_hash ::
    "elements_lib \<Rightarrow> u32 \<Rightarrow> (mock_chain_source, sync_error, block_hash) act" where
  "mock_block_hash E height c =
     (if unat height < length (mcs_chain c)
      then (Inr (lib_block_hash E (mcs_chain c ! unat height)), c)
      else (Inl (Err (ChainSource (''no block at height '' @ dec (unat height)))), c))"

definition mock_block ::
    "elements_lib \<Rightarrow> block_hash \<Rightarrow> (mock_chain_source, sync_error, block) act" where
  "mock_block E hash c =
     (case find (\<lambda>b. lib_block_hash E b = hash) (mcs_chain c) of
        Some b \<Rightarrow> (Inr b, c)
      | None \<Rightarrow> (Inl (Err (ChainSource (''no block with hash '' @ lib_show_block_hash E hash))), c))"

definition mock_broadcast ::
    "elements_lib \<Rightarrow> transaction \<Rightarrow> (mock_chain_source, sync_error, txid) act" where
  "mock_broadcast E tx c =
     (Inr (lib_txid E tx), c\<lparr>mcs_broadcast := mcs_broadcast c @ [tx]\<rparr>)"

definition mock_chain_ops :: "elements_lib \<Rightarrow> mock_chain_source chain_source_ops" where
  "mock_chain_ops E = \<lparr>cs_tip_height = mock_tip_height, cs_block_hash = mock_block_hash E,
     cs_block = mock_block E, cs_broadcast = mock_broadcast E\<rparr>"

section \<open>What the operations do to the represented maps\<close>

definition mem_ledger :: "mem_utxo_store \<Rightarrow> ledger" where
  "mem_ledger s = map_of (mus_inner s)"

definition mem_utxo_inv :: "mem_utxo_store \<Rightarrow> bool" where
  "mem_utxo_inv s \<longleftrightarrow> distinct (map fst (mus_inner s)) \<and> keyed (mem_ledger s)"

definition mem_blocks :: "mem_block_store \<Rightarrow> u32 \<rightharpoonup> (block_hash \<times> u8 list)" where
  "mem_blocks s = map_of (mbs_blocks s)"

definition mem_block_inv :: "mem_block_store \<Rightarrow> bool" where
  "mem_block_inv s \<longleftrightarrow> distinct (map fst (mbs_blocks s))"

lemma map_of_upsert_loop [store_simps]: "map_of (mem_upsert_loop us m) = put_all us (map_of m)"
proof (induction us arbitrary: m)
  case (Cons u us)
  show ?case
    by (simp only: mem_upsert_loop.simps Cons.IH put_all_simps)
      (simp add: put_utxo_def fun_upd_def split: option.splits)
qed simp

lemma map_of_mark_loop [store_simps]: "map_of (mem_mark_loop ps h m) = spend_all ps h (map_of m)"
proof (induction ps arbitrary: m)
  case (Cons p ps)
  show ?case
    by (simp only: mem_mark_loop.simps Cons.IH spend_all_simps)
      (simp add: spend_one_def spend_entry_def fun_upd_def split: option.splits)
qed simp

lemma distinct_upsert_loop [store_simps]:
  "distinct (map fst m) \<Longrightarrow> distinct (map fst (mem_upsert_loop us m))"
  by (induction us arbitrary: m) (auto simp: distinct_update split: option.splits)

lemma distinct_mark_loop [store_simps]:
  "distinct (map fst m) \<Longrightarrow> distinct (map fst (mem_mark_loop ps h m))"
  by (induction ps arbitrary: m) (auto simp: distinct_update split: option.splits)

lemma mem_upsert_ok:
  "mem_utxo_inv s \<Longrightarrow> mem_upsert_utxos us s = (r, s') \<Longrightarrow>
   mem_utxo_inv s' \<and> mem_ledger s' = put_all us (mem_ledger s)"
  by (auto simp: mem_upsert_utxos_def mem_utxo_inv_def mem_ledger_def store_simps)

lemma mem_mark_ok:
  "mem_utxo_inv s \<Longrightarrow> mem_mark_spent ps h s = (r, s') \<Longrightarrow>
   mem_utxo_inv s' \<and> mem_ledger s' = spend_all ps h (mem_ledger s)"
  by (auto simp: mem_mark_spent_def mem_utxo_inv_def mem_ledger_def store_simps)

lemma mem_entry_iff:
  "mem_utxo_inv s \<Longrightarrow> (op, e) \<in> set (mus_inner s) \<longleftrightarrow> mem_ledger s op = Some e"
  by (simp add: mem_utxo_inv_def mem_ledger_def)

lemma mem_values:
  "mem_utxo_inv s \<Longrightarrow> set (map snd (mus_inner s)) = {e. \<exists>op. mem_ledger s op = Some e}"
  by (force simp: mem_entry_iff [symmetric])

lemma mem_list_unspent_ok:
  assumes "mem_utxo_inv s" and "mem_list_unspent w s = (Inr us, s')"
  shows "s' = s \<and> set us = {u. \<exists>op e. mem_ledger s op = Some e \<and> en_utxo e = u
      \<and> \<not> cu_is_spent u \<and> cu_wallet_id u = w}"
proof -
  have "set us = en_utxo ` {e \<in> set (map snd (mus_inner s)).
      \<not> cu_is_spent (en_utxo e) \<and> cu_wallet_id (en_utxo e) = w}"
    using assms(2) [unfolded mem_list_unspent_def prod.inject sum.inject, THEN conjunct1, symmetric]
    by (simp only: set_map set_filter)
  then show ?thesis
    using assms(2) unfolding mem_values [OF assms(1)] by (auto simp: mem_list_unspent_def)
qed

lemma mem_unspent_outpoints_ok:
  assumes inv: "mem_utxo_inv s" and call: "mem_unspent_outpoints s = (Inr pairs, s')"
  shows "s' = s \<and> fst ` set pairs = {op. is_unspent (mem_ledger s) op}"
proof -
  have key: "cu_outpoint (en_utxo e) = op" if "mem_ledger s op = Some e" for op e
    using inv that by (auto simp: mem_utxo_inv_def keyed_def)
  have "fst ` set pairs =
      (\<lambda>e. cu_outpoint (en_utxo e)) ` {e \<in> set (map snd (mus_inner s)). \<not> cu_is_spent (en_utxo e)}"
    using call [unfolded mem_unspent_outpoints_def prod.inject sum.inject, THEN conjunct1, symmetric]
    by (simp only: set_map set_filter image_image fst_conv)
  also have "\<dots> = {op. is_unspent (mem_ledger s) op}"
    unfolding mem_values [OF inv] is_unspent_def
    using key by (auto simp: image_iff split: option.splits)
  finally show ?thesis using call by (simp add: mem_unspent_outpoints_def)
qed

lemma mem_rollback_ok:
  assumes "mem_utxo_inv s"
  shows "mem_utxo_rollback_above a s = (r, s') \<Longrightarrow>
    mem_utxo_inv s' \<and> mem_ledger s' = roll_back a (mem_ledger s)"
proof -
  assume call: "mem_utxo_rollback_above a s = (r, s')"
  have d: "distinct (map fst (mus_inner s))" using assms by (simp add: mem_utxo_inv_def)
  have inner: "mus_inner s' = map (\<lambda>p. (fst p, unspend_above a (snd p)))
      (filter (\<lambda>p. cu_height (en_utxo (snd p)) \<le> a) (mus_inner s))"
    using call by (auto simp: mem_utxo_rollback_above_def Let_def unspend_above_def)
  have led: "mem_ledger s' = roll_back a (mem_ledger s)"
    by (rule ext) (simp add: mem_ledger_def inner map_of_map_snd roll_back_def
        map_of_filter_snd [OF d, of "\<lambda>e. cu_height (en_utxo e) \<le> a"] split: option.splits)
  moreover have "distinct (map fst (mus_inner s'))"
    using distinct_keys_filter [OF d] by (simp add: inner comp_def)
  ultimately show ?thesis using assms by (auto simp: mem_utxo_inv_def)
qed

lemma max_by_height_in: "max_by_height ps = Some q \<Longrightarrow> q \<in> set ps"
  by (induction ps arbitrary: q) (auto split: option.splits if_splits)

lemma max_by_height_None: "max_by_height ps = None \<longleftrightarrow> ps = []"
  by (cases ps) (auto split: option.splits)

lemma max_by_height_max: "max_by_height ps = Some q \<Longrightarrow> p \<in> set ps \<Longrightarrow> fst p \<le> fst q"
  by (induction ps arbitrary: q)
    (fastforce split: option.splits if_splits simp: max_by_height_None)+

lemma mem_blocks_update:
  "mem_block_inv s \<Longrightarrow> mem_store_block h x raw s = (r, s') \<Longrightarrow>
   mem_block_inv s' \<and> mem_blocks s' = (mem_blocks s)(h \<mapsto> (x, raw)) \<and> mbs_tip s' = mbs_tip s"
  by (auto simp: mem_store_block_def mem_block_inv_def mem_blocks_def distinct_update)

lemma mem_block_rollback_ok:
  assumes "mem_block_inv s" and call: "mem_block_rollback_above a s = (r, s')"
  shows "r = Inr () \<and> mem_block_inv s'
    \<and> mem_blocks s' = (\<lambda>h. if h \<le> a then mem_blocks s h else None)
    \<and> (\<forall>t. mbs_tip s' = Some t \<longrightarrow> mbs_tip s = Some t
         \<or> (st_height t \<le> a \<and> map_option fst (mem_blocks s (st_height t)) = Some (st_hash t)))"
proof -
  have d: "distinct (map fst (mbs_blocks s))" using assms(1) by (simp add: mem_block_inv_def)
  have "mbs_blocks s' = filter (\<lambda>p. fst p \<le> a) (mbs_blocks s)" and r: "r = Inr ()"
    using call by (auto simp: mem_block_rollback_above_def Let_def)
  then have blocks: "mem_block_inv s'"
      "mem_blocks s' = (\<lambda>h. if h \<le> a then mem_blocks s h else None)"
    using distinct_keys_filter [OF d]
      map_of_filter_fst [of "\<lambda>h. h \<le> a" "mbs_blocks s"]
    by (auto simp: mem_block_inv_def mem_blocks_def fun_eq_iff)
  have "mbs_tip s = Some t
      \<or> (st_height t \<le> a \<and> map_option fst (mem_blocks s (st_height t)) = Some (st_hash t))"
    if "mbs_tip s' = Some t" for t
  proof (rule disjCI)
    assume "\<not> (st_height t \<le> a \<and> map_option fst (mem_blocks s (st_height t)) = Some (st_hash t))"
    moreover have "(h, v) \<in> set (mbs_blocks s) \<Longrightarrow> map_of (mbs_blocks s) h = Some v" for h v
      using d by simp
    ultimately show "mbs_tip s = Some t"
      using call that
      by (auto simp: mem_block_rollback_above_def mem_blocks_def Let_def
          dest!: max_by_height_in split: option.splits if_splits)
  qed
  with blocks r show ?thesis by blast
qed

section \<open>The fakes honour the contracts\<close>

interpretation mem_utxos: utxo_store mem_utxo_ops mem_ledger mem_utxo_inv
proof (unfold_locales, goal_cases)
  case (1 s)
  then show ?case by (simp add: mem_utxo_inv_def)
next
  case (2 s us x s')
  then show ?case by (simp add: mem_utxo_ops_def mem_upsert_ok)
next
  case (3 s ps h x s')
  then show ?case by (simp add: mem_utxo_ops_def mem_mark_ok)
next
  case (4 s w us s')
  then show ?case by (simp add: mem_utxo_ops_def mem_list_unspent_ok)
next
  case (5 s pairs s')
  then show ?case by (simp add: mem_utxo_ops_def mem_unspent_outpoints_ok)
next
  case (6 s a x s')
  then show ?case by (simp add: mem_utxo_ops_def mem_rollback_ok)
qed

interpretation mem_blockst: block_store mem_block_ops mem_blocks mbs_tip mem_block_inv
proof (unfold_locales, goal_cases)
  case (1 s h x raw y s')
  then show ?case by (simp add: mem_block_ops_def mem_blocks_update)
next
  case (2 s h x raw e s')
  then show ?case by (simp add: mem_block_ops_def mem_store_block_def)
next
  case (3 s rt s')
  then show ?case by (auto simp: mem_block_ops_def mem_synced_tip_def)
next
  case (4 s t y s')
  then show ?case
    by (auto simp: mem_block_ops_def mem_set_synced_tip_def mem_blocks_def mem_block_inv_def)
next
  case (5 s t e s')
  then show ?case by (simp add: mem_block_ops_def mem_set_synced_tip_def)
next
  case (6 s h rx s')
  then show ?case by (auto simp: mem_block_ops_def mem_block_hash_at_def mem_blocks_def)
next
  case (7 s a r s')
  then have "mem_block_rollback_above a s = (r, s')" by (simp add: mem_block_ops_def)
  from mem_block_rollback_ok [OF 7(1) this] show ?case by simp
qed

interpretation mock_source: stable_chain_source "mock_chain_ops E" "lib_block_hash E" mcs_chain
  for E
proof (unfold_locales, goal_cases)
  case (1 c rt c')
  then show ?case
    by (cases "mcs_chain c")
      (auto simp: mock_chain_ops_def mock_tip_height_def unat_word_of_nat_u32 split: if_splits)
next
  case (2 h c r c')
  then show ?case by (auto simp: mock_chain_ops_def mock_block_hash_def split: if_splits)
next
  case (3 x c rb c')
  then show ?case
    by (auto simp: mock_chain_ops_def mock_block_def find_Some_iff split: option.splits)
qed

end
