(* ===== verification/Sync_Total.thy ===== *)
theory Sync_Total
  imports Partial_Ledger Sync_Fakes
begin

text \<open>
  When a pass returns at all. \<open>reliable_env\<close> adds to \<open>scan_env\<close> that no backend call fails on
  an argument it has an answer for; then a pass returns \<open>Ok\<close> whenever the node's chain is at
  least as long as the stored one. The in-memory stores and the scripted node are such backends:
  \<open>mem_scan\<close> interprets both locales on them, which makes the correctness of a pass over the
  fakes unconditional.
\<close>

locale reliable_env = scan_env +
  assumes tip_height_returns: "cs_chain c \<noteq> [] \<Longrightarrow> length (cs_chain c) < 2 ^ 32 \<Longrightarrow>
      \<exists>t c'. cs_tip_height C c = (Inr t, c')"
    and block_hash_returns: "unat h < length (cs_chain c) \<Longrightarrow>
      \<exists>x c'. cs_block_hash C h c = (Inr x, c')"
    and block_returns: "b \<in> set (cs_chain c) \<Longrightarrow>
      \<exists>b' c'. cs_block C (lib_block_hash E b) c = (Inr b', c')"
    and upsert_returns: "us_inv s \<Longrightarrow> \<exists>s'. us_upsert_utxos U us s = (Inr (), s')"
    and mark_spent_returns: "us_inv s \<Longrightarrow> \<exists>s'. us_mark_spent U ps h s = (Inr (), s')"
    and unspent_outpoints_returns: "us_inv s \<Longrightarrow> \<exists>pairs s'. us_unspent_outpoints U s = (Inr pairs, s')"
    and us_rollback_returns: "us_inv s \<Longrightarrow> \<exists>s'. us_rollback_above U a s = (Inr (), s')"
    and store_block_returns: "bs_inv z \<Longrightarrow> \<exists>z'. bs_store_block B h x raw z = (Inr (), z')"
    and synced_tip_returns: "bs_inv z \<Longrightarrow> \<exists>t z'. bs_synced_tip B z = (Inr t, z')"
    and set_synced_tip_returns: "bs_inv z \<Longrightarrow> \<exists>z'. bs_set_synced_tip B t z = (Inr (), z')"
    and block_hash_at_returns: "bs_inv z \<Longrightarrow> \<exists>x z'. bs_block_hash_at B h z = (Inr x, z')"
    and bs_rollback_returns: "bs_inv z \<Longrightarrow> \<exists>z'. bs_rollback_above B a z = (Inr (), z')"
begin

lemma node_tip_returns:
  assumes "cs_chain (w_chain w) \<noteq> []" and "length (cs_chain (w_chain w)) < 2 ^ 32"
  obtains t w' where "on_chain (cs_tip_height C) w = (Inr t, w')"
  using tip_height_returns [OF assms] by (auto simp: on_chain_def)

lemma node_hash_returns:
  assumes "unat h < length (cs_chain (w_chain w))"
  obtains x w' where "on_chain (cs_block_hash C h) w = (Inr x, w')"
  using block_hash_returns [OF assms] by (auto simp: on_chain_def)

lemma node_block_returns:
  assumes "b \<in> set (cs_chain (w_chain w))"
  obtains b' w' where "on_chain (cs_block C (lib_block_hash E b)) w = (Inr b', w')"
  using block_returns [OF assms] by (auto simp: on_chain_def)

lemma store_block_call:
  assumes "bs_inv (w_blocks w)"
  obtains w' where "on_blocks (bs_store_block B h x raw) w = (Inr (), w')"
  using store_block_returns [OF assms, of h x raw] by (auto simp: on_blocks_def)

lemma store_hash_call:
  assumes "bs_inv (w_blocks w)"
  obtains w' x where "on_blocks (bs_block_hash_at B h) w = (Inr x, w')"
  using block_hash_at_returns [OF assms, of h] by (auto simp: on_blocks_def)

lemma flush_captured_returns:
  assumes "us_inv (w_utxos w)"
  obtains acc' w' where "flush_captured U acc w = (Inr acc', w')"
  using upsert_returns [OF assms, of "sa_captured acc"]
  by (cases "sa_captured acc = []")
    (fastforce simp: flush_captured_def on_utxos_def Let_def bindS_def)+

lemma flush_spent_returns:
  assumes "us_inv (w_utxos w)"
  obtains acc' w' where "flush_spent U h acc w = (Inr acc', w')"
  using mark_spent_returns [OF assms, of "sa_spent acc" h]
  by (cases "sa_spent acc = []")
    (fastforce simp: flush_spent_def on_utxos_def Let_def bindS_def)+

lemma scan_block_returns:
  assumes eng: "engine_wf eng" and wf: "wf_chain E chain" and n: "n < length chain"
    and inj: "inj_on (lib_block_hash E) (set chain)"
    and inv: "us_inv (w_utxos w)" "bs_inv (w_blocks w)" and chain: "cs_chain (w_chain w) = chain"
  shows "\<exists>acc' w'. scan_block C B U E L eng (word_of_nat n) acc w = (Inr acc', w')"
proof -
  let ?h = "word_of_nat n :: u32" and ?b = "chain ! n"
  have n32: "n < 2 ^ 32" using n wf by (simp add: wf_chain_def)
  then have h: "unat ?h = n" by (rule unat_word_of_nat_u32)
  obtain x w1 where c1: "on_chain (cs_block_hash C ?h) w = (Inr x, w1)"
    using node_hash_returns [of ?h w] h n chain by auto
  then have x: "x = lib_block_hash E ?b" and ch1: "cs_chain (w_chain w1) = chain"
    and st1: "w_blocks w1 = w_blocks w" "w_utxos w1 = w_utxos w"
    using node_hash [OF c1] h chain by auto
  obtain b' w2 where c2: "on_chain (cs_block C x) w1 = (Inr b', w2)"
    unfolding x using node_block_returns [of ?b w1] ch1 n by auto
  have inv2: "bs_inv (w_blocks w2)" using node_block [OF c2] st1 inv by simp
  obtain w3 where c3: "on_blocks (bs_store_block B ?h x (lib_serialize_block E b')) w2 = (Inr (), w3)"
    by (rule store_block_call [OF inv2])
  note w3 = fetch_ok [OF n n32 inj inv(2) chain c1 c2 c3]
  obtain acc1 where c4: "scan_txs E L eng ?h (blk_txdata ?b) (acc\<lparr>sa_captured := [], sa_spent := []\<rparr>) = Inr acc1"
    using scan_txs_returns [OF eng next_block_fresh(1) [OF wf n]] by metis
  have inv3: "us_inv (w_utxos w3)" using w3 inv by simp
  obtain acc2 w4 where c5: "flush_captured U acc1 w3 = (Inr acc2, w4)"
    by (rule flush_captured_returns [OF inv3])
  have inv4: "us_inv (w_utxos w4)" using flush_captured_ok [OF c5 inv3] by simp
  obtain acc3 w5 where c6: "flush_spent U ?h acc2 w4 = (Inr acc3, w5)"
    by (rule flush_spent_returns [OF inv4])
  have b': "b' = ?b" using w3 by simp
  show ?thesis
    by (simp add: scan_block_def c1 c2 c3 [unfolded b'] b' c4 c5 c6)
qed

lemma scan_blocks_returns:
  assumes eng: "engine_wf eng" and wf: "wf_chain E chain"
    and inj: "inj_on (lib_block_hash E) (set chain)"
    and "n \<le> length chain"
    and "us_inv (w_utxos w)" and "bs_inv (w_blocks w)" and "cs_chain (w_chain w) = chain"
  shows "\<exists>acc' w'. scan_blocks C B U E L eng (map word_of_nat [n ..< length chain]) acc w = (Inr acc', w')
    \<and> bs_inv (w_blocks w') \<and> cs_chain (w_chain w') = chain"
  using assms(4-)
proof (induction "length chain - n" arbitrary: n acc w)
  case (Suc d)
  then have n: "n < length chain" and up: "[n ..< length chain] = n # [Suc n ..< length chain]"
    by (simp_all add: upt_conv_Cons)
  obtain acc1 w1 where c1: "scan_block C B U E L eng (word_of_nat n) acc w = (Inr acc1, w1)"
    using scan_block_returns [OF eng wf n inj Suc.prems(2-4)] by blast
  have "n < 2 ^ 32" using n wf by (simp add: wf_chain_def)
  note w1 = scan_block_keeps [OF n this inj Suc.prems(2-4) c1]
  have "d = length chain - Suc n" "Suc n \<le> length chain" using Suc.hyps(2) n by auto
  from Suc.hyps(1) [OF this, of w1 acc1] w1 c1 show ?case by (simp add: up)
qed simp

lemma find_common_ancestor_returns:
  assumes "bs_inv (w_blocks w)" and "unat h < length (cs_chain (w_chain w))"
  shows "\<exists>a w'. find_common_ancestor C B h w = (Inr a, w')"
  using assms
proof (induction "unat h" arbitrary: h w rule: less_induct)
  case less
  obtain at_h w1 where c1: "on_blocks (bs_block_hash_at B h) w = (Inr at_h, w1)"
    by (rule store_hash_call [OF less.prems(1)])
  have w1: "w1 = w" using store_hash [OF c1 less.prems(1)] by simp
  obtain x w2 where c2: "on_chain (cs_block_hash C h) w = (Inr x, w2)"
    by (rule node_hash_returns [OF less.prems(2)])
  note w2 = node_hash [OF c2]
  let ?same = "case at_h of Some stored \<Rightarrow> stored = x | None \<Rightarrow> False"
  let ?w = "case at_h of Some _ \<Rightarrow> w2 | None \<Rightarrow> w"
  have step: "find_common_ancestor C B h w =
      (if ?same then ret h else if h = 0 then ret 0 else find_common_ancestor C B (h - 1)) ?w"
    by (subst find_common_ancestor.simps, cases at_h)
      (simp_all add: bindS_def c1 w1 c2 split del: if_split)
  have "\<exists>a w'. find_common_ancestor C B (h - 1) ?w = (Inr a, w')" if "h \<noteq> 0"
  proof (rule less.hyps)
    have "unat (h - 1) = unat h - 1" "unat h \<noteq> 0"
      using that by (simp_all add: unat_minus_one unat_eq_zero)
    then show "unat (h - 1) < unat h" "unat (h - 1) < length (cs_chain (w_chain ?w))"
      using less.prems(2) w2 by (auto split: option.split)
    show "bs_inv (w_blocks ?w)" using less.prems(1) w2 by (simp split: option.split)
  qed
  then show ?case unfolding step by (cases ?same; cases "h = 0") auto
qed

lemma determine_start_returns:
  assumes inv: "us_inv (w_utxos w)" "bs_inv (w_blocks w)"
    and tip: "bs_tip (w_blocks w) = tip_of E old" and wf: "wf_chain E old"
    and len: "length old \<le> length (cs_chain (w_chain w))"
  shows "\<exists>start reorg w'. determine_start C B U w = (Inr (start, reorg), w')"
proof -
  obtain c z where "bs_synced_tip B (w_blocks w) = (Inr c, z)"
    using synced_tip_returns [OF inv(2)] by blast
  with synced_tip [OF inv(2) this] tip have
    c1: "on_blocks (bs_synced_tip B) w = (Inr (tip_of E old), w)" by (simp add: on_blocks_def)
  show ?thesis
  proof (cases "tip_of E old")
    case None
    then show ?thesis by (simp add: determine_start_def c1)
  next
    case (Some t)
    note t = tip_of_Some [OF Some]
    have "length old - 1 < 2 ^ 32" using wf by (auto simp: wf_chain_def)
    then have "unat (st_height t) = length old - 1" unfolding t(2) by (rule unat_word_of_nat_u32)
    moreover have "length old \<noteq> 0" using t(1) by simp
    ultimately have h: "unat (st_height t) < length (cs_chain (w_chain w))" using len by linarith
    obtain x w1 where c2: "on_chain (cs_block_hash C (st_height t)) w = (Inr x, w1)"
      by (rule node_hash_returns [OF h])
    note w1 = node_hash [OF c2]
    have inv1: "bs_inv (w_blocks w1)" "unat (st_height t) < length (cs_chain (w_chain w1))"
      using inv w1 h by auto
    obtain a w2 where c3: "find_common_ancestor C B (st_height t) w1 = (Inr a, w2)"
      using find_common_ancestor_returns [OF inv1] by blast
    have w2: "w_blocks w2 = w_blocks w1" "w_utxos w2 = w_utxos w1"
      using find_common_ancestor_stores [OF c3 inv1(1)] by auto
    obtain z where "bs_rollback_above B a (w_blocks w1) = (Inr (), z)"
      using bs_rollback_returns [OF inv1(1)] by blast
    then have c4: "on_blocks (bs_rollback_above B a) w2 = (Inr (), w2\<lparr>w_blocks := z\<rparr>)"
      by (simp add: on_blocks_def w2)
    obtain u where "us_rollback_above U a (w_utxos w) = (Inr (), u)"
      using us_rollback_returns [OF inv(1)] by blast
    then have c5: "on_utxos (us_rollback_above U a) (w2\<lparr>w_blocks := z\<rparr>)
        = (Inr (), w2\<lparr>w_blocks := z, w_utxos := u\<rparr>)"
      using w1 by (simp add: on_utxos_def w2)
    show ?thesis by (simp add: determine_start_def c1 Some c2 c3 c4 c5)
  qed
qed

text \<open>
  A pass over reliable backends returns \<open>Ok\<close> once its start is determined, whatever the stores
  hold; and its start is determined when the node's chain is not the shorter one.
\<close>

lemma sync_returns_from_start:
  assumes eng: "engine_wf eng" and wf: "wf_chain E new" and inj: "inj_on (lib_block_hash E) (set new)"
    and chain: "cs_chain (w_chain w) = new" and new: "new \<noteq> []"
    and start: "\<And>w1. w_blocks w1 = w_blocks w \<Longrightarrow> w_utxos w1 = w_utxos w \<Longrightarrow> cs_chain (w_chain w1) = new \<Longrightarrow>
      \<exists>k reorg w2. determine_start C B U w1 = (Inr (word_of_nat k, reorg), w2) \<and> k \<le> length new
        \<and> us_inv (w_utxos w2) \<and> bs_inv (w_blocks w2) \<and> cs_chain (w_chain w2) = new"
  shows "\<exists>summary w'. sync C B U E L eng w = (Inr summary, w')"
proof -
  have len32: "length new < 2 ^ 32" using wf by (simp add: wf_chain_def)
  obtain tip w1 where c1: "on_chain (cs_tip_height C) w = (Inr tip, w1)"
    using node_tip_returns [of w] new len32 chain by auto
  note w1 = node_tip [OF c1, unfolded chain]
  then have tip: "Suc (unat tip) = length new" by blast
  obtain k reorg w2 where c2: "determine_start C B U w1 = (Inr (word_of_nat k, reorg), w2)"
    and kn: "k \<le> length new"
    and inv2: "us_inv (w_utxos w2)" "bs_inv (w_blocks w2)" "cs_chain (w_chain w2) = new"
    using start [of w1] w1 by blast
  note pass = start_range [OF refl kn len32 tip]
  obtain pairs u where c3: "us_unspent_outpoints U (w_utxos w2) = (Inr pairs, u)"
    using unspent_outpoints_returns [OF inv2(1)] by blast
  then have c3: "on_utxos (us_unspent_outpoints U) w2 = (Inr pairs, w2)"
    using unspent_outpoints [OF inv2(1) c3] by (simp add: on_utxos_def)
  let ?acc = "\<lparr>sa_spend_index = fold (\<lambda>(op, wid). AList.update op wid) pairs [],
       sa_summary = default_summary\<lparr>ss_reorg_to := reorg\<rparr>, sa_captured = [], sa_spent = []\<rparr>"
  obtain acc w3 where c4: "scan_blocks C B U E L eng (u32_range (word_of_nat k) tip) ?acc w2 = (Inr acc, w3)"
    and "bs_inv (w_blocks w3)" "cs_chain (w_chain w3) = new"
    using scan_blocks_returns [OF eng wf inj kn inv2, of L ?acc] unfolding pass by blast
  then have inv3: "bs_inv (w_blocks w3)" "unat tip < length (cs_chain (w_chain w3))" using tip by auto
  obtain x w4 where c5: "on_chain (cs_block_hash C tip) w3 = (Inr x, w4)"
    by (rule node_hash_returns [OF inv3(2)])
  have "bs_inv (w_blocks w4)" using node_hash [OF c5] inv3 by simp
  from set_synced_tip_returns [OF this] obtain z where
    c6: "bs_set_synced_tip B \<lparr>st_height = tip, st_hash = x\<rparr> (w_blocks w4) = (Inr (), z)" by blast
  show ?thesis
    by (simp add: sync_def c1 c2 c3 c4 [unfolded pass] pass c5 c6 Let_def advance_cursor_def on_blocks_def bindS_def)
qed

lemma sync_returns:
  assumes eng: "engine_wf eng" and inv: "us_inv (w_utxos w)" "bs_inv (w_blocks w)"
    and at: "synced E L eng old (bs_blocks (w_blocks w)) (bs_tip (w_blocks w)) (us_ledger (w_utxos w))"
    and chain: "cs_chain (w_chain w) = new" and wf: "wf_chain E new"
    and inj: "inj_on (lib_block_hash E) (set new)" and link: "linked E old new"
    and len: "new \<noteq> []" "length old \<le> length new"
  shows "\<exists>summary w'. sync C B U E L eng w = (Inr summary, w')"
proof (rule sync_returns_from_start [OF eng wf inj chain len(1)], goal_cases)
  case w1: (1 w1)
  have inv1: "us_inv (w_utxos w1)" "bs_inv (w_blocks w1)"
      "synced E L eng old (bs_blocks (w_blocks w1)) (bs_tip (w_blocks w1)) (us_ledger (w_utxos w1))"
    using inv at w1 by simp_all
  have "bs_tip (w_blocks w1) = tip_of E old" "wf_chain E old" "length old \<le> length (cs_chain (w_chain w1))"
    using inv1 len w1 by (auto simp: synced_def)
  from determine_start_returns [OF inv1(1,2) this(1,2)] this(3) obtain start reorg w2 where
    c2: "determine_start C B U w1 = (Inr (start, reorg), w2)" by blast
  obtain k where "fork_at E old new k" "start = word_of_nat k" "us_inv (w_utxos w2)" "bs_inv (w_blocks w2)"
      "cs_chain (w_chain w2) = new"
    using determine_start_ok [OF inv1 w1(3) link c2] by blast
  then show ?case using c2 by (auto simp: fork_at_def)
qed

end

section \<open>The fakes are reliable\<close>

interpretation mem_scan: scan_env mem_utxo_ops mem_ledger mem_utxo_inv
    mem_block_ops mem_blocks mbs_tip mem_block_inv "mock_chain_ops E" E mcs_chain
  for E
  by unfold_locales

interpretation mem_reliable: reliable_env mem_utxo_ops mem_ledger mem_utxo_inv
    mem_block_ops mem_blocks mbs_tip mem_block_inv "mock_chain_ops E" E mcs_chain
  for E
proof (unfold_locales, goal_cases)
  case (1 c)
  then show ?case by (auto simp: mock_chain_ops_def mock_tip_height_def)
next
  case (2 h c)
  then show ?case by (simp add: mock_chain_ops_def mock_block_hash_def)
next
  case (3 b c)
  then have "find (\<lambda>b'. lib_block_hash E b' = lib_block_hash E b) (mcs_chain c) \<noteq> None"
    by (auto simp: find_None_iff)
  then show ?case by (auto simp: mock_chain_ops_def mock_block_def)
qed (simp_all add: mem_utxo_ops_def mem_block_ops_def mem_upsert_utxos_def mem_mark_spent_def
    mem_unspent_outpoints_def mem_utxo_rollback_above_def mem_store_block_def mem_synced_tip_def
    mem_set_synced_tip_def mem_block_hash_at_def mem_block_rollback_above_def Let_def)

end
