(* ===== verification/Sync_Failure.thy ===== *)
theory Sync_Failure
  imports Sync_Total
begin

text \<open>
  What a failing pass leaves behind. Whatever call fails, and wherever in the pass, the cursor
  afterwards is the one before the pass or, when the pass rolled back first, names a block the
  store held: a failed pass never claims blocks as scanned. No assumption on the node's answers
  is needed.
\<close>

lemma bindS_InlE:
  assumes "bindS m f s = (Inl e, s'')"
  obtains "m s = (Inl e, s'')" | a s' where "m s = (Inr a, s')" and "f a s' = (Inl e, s'')"
  using assms by (auto simp: bindS_def split: prod.splits sum.splits)

lemma on_chain_frame: "on_chain m w = (r, w') \<Longrightarrow> w_blocks w' = w_blocks w \<and> w_utxos w' = w_utxos w"
  by (auto elim!: on_chainE)

lemma on_utxos_frame: "on_utxos m w = (r, w') \<Longrightarrow> w_blocks w' = w_blocks w \<and> w_chain w' = w_chain w"
  by (auto elim!: on_utxosE)

lemma flush_captured_frame: "flush_captured U acc w = (r, w') \<Longrightarrow> w_blocks w' = w_blocks w"
  by (auto simp: flush_captured_def Let_def bindS_def split: if_splits prod.splits sum.splits
      dest: on_utxos_frame)

lemma flush_spent_frame: "flush_spent U h acc w = (r, w') \<Longrightarrow> w_blocks w' = w_blocks w"
  by (auto simp: flush_spent_def Let_def bindS_def split: if_splits prod.splits sum.splits
      dest: on_utxos_frame)

text \<open>The cursor before (\<open>tip\<close>, over the stored blocks \<open>bl\<close>) and after a failure.\<close>

definition cursor_kept ::
    "synced_tip option \<Rightarrow> (u32 \<rightharpoonup> (block_hash \<times> u8 list)) \<Rightarrow> synced_tip option \<Rightarrow> bool" where
  "cursor_kept tip bl tip' \<longleftrightarrow> (\<forall>t. tip' = Some t \<longrightarrow> tip = Some t \<or>
     (\<exists>t0. tip = Some t0 \<and> st_height t \<le> st_height t0
       \<and> map_option fst (bl (st_height t)) = Some (st_hash t)))"

lemma cursor_kept_refl [simp]: "cursor_kept tip bl tip"
  by (simp add: cursor_kept_def)

context block_store
begin

lemma scan_block_cursor:
  assumes "bs_inv (w_blocks w)" and "scan_block C B U E L eng h acc w = (r, w')"
  shows "bs_tip (w_blocks w') = bs_tip (w_blocks w) \<and> (\<forall>a. r = Inr a \<longrightarrow> bs_inv (w_blocks w'))"
proof -
  obtain x w1 where c1: "on_chain (cs_block_hash C h) w = (x, w1)" by fastforce
  have w1: "w_blocks w1 = w_blocks w" using on_chain_frame [OF c1] by simp
  show ?thesis
  proof (cases x)
    case (Inl e)
    with c1 assms w1 show ?thesis by (auto simp: scan_block_def)
  next
    case (Inr hash)
    obtain y w2 where c2: "on_chain (cs_block C hash) w1 = (y, w2)" by fastforce
    have w2: "w_blocks w2 = w_blocks w" using on_chain_frame [OF c2] w1 by simp
    show ?thesis
    proof (cases y)
      case (Inl e)
      with c1 c2 Inr assms w2 show ?thesis by (auto simp: scan_block_def)
    next
      case y: (Inr blk)
      obtain z w3 where c3: "on_blocks (bs_store_block B h hash (lib_serialize_block E blk)) w2 = (z, w3)"
        by fastforce
      have tip: "bs_tip (w_blocks w3) = bs_tip (w_blocks w) \<and> (\<forall>u. z = Inr u \<longrightarrow> bs_inv (w_blocks w3))"
        using c3 w2 assms(1) store_block store_block_err
        by (cases z) (auto elim!: on_blocksE)
      have "w_blocks w' = w_blocks w3 \<and> (\<forall>a. r = Inr a \<longrightarrow> (\<exists>u. z = Inr u))"
        using assms(2) c1 c2 c3 Inr y
        by (auto simp: scan_block_def bindS_def split: prod.splits sum.splits
            dest!: flush_captured_frame flush_spent_frame)
      with tip show ?thesis by auto
    qed
  qed
qed

lemma scan_blocks_cursor:
  "bs_inv (w_blocks w) \<Longrightarrow> scan_blocks C B U E L eng hs acc w = (r, w') \<Longrightarrow>
   bs_tip (w_blocks w') = bs_tip (w_blocks w) \<and> (\<forall>a. r = Inr a \<longrightarrow> bs_inv (w_blocks w'))"
proof (induction hs arbitrary: acc w)
  case (Cons h hs)
  obtain x w1 where c1: "scan_block C B U E L eng h acc w = (x, w1)" by fastforce
  note w1 = scan_block_cursor [OF Cons.prems(1) c1]
  show ?case
  proof (cases x)
    case (Inl e)
    then show ?thesis using c1 w1 Cons.prems by auto
  next
    case (Inr a)
    then show ?thesis using c1 w1 Cons.prems Cons.IH [of w1 a] by auto
  qed
qed simp

lemma find_common_ancestor_frame:
  assumes "bs_inv (w_blocks w)" and "find_common_ancestor C B h w = (r, w')"
  shows "w_blocks w' = w_blocks w \<and> (\<forall>a. r = Inr a \<longrightarrow> a \<le> h)"
  using assms
proof (induction "unat h" arbitrary: h w rule: less_induct)
  case less
  obtain x w1 where c1: "on_blocks (bs_block_hash_at B h) w = (x, w1)" by fastforce
  have w1: "w1 = w" using block_hash_at less.prems(1) c1 by (auto elim!: on_blocksE)
  obtain y w2 where c2: "on_chain (cs_block_hash C h) w = (y, w2)" by fastforce
  have w2: "w_blocks w2 = w_blocks w" using on_chain_frame [OF c2] by simp
  have IH: "w_blocks w' = w_blocks v \<and> (\<forall>a. r = Inr a \<longrightarrow> a \<le> h)"
    if "h \<noteq> 0" "w_blocks v = w_blocks w" "find_common_ancestor C B (h - 1) v = (r, w')" for v
  proof -
    have "unat (h - 1) < unat h" using that(1) by (simp add: measure_unat)
    from less.hyps [OF this _ that(3)] less.prems(1) that(2)
    have "w_blocks w' = w_blocks v \<and> (\<forall>a. r = Inr a \<longrightarrow> a \<le> h - 1)" by simp
    moreover have "h - 1 \<le> h" using \<open>unat (h - 1) < unat h\<close> by (simp add: word_le_nat_alt)
    ultimately show ?thesis by (auto intro: order_trans)
  qed
  show ?case
    using less.prems(2) c1 c2 w1 w2 IH [of w] IH [of w2]
    by (subst (asm) find_common_ancestor.simps)
      (auto simp: bindS_def split: sum.splits option.splits prod.splits if_splits)
qed

text \<open>The start of a pass moves the cursor only by rolling back.\<close>

lemma determine_start_cursor:
  assumes inv: "bs_inv (w_blocks w)" and call: "determine_start C B U w = (r, w')"
  shows "cursor_kept (bs_tip (w_blocks w)) (bs_blocks (w_blocks w)) (bs_tip (w_blocks w'))
    \<and> (\<forall>a. r = Inr a \<longrightarrow> bs_inv (w_blocks w'))"
proof -
  obtain x w1 where c1: "on_blocks (bs_synced_tip B) w = (x, w1)" by fastforce
  have w1: "w1 = w" and tip: "\<forall>t. x = Inr t \<longrightarrow> t = bs_tip (w_blocks w)"
    using c1 synced_tip [OF inv] by (auto elim!: on_blocksE)
  show ?thesis
  proof (cases "\<exists>t. x = Inr (Some t)")
    case False
    then show ?thesis using call c1 w1 inv
      by (auto simp: determine_start_def bindS_def split: sum.splits option.splits)
  next
    case True
    then obtain t where x: "x = Inr (Some t)" by blast
    obtain y w2 where c2: "on_chain (cs_block_hash C (st_height t)) w = (y, w2)" by fastforce
    have w2: "w_blocks w2 = w_blocks w" using on_chain_frame [OF c2] by simp
    obtain z w3 where c3: "find_common_ancestor C B (st_height t) w2 = (z, w3)" by fastforce
    have w3: "w_blocks w3 = w_blocks w" "\<forall>a. z = Inr a \<longrightarrow> a \<le> st_height t"
      using find_common_ancestor_frame [OF _ c3] inv w2 by auto
    have roll: "cursor_kept (bs_tip (w_blocks w)) (bs_blocks (w_blocks w)) (bs_tip (w_blocks w4))
        \<and> (\<forall>u. v = Inr u \<longrightarrow> bs_inv (w_blocks w4))"
      if "z = Inr a" "on_blocks (bs_rollback_above B a) w3 = (v, w4)" for a v w4
    proof -
      from that(2) w3(1) have "bs_rollback_above B a (w_blocks w) = (v, w_blocks w4)"
        by (auto elim!: on_blocksE)
      note rolled = bs_rollback [OF inv this]
      have old: "bs_tip (w_blocks w) = Some t" and le: "a \<le> st_height t"
        using tip x w3(2) that(1) by auto
      have "cursor_kept (bs_tip (w_blocks w)) (bs_blocks (w_blocks w)) (bs_tip (w_blocks w4))"
        unfolding cursor_kept_def using rolled old order_trans [OF _ le] by blast
      with rolled show ?thesis by blast
    qed
    show ?thesis
    proof (cases z)
      case (Inl e)
      then show ?thesis using call c1 w1 c2 w2 c3 w3 x inv
        by (auto simp: determine_start_def bindS_def split: sum.splits if_splits)
    next
      case (Inr a)
      obtain v w4 where c4: "on_blocks (bs_rollback_above B a) w3 = (v, w4)" by fastforce
      from roll [OF Inr c4] show ?thesis using call c1 w1 c2 w2 c3 x Inr c4 inv
        by (auto simp: determine_start_def bindS_def split: sum.splits if_splits prod.splits
            dest!: on_utxos_frame)
    qed
  qed
qed

lemma sync_failure_cursor:
  assumes inv: "bs_inv (w_blocks w)" and call: "sync C B U E L eng w = (Inl f, w')"
  shows "cursor_kept (bs_tip (w_blocks w)) (bs_blocks (w_blocks w)) (bs_tip (w_blocks w'))"
proof -
  obtain x w1 where c1: "on_chain (cs_tip_height C) w = (x, w1)" by fastforce
  have w1: "w_blocks w1 = w_blocks w" using on_chain_frame [OF c1] by simp
  obtain y w2 where c2: "determine_start C B U w1 = (y, w2)" by fastforce
  have w2: "cursor_kept (bs_tip (w_blocks w)) (bs_blocks (w_blocks w)) (bs_tip (w_blocks w2))"
      "\<forall>a. y = Inr a \<longrightarrow> bs_inv (w_blocks w2)"
    using determine_start_cursor [OF _ c2] inv w1 by auto
  obtain z w3 where c3: "on_utxos (us_unspent_outpoints U) w2 = (z, w3)" by fastforce
  have w3: "w_blocks w3 = w_blocks w2" using on_utxos_frame [OF c3] by simp
  show ?thesis
  proof (cases "(\<exists>tip. x = Inr tip) \<and> (\<exists>p. y = Inr p) \<and> (\<exists>pairs. z = Inr pairs)")
    case False
    then show ?thesis using call c1 c2 c3 w1 w2 w3
      by (cases x; cases y; cases z) (auto simp: sync_def bindS_def Let_def split: prod.splits)
  next
    case True
    then obtain tip start reorg pairs where
      ok: "x = Inr tip" "y = Inr (start, reorg)" "z = Inr pairs" by (metis surj_pair)
    let ?start = "clamp_start start tip"
    let ?acc = "\<lparr>sa_spend_index = fold (\<lambda>(op, wid). AList.update op wid) pairs [],
       sa_summary = default_summary\<lparr>ss_reorg_to := reorg\<rparr>, sa_captured = [], sa_spent = []\<rparr>"
    obtain s w4 where c4: "scan_blocks C B U E L eng (u32_range ?start tip) ?acc w3 = (s, w4)" by fastforce
    have w4: "bs_tip (w_blocks w4) = bs_tip (w_blocks w2)" "\<forall>a. s = Inr a \<longrightarrow> bs_inv (w_blocks w4)"
      using scan_blocks_cursor [OF _ c4] w2 w3 ok by auto
    have "bs_tip (w_blocks w') = bs_tip (w_blocks w2)"
    proof (cases s)
      case (Inl e)
      then show ?thesis using call c1 c2 c3 c4 w4 ok by (simp add: sync_def Let_def)
    next
      case (Inr acc)
      then have "bs_inv (w_blocks w4)" using w4 by simp
      then show ?thesis using call c1 c2 c3 c4 w4 ok Inr set_synced_tip_err
        by (auto simp: sync_def Let_def advance_cursor_def elim!: bindS_InlE on_blocksE
            dest!: on_chain_frame split: if_splits)
    qed
    then show ?thesis using w2 by simp
  qed
qed

end

end
