(* ===== verification/Sync_Register.thy ===== *)
theory Sync_Register
  imports Sync_Block
begin

text \<open>
  Registration of wallets (\<open>ScanEngine::new\<close>, \<open>register_wallet\<close>): the invariant of the script
  index. Every entry names a registered wollet and a chain and index at which that wollet's own
  address has the indexed script, so what the scan records about an output is enough to derive its
  address again.
\<close>

definition index_sound :: "('d, 'k, 'w) lwk_lib \<Rightarrow> ('d, 'k, 'w) scan_engine \<Rightarrow> bool" where
  "index_sound L eng \<longleftrightarrow> (\<forall>s e. map_of (eng_index eng) s = Some e \<longrightarrow>
     se_wollet_idx e < length (eng_wollets eng)
     \<and> (\<exists>a. address L (eng_wollets eng ! se_wollet_idx e) (se_chain e) (se_wildcard_index e) = Inr a
          \<and> ad_script_pubkey a = s))"

text \<open>The engines the constructor and \<open>register_wallet\<close> can produce, failed registrations included.\<close>

inductive engine_built :: "('d, 'k, 'w) lwk_lib \<Rightarrow> ('d, 'k, 'w) scan_engine \<Rightarrow> bool"
  for L :: "('d, 'k, 'w) lwk_lib" where
  built_new: "engine_built L engine_new"
| built_register:
    "engine_built L eng \<Longrightarrow> register_wallet L i wollet gap eng = (r, eng') \<Longrightarrow> engine_built L eng'"

section \<open>The index\<close>

lemma distinct_index_scripts:
  "distinct (map fst m) \<Longrightarrow> distinct (map fst (index_scripts i wx ss m))"
  by (induction i wx ss m rule: index_scripts.induct) (auto simp: distinct_update)

lemma index_scripts_other:
  "s \<notin> fst ` set ss \<Longrightarrow> map_of (index_scripts i wx ss m) s = map_of m s"
  by (induction i wx ss m rule: index_scripts.induct) auto

lemma index_scripts_entry:
  "s \<in> fst ` set ss \<Longrightarrow> \<exists>ch widx. (s, ch, widx) \<in> set ss \<and> map_of (index_scripts i wx ss m) s =
     Some \<lparr>se_wallet_id = i, se_chain = ch, se_wildcard_index = widx, se_wollet_idx = wx\<rparr>"
proof (induction i wx ss m rule: index_scripts.induct)
  case (2 i wx spk ch widx rest m)
  show ?case
  proof (cases "s \<in> fst ` set rest")
    case True
    then show ?thesis using "2.IH" by fastforce
  next
    case False
    then show ?thesis using "2.prems" by (auto simp: index_scripts_other)
  qed
qed simp

lemma dom_index_scripts: "dom (map_of (index_scripts i wx ss m)) = fst ` set ss \<union> dom (map_of m)"
  by (induction i wx ss m rule: index_scripts.induct) auto

lemma length_index_scripts:
  assumes "distinct (map fst m)" and "distinct (map fst ss)" and "fst ` set ss \<inter> fst ` set m = {}"
  shows "length (index_scripts i wx ss m) = length m + length ss"
proof -
  have "length (index_scripts i wx ss m) = card (dom (map_of (index_scripts i wx ss m)))"
    using distinct_card [OF distinct_index_scripts [OF assms(1), of i wx ss]]
    by (simp add: dom_map_of_conv_image_fst)
  also have "\<dots> = card (fst ` set ss \<union> fst ` set m)"
    by (simp only: dom_index_scripts) (simp add: dom_map_of_conv_image_fst)
  also have "\<dots> = card (fst ` set ss) + card (fst ` set m)"
    by (rule card_Un_disjoint) (use assms(3) in auto)
  finally show ?thesis
    using distinct_card [OF assms(1)] distinct_card [OF assms(2)] by simp
qed

section \<open>Registration\<close>

text \<open>The two outcomes: the index grows by the watched scripts, or only the wollet list does.\<close>

lemma register_wallet_cases:
  assumes "register_wallet L i wollet gap eng = (r, eng')"
  obtains (ok) ss where "watched_scripts L wollet gap = Inr ss" and "r = Inr ()"
      and "eng' = \<lparr>eng_index = index_scripts i (length (eng_wollets eng)) ss (eng_index eng),
                   eng_wollets = eng_wollets eng @ [wollet]\<rparr>"
  | (failed) f where "watched_scripts L wollet gap = Inl f" and "r = map_fault Wollet (Inl f)"
      and "eng' = \<lparr>eng_index = eng_index eng, eng_wollets = eng_wollets eng @ [wollet]\<rparr>"
  using assms
  by (cases eng; cases "watched_scripts L wollet gap"; cases r)
    (auto simp: register_wallet_def Let_def split: sum.splits simp: map_fault_def split: fault.splits)

lemma watched_script_address:
  assumes "watched_scripts L w gap = Inr ss" and "(s, ch, i) \<in> set ss"
  shows "\<exists>a. address L w ch i = Inr a \<and> ad_script_pubkey a = s"
  using set_watched_scripts [OF assms(1) [unfolded watched_scripts_def]] assms(2) by auto

lemma engine_wf_new: "engine_wf engine_new"
  by (simp add: engine_wf_def engine_new_def)

lemma engine_wf_distinct: "engine_wf eng \<Longrightarrow> distinct (map fst (eng_index eng))"
  by (simp add: engine_wf_def)

lemma engine_wfI:
  assumes "distinct (map fst (eng_index eng))"
    and "\<And>s e. map_of (eng_index eng) s = Some e \<Longrightarrow> se_wollet_idx e < length (eng_wollets eng)"
  shows "engine_wf eng"
  using assms by (auto simp: engine_wf_def)

lemma register_preserves:
  assumes eng: "engine_wf eng" "index_sound L eng"
    and call: "register_wallet L i wollet gap eng = (r, eng')"
  shows "engine_wf eng' \<and> index_sound L eng'"
  using call
proof (cases rule: register_wallet_cases)
  case (ok ss)
  have entry: "se_wollet_idx e < length (eng_wollets eng')
      \<and> (\<exists>a. address L (eng_wollets eng' ! se_wollet_idx e) (se_chain e) (se_wildcard_index e) = Inr a
          \<and> ad_script_pubkey a = s)"
    if "map_of (eng_index eng') s = Some e" for s e
  proof (cases "s \<in> fst ` set ss")
    case True
    from index_scripts_entry [OF this, of i "length (eng_wollets eng)" "eng_index eng"] obtain ch widx where
      w: "(s, ch, widx) \<in> set ss" and "map_of (eng_index eng') s =
        Some \<lparr>se_wallet_id = i, se_chain = ch, se_wildcard_index = widx, se_wollet_idx = length (eng_wollets eng)\<rparr>"
      using ok(3) by auto
    with that have "e = \<lparr>se_wallet_id = i, se_chain = ch, se_wildcard_index = widx,
        se_wollet_idx = length (eng_wollets eng)\<rparr>" by simp
    then show ?thesis using watched_script_address [OF ok(1) w] ok(3) by simp
  next
    case False
    with that ok(3) have "map_of (eng_index eng) s = Some e" by (simp add: index_scripts_other)
    with eng(2) ok(3) show ?thesis by (fastforce simp: index_sound_def nth_append)
  qed
  have "distinct (map fst (eng_index eng'))"
    using ok(3) by (simp add: distinct_index_scripts engine_wf_distinct [OF eng(1)])
  then show ?thesis using entry by (auto simp: index_sound_def intro!: engine_wfI)
next
  case (failed f)
  then show ?thesis using eng by (fastforce simp: index_sound_def engine_wf_def nth_append)
qed

lemma engine_built_sound: "engine_built L eng \<Longrightarrow> engine_wf eng \<and> index_sound L eng"
proof (induction rule: engine_built.induct)
  case built_new
  then show ?case using engine_wf_new by (simp add: index_sound_def) (simp add: engine_new_def)
next
  case (built_register eng i wollet gap r eng')
  then show ?case using register_preserves by blast
qed

end
