(* ===== verification/Sync_Properties.thy ===== *)
theory Sync_Properties
  imports Sync_Failure Ledger_Meaning Sync_Register
begin

text \<open>
  The properties of the scan pipeline over the model's own backends: passes over the fakes,
  sequences of passes while the node's chain grows and reorganises, and what a wallet then lists.
\<close>

section \<open>Sequences of passes\<close>

type_synonym mem_world = "(mock_chain_source, mem_block_store, mem_utxo_store) world"

abbreviation mem_sync ::
    "elements_lib \<Rightarrow> ('d, 'k, 'w) lwk_lib \<Rightarrow> ('d, 'k, 'w) scan_engine
     \<Rightarrow> (mem_world, sync_error, sync_summary) act" where
  "mem_sync E \<equiv> sync (mock_chain_ops E) mem_block_ops mem_utxo_ops E"

abbreviation mem_synced ::
    "elements_lib \<Rightarrow> ('d, 'k, 'w) lwk_lib \<Rightarrow> ('d, 'k, 'w) scan_engine \<Rightarrow> block list
     \<Rightarrow> mem_world \<Rightarrow> bool" where
  "mem_synced E L eng chain w \<equiv> mem_utxo_inv (w_utxos w) \<and> mem_block_inv (w_blocks w)
     \<and> synced E L eng chain (mem_blocks (w_blocks w)) (mbs_tip (w_blocks w)) (mem_ledger (w_utxos w))"

text \<open>
  The states of a process that starts with empty stores and runs passes, while the node moves to
  any chain in between. The second argument is the chain of the last pass.
\<close>

inductive sync_run ::
    "elements_lib \<Rightarrow> ('d, 'k, 'w) lwk_lib \<Rightarrow> ('d, 'k, 'w) scan_engine \<Rightarrow> mem_world \<Rightarrow> block list
     \<Rightarrow> bool"
  for E :: elements_lib and L :: "('d, 'k, 'w) lwk_lib" and eng :: "('d, 'k, 'w) scan_engine" where
  run_start: "sync_run E L eng \<lparr>w_chain = c, w_blocks = mem_block_new, w_utxos = mem_utxo_new\<rparr> []"
| run_node: "sync_run E L eng w old \<Longrightarrow> sync_run E L eng (w\<lparr>w_chain := c\<rparr>) old"
| run_pass: "sync_run E L eng w old \<Longrightarrow> mcs_chain (w_chain w) = new \<Longrightarrow> wf_chain E new
    \<Longrightarrow> inj_on (lib_block_hash E) (set new) \<Longrightarrow> linked E old new
    \<Longrightarrow> mem_sync E L eng w = (Inr summary, w') \<Longrightarrow> sync_run E L eng w' new"

lemma mem_synced_empty:
  "mem_synced E L eng [] \<lparr>w_chain = c, w_blocks = mem_block_new, w_utxos = mem_utxo_new\<rparr>"
  by (simp add: mem_utxo_inv_def mem_block_inv_def mem_utxo_new_def mem_block_new_def synced_def
      wf_chain_def blocks_match_def tip_of_def mem_ledger_def keyed_def)

lemma sync_run_synced: "sync_run E L eng w chain \<Longrightarrow> engine_wf eng \<Longrightarrow> mem_synced E L eng chain w"
proof (induction rule: sync_run.induct)
  case (run_start c)
  show ?case by (rule mem_synced_empty)
next
  case (run_node w old c)
  then show ?case by simp
next
  case (run_pass w old new summary w')
  then have "mem_synced E L eng old w" by simp
  then show ?case
    using mem_scan.sync_ok [OF run_pass.prems, of w E L old new summary w'] run_pass.hyps by blast
qed

text \<open>One pass on synced stores: it returns, and the stores are synced with the node's chain.\<close>

lemma mem_pass:
  assumes eng: "engine_wf eng" and w: "mem_synced E L eng old w"
    and chain: "mcs_chain (w_chain w) = new" "wf_chain E new" "inj_on (lib_block_hash E) (set new)"
      "linked E old new" "new \<noteq> []" "length old \<le> length new"
  obtains summary w' where "mem_sync E L eng w = (Inr summary, w')" and "mem_synced E L eng new w'"
    and "mcs_chain (w_chain w') = new"
proof -
  obtain summary w' where call: "mem_sync E L eng w = (Inr summary, w')"
    using mem_reliable.sync_returns [OF eng _ _ _ chain, of L] w by blast
  have "mem_synced E L eng new w' \<and> mcs_chain (w_chain w') = new"
    using mem_scan.sync_ok [OF eng _ _ _ chain(1-4) call] w by blast
  with call that show thesis by blast
qed

section \<open>A concrete chain\<close>

text \<open>
  Data the examples evaluate: a block's hash is its first header byte, a transaction's id its lock
  time; the wallet's scripts are \<open>[0, i]\<close> and \<open>[1, i]\<close> and it can unblind explicit amounts.
\<close>

definition ex_lib :: elements_lib where
  "ex_lib = \<lparr>lib_txid = (\<lambda>t. Txid (ucast (tx_lock_time t))),
     lib_block_hash = (\<lambda>b. BlockHash (case blk_header b of [] \<Rightarrow> 0 | x # _ \<Rightarrow> ucast x)),
     lib_serialize_block = blk_header, lib_serialize_tx = (\<lambda>t. []),
     lib_show_block_hash = (\<lambda>h. ''hash'')\<rparr>"

definition ex_lwk :: "(unit, unit, unit) lwk_lib" where
  "ex_lwk = \<lparr>lwk_parse_descriptor = (\<lambda>s. Inr ()), lwk_build_wollet = (\<lambda>n d. Inr ()),
     lwk_parse_mbk = (\<lambda>s. Inr ()),
     lwk_address = (\<lambda>d i p. Inr \<lparr>ad_script_pubkey = Script [0, ucast i], ad_blinding_pubkey = None\<rparr>),
     lwk_change = (\<lambda>d i p. Inr \<lparr>ad_script_pubkey = Script [1, ucast i], ad_blinding_pubkey = None\<rparr>),
     lwk_try_unblind = (\<lambda>t d. case to_value t of
        ValueExplicit v \<Rightarrow> Inr \<lparr>sec_asset = AssetId 7, sec_asset_bf = 0, sec_value = v, sec_value_bf = 0\<rparr>
      | _ \<Rightarrow> Inl ''no blinding key'')\<rparr>"

definition ex_wollet :: "(unit, unit, unit) elements_wollet" where
  "ex_wollet = \<lparr>ew_inner = (), ew_descriptor = (), ew_master_blinding_key = (),
     ew_network = Liquid, ew_lwk_network = LwkLiquid\<rparr>"

definition ex_engine :: "(unit, unit, unit) scan_engine" where
  "ex_engine = snd (register_wallet ex_lwk (WalletId [1]) ex_wollet 2 engine_new)"

definition ex_out :: "u8 list \<Rightarrow> u64 \<Rightarrow> txout" where
  "ex_out s v = \<lparr>to_asset = AssetNull, to_value = ValueExplicit v, to_nonce = [],
     to_script_pubkey = Script s, to_witness = []\<rparr>"

definition ex_tx :: "u32 \<Rightarrow> outpoint list \<Rightarrow> txout list \<Rightarrow> transaction" where
  "ex_tx n ins outs = \<lparr>tx_version = 2, tx_lock_time = n,
     tx_input = map (\<lambda>p. \<lparr>ti_previous_output = p, ti_body = []\<rparr>) ins, tx_output = outs\<rparr>"

definition ex_old :: "block list" where
  "ex_old =
     [\<lparr>blk_header = [10], blk_txdata = [ex_tx 1 [] [ex_out [0, 0] 100]]\<rparr>,
      \<lparr>blk_header = [11], blk_txdata =
         [ex_tx 2 [OutPoint (Txid 1) 0] [ex_out [1, 1] 60, ex_out [9] 40]]\<rparr>]"

definition ex_new :: "block list" where
  "ex_new =
     [\<lparr>blk_header = [10], blk_txdata = [ex_tx 1 [] [ex_out [0, 0] 100]]\<rparr>,
      \<lparr>blk_header = [21], blk_txdata = [ex_tx 3 [] [ex_out [0, 1] 7]]\<rparr>,
      \<lparr>blk_header = [22], blk_txdata = []\<rparr>]"

definition ex_utxo :: captured_utxo where
  "ex_utxo = \<lparr>cu_wallet_id = WalletId [1], cu_outpoint = OutPoint (Txid 1) 0,
     cu_txout = ex_out [0, 0] 100,
     cu_secrets = \<lparr>sec_asset = AssetId 7, sec_asset_bf = 0, sec_value = 100, sec_value_bf = 0\<rparr>,
     cu_chain = External, cu_wildcard_index = 0, cu_height = 5, cu_is_spent = False\<rparr>"

definition ex_world :: "block list \<Rightarrow> mem_world" where
  "ex_world chain = \<lparr>w_chain = \<lparr>mcs_chain = chain, mcs_broadcast = []\<rparr>,
     w_blocks = mem_block_new, w_utxos = mem_utxo_new\<rparr>"

lemma ex_engine_built: "engine_built ex_lwk ex_engine"
  unfolding ex_engine_def by (rule built_register [OF built_new]) (rule surjective_pairing)

lemma ex_engine_wf: "engine_wf ex_engine"
  using engine_built_sound [OF ex_engine_built] by simp

lemma ex_wf: "wf_chain ex_lib ex_old" "wf_chain ex_lib ex_new"
  by (simp_all add: wf_chain_def all_txs_def ex_old_def ex_new_def ex_tx_def ex_out_def ex_lib_def)

lemma ex_inj: "inj_on (lib_block_hash ex_lib) (set ex_old)" "inj_on (lib_block_hash ex_lib) (set ex_new)"
  by (simp_all add: ex_old_def ex_new_def ex_lib_def)

lemma ex_linked: "linked ex_lib ex_old ex_new"
proof -
  have "i = 0 \<or> i = 1" if "i < min (length ex_old) (length ex_new)" for i
    using that by (auto simp: ex_old_def ex_new_def)
  moreover have "take 1 ex_old = take 1 ex_new" "ex_old ! 0 = ex_new ! 0"
    by (simp_all add: ex_old_def ex_new_def)
  moreover have "lib_block_hash ex_lib (ex_old ! 1) \<noteq> lib_block_hash ex_lib (ex_new ! 1)"
    by (simp add: ex_old_def ex_new_def ex_lib_def)
  ultimately show ?thesis unfolding linked_def by (metis One_nat_def)
qed

lemma linked_Nil [simp]: "linked E [] new" by (simp add: linked_def)

text \<open>A run with one pass over the old chain, after which the node reorganises to the new one.\<close>

lemma ex_run_old:
  obtains w where "sync_run ex_lib ex_lwk ex_engine w ex_old"
    and "mem_synced ex_lib ex_lwk ex_engine ex_old w" and "mcs_chain (w_chain w) = ex_new"
proof -
  have w0: "mem_synced ex_lib ex_lwk ex_engine [] (ex_world ex_old)"
    unfolding ex_world_def by (rule mem_synced_empty)
  have c: "mcs_chain (w_chain (ex_world ex_old)) = ex_old" "ex_old \<noteq> []"
    by (simp_all add: ex_world_def ex_old_def)
  have "length ([] :: block list) \<le> length ex_old" by simp
  from mem_pass [OF ex_engine_wf w0 c(1) ex_wf(1) ex_inj(1) linked_Nil c(2) this] obtain s w where
    call: "mem_sync ex_lib ex_lwk ex_engine (ex_world ex_old) = (Inr s, w)"
    and w: "mem_synced ex_lib ex_lwk ex_engine ex_old w" by metis
  have "sync_run ex_lib ex_lwk ex_engine (ex_world ex_old) []"
    unfolding ex_world_def by (rule run_start)
  from run_pass [OF this c(1) ex_wf(1) ex_inj(1) linked_Nil call]
  have "sync_run ex_lib ex_lwk ex_engine (w\<lparr>w_chain := \<lparr>mcs_chain = ex_new, mcs_broadcast = []\<rparr>\<rparr>) ex_old"
    by (rule run_node)
  then show thesis by (rule that) (use w in simp_all)
qed

section \<open>Listing\<close>

lemma mem_list_distinct:
  assumes inv: "mem_utxo_inv s" and call: "mem_list_unspent i s = (Inr us, s')"
  shows "distinct (map cu_outpoint us)"
proof -
  let ?f = "\<lambda>e. cu_outpoint (en_utxo e)"
  have "map ?f (map snd (mus_inner s)) = map fst (mus_inner s)"
    using inv by (auto simp: mem_utxo_inv_def keyed_def mem_ledger_def)
  then have "distinct (map ?f (map snd (mus_inner s)))"
    using inv unfolding mem_utxo_inv_def by (simp only:)
  from distinct_map_filter [OF this] show ?thesis
    using call by (auto simp: mem_list_unspent_def comp_def)
qed

lemma synced_lists:
  assumes w: "mem_synced E L eng chain w" and call: "mem_list_unspent i (w_utxos w) = (Inr us, s)"
  shows "set us = {u \<in> captured_in E L eng chain. cu_wallet_id u = i \<and> cu_outpoint u \<notin> spent_in chain}"
proof -
  have wf: "wf_chain E chain" and led: "mem_ledger (w_utxos w) = wallet_ledger E L eng chain"
    using w by (auto simp: synced_def)
  have "set us = {u \<in> {u. \<exists>op e. wallet_ledger E L eng chain op = Some e \<and> en_utxo e = u
      \<and> \<not> cu_is_spent u}. cu_wallet_id u = i}"
    using mem_list_unspent_ok [OF _ call] w led by auto
  then show ?thesis by (auto simp: unspent_wallet_ledger [OF wf])
qed

text \<open>What a captured output records about its wallet.\<close>

lemma captured_address:
  assumes eng: "index_sound L eng" and u: "u \<in> captured_in E L eng chain"
  shows "\<exists>w \<in> set (eng_wollets eng). (\<exists>a. address L w (cu_chain u) (cu_wildcard_index u) = Inr a
      \<and> ad_script_pubkey a = cu_script_pubkey u) \<and> unblind L w (cu_txout u) = Inr (cu_secrets u)"
proof -
  from u obtain h tid v t where "capture_of L eng h tid v t = Some u" by (auto simp: captured_in_def)
  then obtain e where e: "map_of (eng_index eng) (to_script_pubkey t) = Some e"
    and unblind: "unblind L (eng_wollets eng ! se_wollet_idx e) t = Inr (cu_secrets u)"
    and fields: "cu_chain u = se_chain e" "cu_wildcard_index u = se_wildcard_index e" "cu_txout u = t"
    by (auto simp: capture_of_def split: option.splits sum.splits)
  from eng e obtain a where "se_wollet_idx e < length (eng_wollets eng)"
    and "address L (eng_wollets eng ! se_wollet_idx e) (se_chain e) (se_wildcard_index e) = Inr a"
    and "ad_script_pubkey a = to_script_pubkey t" by (auto simp: index_sound_def)
  then show ?thesis using unblind fields
    by (intro bexI [of _ "eng_wollets eng ! se_wollet_idx e"]) (auto simp: cu_script_pubkey_def)
qed

section \<open>Passes with nothing to do, and passes that cannot start\<close>

lemma scan_blocks_none: "u32_range a b = [] \<Longrightarrow> scan_blocks C B U E L eng (u32_range a b) acc w = (Inr acc, w)"
  by simp

lemma mem_synced_pass:
  assumes w: "mem_synced E L eng chain w" and node: "mcs_chain (w_chain w) = chain" "chain \<noteq> []"
  shows "mem_sync E L eng w = (Inr default_summary, w)"
proof -
  define m where "m = length chain - 1"
  define t :: u32 where "t = word_of_nat m"
  have len: "length chain < 2 ^ 32" using w by (simp add: synced_def wf_chain_def)
  have m: "m < 2 ^ 32" "m < length chain" "Suc m = length chain" using len node(2) by (auto simp: m_def)
  have t: "unat t = m" unfolding t_def by (rule unat_word_of_nat_u32 [OF m(1)])
  have cursor: "mbs_tip (w_blocks w) = Some \<lparr>st_height = t, st_hash = lib_block_hash E (chain ! m)\<rparr>"
    using w node(2) by (simp add: synced_def tip_of_def last_conv_nth t_def m_def)
  have c1: "on_chain (cs_tip_height (mock_chain_ops E)) w = (Inr t, w)"
    using node m(1) unfolding t_def m_def
    by (simp add: on_chain_def mock_chain_ops_def mock_tip_height_def del: of_nat_diff)
  have c2: "on_blocks (bs_synced_tip mem_block_ops) w =
      (Inr (Some \<lparr>st_height = t, st_hash = lib_block_hash E (chain ! m)\<rparr>), w)"
    by (simp add: on_blocks_def mem_block_ops_def mem_synced_tip_def cursor)
  have c3: "on_chain (cs_block_hash (mock_chain_ops E) t) w = (Inr (lib_block_hash E (chain ! m)), w)"
    using node t m by (simp add: on_chain_def mock_chain_ops_def mock_block_hash_def)
  have c4: "on_blocks (bs_set_synced_tip mem_block_ops
      \<lparr>st_height = t, st_hash = lib_block_hash E (chain ! m)\<rparr>) w = (Inr (), w)"
    using cursor by (cases w; cases "w_blocks w") (simp add: on_blocks_def mem_block_ops_def mem_set_synced_tip_def)
  obtain pairs where c5: "on_utxos (us_unspent_outpoints mem_utxo_ops) w = (Inr pairs, w)"
    by (simp add: on_utxos_def mem_utxo_ops_def mem_unspent_outpoints_def)
  have next_t: "t + 1 = word_of_nat (length chain)"
    using arg_cong [OF m(3), of "word_of_nat :: nat \<Rightarrow> u32"] by (simp add: add.commute t_def)
  have "Suc (unat t) = length chain" using t m(3) by simp
  from start_range [OF next_t order_refl len this]
  have "clamp_start (t + 1) t = t + 1" "u32_range (t + 1) t = []" by simp_all
  moreover have "default_summary\<lparr>ss_reorg_to := None\<rparr> = default_summary" by (simp add: default_summary_def)
  ultimately show ?thesis
    by (simp add: sync_def determine_start_def c1 c2 c3 c4 c5 Let_def advance_cursor_def)
qed

lemma mem_short_node:
  assumes w: "mem_synced E L eng old w" and node: "mcs_chain (w_chain w) = new" "new \<noteq> []"
    and short: "length new < length old"
  shows "mem_sync E L eng w =
    (Inl (Err (ChainSource (''no block at height '' @ dec (length old - 1)))), w)"
proof -
  define m where "m = length old - 1"
  define t :: u32 where "t = word_of_nat m"
  define n :: u32 where "n = word_of_nat (length new - 1)"
  have len: "length old < 2 ^ 32" using w by (simp add: synced_def wf_chain_def)
  then have m: "m < 2 ^ 32" "length new - 1 < 2 ^ 32" "\<not> m < length new" using short by (auto simp: m_def)
  have t: "unat t = m" unfolding t_def by (rule unat_word_of_nat_u32 [OF m(1)])
  have c1: "on_chain (cs_tip_height (mock_chain_ops E)) w = (Inr n, w)"
    using node m unfolding n_def by (simp add: on_chain_def mock_chain_ops_def mock_tip_height_def)
  have "mbs_tip (w_blocks w) = Some \<lparr>st_height = t, st_hash = lib_block_hash E (last old)\<rparr>"
    using w short by (auto simp: synced_def tip_of_def t_def m_def)
  then have c2: "on_blocks (bs_synced_tip mem_block_ops) w =
      (Inr (Some \<lparr>st_height = t, st_hash = lib_block_hash E (last old)\<rparr>), w)"
    by (simp add: on_blocks_def mem_block_ops_def mem_synced_tip_def)
  have c3: "on_chain (cs_block_hash (mock_chain_ops E) t) w =
      (Inl (Err (ChainSource (''no block at height '' @ dec m))), w)"
    using node t m by (simp add: on_chain_def mock_chain_ops_def mock_block_hash_def)
  show ?thesis unfolding m_def [symmetric]
    by (simp add: sync_def determine_start_def c1 c2 c3)
qed

section \<open>The properties\<close>

text \<open>
  C1. For every UTXO store, block store and node that honour their traits: a pass that returns
  Ok on stores synced with a chain leaves them synced with the node's chain (every block stored,
  the cursor at the tip, the UTXO store equal to the wallet ledger of the chain). It rolled back
  to the fork of the two chains and no further, and scanned the blocks above it only.
\<close>

theorem sync_correct:
  assumes "scan_env U us_ledger us_inv B bs_blocks bs_tip bs_inv C E cs_chain"
    and "engine_wf eng" and "us_inv (w_utxos w)" and "bs_inv (w_blocks w)"
    and "synced E L eng old (bs_blocks (w_blocks w)) (bs_tip (w_blocks w)) (us_ledger (w_utxos w))"
    and "cs_chain (w_chain w) = new" and "wf_chain E new"
    and "inj_on (lib_block_hash E) (set new)" and "linked E old new"
    and "sync C B U E L eng w = (Inr summary, w')"
  shows "synced E L eng new (bs_blocks (w_blocks w')) (bs_tip (w_blocks w')) (us_ledger (w_utxos w'))
    \<and> (\<exists>k. fork_at E old new k
        \<and> ss_reorg_to summary = (if k = length old then None else Some (word_of_nat (k - 1)))
        \<and> unat (ss_blocks_scanned summary) = length new - k
        \<and> ss_utxos_captured summary = length (captures_from E L eng new k))"
  using scan_env.sync_ok [OF assms(1,2,3,4,5,6,7,8,9,10)] by blast

theorem sync_correct_witness:
  "\<exists>w s w'. mem_sync ex_lib ex_lwk ex_engine w = (Inr s, w')
    \<and> synced ex_lib ex_lwk ex_engine ex_new (mem_blocks (w_blocks w')) (mbs_tip (w_blocks w'))
        (mem_ledger (w_utxos w'))"
proof -
  obtain w where w: "mem_synced ex_lib ex_lwk ex_engine ex_old w" "mcs_chain (w_chain w) = ex_new"
    by (rule ex_run_old)
  have "ex_new \<noteq> []" "length ex_old \<le> length ex_new" by (simp_all add: ex_old_def ex_new_def)
  then obtain s w' where call: "mem_sync ex_lib ex_lwk ex_engine w = (Inr s, w')"
    using mem_pass [OF ex_engine_wf w ex_wf(2) ex_inj(2) ex_linked] by metis
  show ?thesis
    using sync_correct [OF mem_scan.scan_env_axioms ex_engine_wf _ _ _ w(2) ex_wf(2) ex_inj(2) ex_linked call]
      w(1) call by blast
qed

text \<open>
  C2. Over the in-memory stores and the scripted node a pass always returns Ok when the node's
  chain is not empty, linked to the one already scanned and not shorter than it, and leaves the
  stores synced with it.
\<close>

theorem mem_sync_total:
  assumes "engine_wf eng" and "mem_synced E L eng old w"
    and "mcs_chain (w_chain w) = new" and "wf_chain E new"
    and "inj_on (lib_block_hash E) (set new)" and "linked E old new"
    and "new \<noteq> []" and "length old \<le> length new"
  shows "\<exists>summary w'. mem_sync E L eng w = (Inr summary, w') \<and> mem_synced E L eng new w'"
  using mem_pass [OF assms] by metis

theorem mem_sync_total_witness:
  "\<exists>w summary w'. mem_synced ex_lib ex_lwk ex_engine ex_old w
    \<and> mem_sync ex_lib ex_lwk ex_engine w = (Inr summary, w') \<and> mem_synced ex_lib ex_lwk ex_engine ex_new w'"
proof -
  obtain w where w: "mem_synced ex_lib ex_lwk ex_engine ex_old w" "mcs_chain (w_chain w) = ex_new"
    by (rule ex_run_old)
  have "ex_new \<noteq> []" "length ex_old \<le> length ex_new" by (simp_all add: ex_old_def ex_new_def)
  from mem_sync_total [OF ex_engine_wf w ex_wf(2) ex_inj(2) ex_linked this] w(1) show ?thesis by blast
qed

text \<open>
  C3. After any passes that returned Ok, and reorgs between them, the store lists as unspent for a wallet, each once,
  exactly the outputs of the last scanned chain that pay a watched script of that wallet, can be
  unblinded, and are spent by no input of the chain.
\<close>

theorem listed_utxos_exact:
  assumes "sync_run E L eng w chain" and "engine_wf eng"
    and "mem_list_unspent i (w_utxos w) = (Inr us, s)"
  shows "set us = {u \<in> captured_in E L eng chain. cu_wallet_id u = i \<and> cu_outpoint u \<notin> spent_in chain}
    \<and> distinct (map cu_outpoint us)"
  using synced_lists [OF sync_run_synced [OF assms(1,2)] assms(3)]
    mem_list_distinct [OF _ assms(3)] sync_run_synced [OF assms(1,2)] by blast

theorem listed_utxos_exact_witness:
  "\<exists>w us. sync_run ex_lib ex_lwk ex_engine w ex_old
    \<and> fst (mem_list_unspent (WalletId [1]) (w_utxos w)) = Inr us
    \<and> set us = {u \<in> captured_in ex_lib ex_lwk ex_engine ex_old.
        cu_wallet_id u = WalletId [1] \<and> cu_outpoint u \<notin> spent_in ex_old}"
proof -
  obtain w where w: "sync_run ex_lib ex_lwk ex_engine w ex_old" by (rule ex_run_old)
  obtain us where us: "mem_list_unspent (WalletId [1]) (w_utxos w) = (Inr us, w_utxos w)"
    by (simp add: mem_list_unspent_def)
  from listed_utxos_exact [OF w ex_engine_wf us] w us show ?thesis by auto
qed

text \<open>
  C24. An engine built by the constructor and registrations, failed ones included, only captures
  outputs from which the wallet can be reached again: a registered wallet derives, at the
  recorded chain and index, an address with the output's script, and unblinds the output to the
  recorded secrets.
\<close>

theorem captured_rederivable:
  assumes "engine_built L eng" and "u \<in> captured_in E L eng chain"
  shows "\<exists>w \<in> set (eng_wollets eng).
    (\<exists>a. address L w (cu_chain u) (cu_wildcard_index u) = Inr a \<and> ad_script_pubkey a = cu_script_pubkey u)
    \<and> unblind L w (cu_txout u) = Inr (cu_secrets u)"
  using captured_address [OF _ assms(2)] engine_built_sound [OF assms(1)] by blast

theorem captured_rederivable_witness:
  "\<exists>u w a. u \<in> captured_in ex_lib ex_lwk ex_engine ex_old \<and> w \<in> set (eng_wollets ex_engine)
    \<and> address ex_lwk w (cu_chain u) (cu_wildcard_index u) = Inr a"
proof -
  have "capture_of ex_lwk ex_engine 0 (Txid 1) 0 (ex_out [0, 0] 100) \<noteq> None" by code_simp
  then obtain u where u: "capture_of ex_lwk ex_engine 0 (Txid 1) 0 (ex_out [0, 0] 100) = Some u" by blast
  have "u \<in> captured_in ex_lib ex_lwk ex_engine ex_old"
    unfolding captured_in_def using u
    by (intro CollectI exI [of _ 0] conjI bexI [of _ "ex_tx 1 [] [ex_out [0, 0] 100]"])
      (simp_all add: ex_old_def ex_tx_def ex_lib_def)
  from captured_rederivable [OF ex_engine_built this] this show ?thesis by blast
qed

text \<open>
  Registering a wallet indexes exactly its watched scripts for it, overriding earlier owners
  of the same script and leaving every other script alone; when derivation fails, no script is
  indexed.
\<close>

lemma register_wallet_index:
  assumes "register_wallet L i wollet gap eng = (r, eng')"
  shows "case r of
      Inr _ \<Rightarrow> \<exists>ss. watched_scripts L wollet gap = Inr ss \<and>
        (\<forall>s. if s \<in> fst ` set ss
             then \<exists>ch widx. (s, ch, widx) \<in> set ss \<and> map_of (eng_index eng') s =
               Some \<lparr>se_wallet_id = i, se_chain = ch, se_wildcard_index = widx,
                     se_wollet_idx = length (eng_wollets eng)\<rparr>
             else map_of (eng_index eng') s = map_of (eng_index eng) s)
    | Inl f \<Rightarrow> eng_index eng' = eng_index eng"
  using assms
proof (cases rule: register_wallet_cases)
  case (ok ss)
  then show ?thesis using index_scripts_entry [of _ ss i] index_scripts_other [of _ ss i] by auto
next
  case (failed f)
  then show ?thesis by (cases f) auto
qed

lemma register_wallet_index_witness:
  "\<exists>ss. watched_scripts ex_lwk ex_wollet 2 = Inr ss
     \<and> (\<forall>s. s \<notin> fst ` set ss \<longrightarrow> map_of (eng_index ex_engine) s = None)"
proof -
  obtain r where "register_wallet ex_lwk (WalletId [1]) ex_wollet 2 engine_new = (r, ex_engine)"
    unfolding ex_engine_def by (metis surj_pair snd_conv)
  moreover have "fst (register_wallet ex_lwk (WalletId [1]) ex_wollet 2 engine_new) = Inr ()" by code_simp
  ultimately have "register_wallet ex_lwk (WalletId [1]) ex_wollet 2 engine_new = (Inr (), ex_engine)" by simp
  from register_wallet_index [OF this] show ?thesis by (force simp: engine_new_def split: if_splits)
qed

text \<open>
  C13. A pass that fails, at whatever call and whatever the node answered, leaves a cursor that is
  the old one or, after a rollback, names a block the store held at or below the old cursor: a
  failed pass never marks blocks as scanned.
\<close>

theorem failed_sync_keeps_cursor:
  assumes "block_store B bs_blocks bs_tip bs_inv" and "bs_inv (w_blocks w)"
    and "sync C B U E L eng w = (Inl f, w')"
  shows "cursor_kept (bs_tip (w_blocks w)) (bs_blocks (w_blocks w)) (bs_tip (w_blocks w'))"
  by (rule block_store.sync_failure_cursor [OF assms])

theorem failed_sync_keeps_cursor_witness:
  "\<exists>w f w'. mem_sync ex_lib ex_lwk ex_engine w = (Inl f, w') \<and> mbs_tip (w_blocks w) \<noteq> None
    \<and> cursor_kept (mbs_tip (w_blocks w)) (mem_blocks (w_blocks w)) (mbs_tip (w_blocks w'))"
proof -
  obtain v where v: "mem_synced ex_lib ex_lwk ex_engine ex_old v" by (rule ex_run_old)
  let ?w = "v\<lparr>w_chain := \<lparr>mcs_chain = take 1 ex_new, mcs_broadcast = []\<rparr>\<rparr>"
  have w: "mem_synced ex_lib ex_lwk ex_engine ex_old ?w" "mcs_chain (w_chain ?w) = take 1 ex_new"
    using v by simp_all
  have "take 1 ex_new \<noteq> []" "length (take 1 ex_new) < length ex_old"
    by (simp_all add: ex_new_def ex_old_def)
  from mem_short_node [OF w this] obtain f where
    call: "mem_sync ex_lib ex_lwk ex_engine ?w = (Inl f, ?w)" by blast
  have "mbs_tip (w_blocks ?w) \<noteq> None" using w(1) by (simp add: synced_def tip_of_def ex_old_def)
  moreover have "mem_block_inv (w_blocks ?w)" using w(1) by simp
  from failed_sync_keeps_cursor [OF mem_blockst.block_store_axioms this call]
  have "cursor_kept (mbs_tip (w_blocks ?w)) (mem_blocks (w_blocks ?w)) (mbs_tip (w_blocks ?w))" .
  ultimately show ?thesis using call by blast
qed

text \<open>
  C6. A pass is idempotent: after any passes that returned Ok and reorgs between them, a pass over a
  node that still has the scanned chain returns Ok with nothing scanned, captured or spent and no
  reorg, and changes nothing: not the stores, not the cursor.
\<close>

theorem resync_is_noop:
  assumes "sync_run E L eng w chain" and "engine_wf eng"
    and "mcs_chain (w_chain w) = chain" and "chain \<noteq> []"
  shows "mem_sync E L eng w = (Inr default_summary, w)"
  by (rule mem_synced_pass [OF sync_run_synced [OF assms(1,2)] assms(3,4)])

theorem resync_is_noop_witness:
  "\<exists>w. mem_sync ex_lib ex_lwk ex_engine w = (Inr default_summary, w) \<and> mbs_tip (w_blocks w) \<noteq> None"
proof -
  obtain v where v: "sync_run ex_lib ex_lwk ex_engine v ex_old"
      "mem_synced ex_lib ex_lwk ex_engine ex_old v" by (rule ex_run_old)
  let ?w = "v\<lparr>w_chain := \<lparr>mcs_chain = ex_old, mcs_broadcast = []\<rparr>\<rparr>"
  have "sync_run ex_lib ex_lwk ex_engine ?w ex_old" by (rule run_node [OF v(1)])
  from resync_is_noop [OF this ex_engine_wf] have
    "mem_sync ex_lib ex_lwk ex_engine ?w = (Inr default_summary, ?w)" by (simp add: ex_old_def)
  moreover have "mbs_tip (w_blocks ?w) \<noteq> None" using v(2) by (simp add: synced_def tip_of_def ex_old_def)
  ultimately show ?thesis by blast
qed

text \<open>
  When the node's chain is shorter than the scanned one, the pass fails at its first look at
  the cursor and changes nothing; it does not get to the clamp that is there for this case.
\<close>

lemma shorter_node_fails:
  assumes "sync_run E L eng w old" and "engine_wf eng"
    and "mcs_chain (w_chain w) = new" and "new \<noteq> []" and "length new < length old"
  shows "mem_sync E L eng w =
    (Inl (Err (ChainSource (''no block at height '' @ dec (length old - 1)))), w)"
  by (rule mem_short_node [OF sync_run_synced [OF assms(1,2)] assms(3,4,5)])

lemma shorter_node_fails_witness:
  "\<exists>w. sync_run ex_lib ex_lwk ex_engine w ex_old \<and>
     fst (mem_sync ex_lib ex_lwk ex_engine w) = Inl (Err (ChainSource ''no block at height 1''))"
proof -
  obtain v where v: "sync_run ex_lib ex_lwk ex_engine v ex_old" by (rule ex_run_old)
  let ?w = "v\<lparr>w_chain := \<lparr>mcs_chain = take 1 ex_new, mcs_broadcast = []\<rparr>\<rparr>"
  have run: "sync_run ex_lib ex_lwk ex_engine ?w ex_old" by (rule run_node [OF v])
  have "mcs_chain (w_chain ?w) = take 1 ex_new" "take 1 ex_new \<noteq> []"
      "length (take 1 ex_new) < length ex_old" by (simp_all add: ex_new_def ex_old_def)
  note shorter_node_fails [OF run ex_engine_wf this]
  moreover have "dec (length ex_old - 1) = ''1''" by (simp add: ex_old_def dec.simps digit_char_def)
  ultimately show ?thesis using run by auto
qed

text \<open>
  A store call that captures a spent output again makes it unspent: it is listed again, while
  its recorded spend height stays. The comment in \<open>upsert_utxos\<close> says the spend state is kept.
\<close>

lemma upsert_forgets_spend:
  assumes "mem_utxo_inv s" and "mem_ledger s (cu_outpoint u) = Some e"
    and "cu_is_spent (en_utxo e)" and "\<not> cu_is_spent u"
    and "mem_upsert_utxos [u] s = (r, s')"
  shows "is_unspent (mem_ledger s') (cu_outpoint u)
    \<and> map_option en_spent_height (mem_ledger s' (cu_outpoint u)) = Some (en_spent_height e)
    \<and> (\<exists>us. mem_list_unspent (cu_wallet_id u) s' = (Inr us, s') \<and> u \<in> set us)"
proof -
  have s': "mem_utxo_inv s'" "mem_ledger s' = put_all [u] (mem_ledger s)"
    using mem_upsert_ok [OF assms(1,5)] by auto
  then have entry: "mem_ledger s' (cu_outpoint u) = Some (e\<lparr>en_utxo := u\<rparr>)"
    using assms(2) by (simp add: put_utxo_def)
  obtain us where us: "mem_list_unspent (cu_wallet_id u) s' = (Inr us, s')"
    by (simp add: mem_list_unspent_def)
  have "en_utxo (e\<lparr>en_utxo := u\<rparr>) = u" by simp
  with mem_list_unspent_ok [OF s'(1) us] entry assms(4) have "u \<in> set us" by blast
  with us entry assms(4) show ?thesis by (simp add: is_unspent_def)
qed

lemma upsert_forgets_spend_witness:
  "is_unspent (mem_ledger (snd (mem_upsert_utxos [ex_utxo]
     (snd (mem_mark_spent [OutPoint (Txid 1) 0] 6 (snd (mem_upsert_utxos [ex_utxo] mem_utxo_new)))))))
     (OutPoint (Txid 1) 0)"
proof -
  let ?s = "snd (mem_mark_spent [OutPoint (Txid 1) 0] 6 (snd (mem_upsert_utxos [ex_utxo] mem_utxo_new)))"
  let ?e = "\<lparr>en_utxo = ex_utxo\<lparr>cu_is_spent := True\<rparr>, en_spent_height = Some 6\<rparr>"
  have "mem_utxo_inv ?s" "mem_ledger ?s (cu_outpoint ex_utxo) = Some ?e" "cu_is_spent (en_utxo ?e)"
      "\<not> cu_is_spent ex_utxo"
    by (simp_all add: mem_utxo_inv_def keyed_def mem_ledger_def mem_mark_spent_def mem_upsert_utxos_def
        mem_utxo_new_def ex_utxo_def)
  from upsert_forgets_spend [OF this, of "fst (mem_upsert_utxos [ex_utxo] ?s)" "snd (mem_upsert_utxos [ex_utxo] ?s)"]
  show ?thesis by (simp add: ex_utxo_def)
qed

end
