(* ===== verification/Sync_Wallets.thy ===== *)
theory Sync_Wallets
  imports Sync_Properties
begin

text \<open>
  What is listed, in terms of the wallets: an engine is built by registering wallets one after the
  other (one registration for each federation version of a wallet), and the listing of an id is
  read off the chain and the registrations alone, without the script index.
\<close>

type_synonym ('d, 'k, 'w) registration = "wallet_id \<times> ('d, 'k, 'w) elements_wollet \<times> u32"

fun register_all ::
    "('d, 'k, 'w) lwk_lib \<Rightarrow> ('d, 'k, 'w) registration list \<Rightarrow> (('d, 'k, 'w) scan_engine, sync_error, unit) act" where
  "register_all L [] = ret ()"
| "register_all L ((i, wollet, gap) # regs) =
     bindS (register_wallet L i wollet gap) (\<lambda>_. register_all L regs)"

text \<open>Registration number \<open>k\<close> watches a script: it is an address of its wollet, below its gap.\<close>

definition watches ::
    "('d, 'k, 'w) lwk_lib \<Rightarrow> ('d, 'k, 'w) registration list \<Rightarrow> script \<Rightarrow> nat \<Rightarrow> chain \<Rightarrow> u32 \<Rightarrow> bool" where
  "watches L regs s k ch widx \<longleftrightarrow> k < length regs \<and> widx < snd (snd (regs ! k))
     \<and> (\<exists>a. address L (fst (snd (regs ! k))) ch widx = Inr a \<and> ad_script_pubkey a = s)"

definition scripts_apart :: "('d, 'k, 'w) lwk_lib \<Rightarrow> ('d, 'k, 'w) registration list \<Rightarrow> bool" where
  "scripts_apart L regs \<longleftrightarrow> (\<forall>s k ch widx k' ch' widx'. watches L regs s k ch widx \<longrightarrow>
     watches L regs s k' ch' widx' \<longrightarrow> k = k' \<and> ch = ch' \<and> widx = widx')"

definition index_exact ::
    "('d, 'k, 'w) lwk_lib \<Rightarrow> ('d, 'k, 'w) registration list \<Rightarrow> ('d, 'k, 'w) scan_engine \<Rightarrow> bool" where
  "index_exact L regs eng \<longleftrightarrow> eng_wollets eng = map (fst \<circ> snd) regs
     \<and> (\<forall>s e. map_of (eng_index eng) s = Some e \<longleftrightarrow> (\<exists>k ch widx. watches L regs s k ch widx
          \<and> e = \<lparr>se_wallet_id = fst (regs ! k), se_chain = ch, se_wildcard_index = widx, se_wollet_idx = k\<rparr>))"

section \<open>The index of a list of registrations\<close>

lemma watched_scripts_iff:
  assumes "watched_scripts L w gap = Inr ss"
  shows "(s, ch, widx) \<in> set ss \<longleftrightarrow> widx < gap \<and> (\<exists>a. address L w ch widx = Inr a \<and> ad_script_pubkey a = s)"
proof -
  have "widx \<in> word_of_nat ` {0 ..< unat gap} \<longleftrightarrow> widx < gap"
    by (auto simp: word_less_nat_alt unat_of_nat take_bit_nat_eq_self_iff intro!: image_eqI [of _ _ "unat widx"])
  then show ?thesis
    using set_watched_scripts [OF assms [unfolded watched_scripts_def]] by auto
qed

lemma watches_snoc:
  "watches L (regs @ [r]) s k ch widx \<longleftrightarrow> watches L regs s k ch widx
     \<or> k = length regs \<and> widx < snd (snd r) \<and> (\<exists>a. address L (fst (snd r)) ch widx = Inr a \<and> ad_script_pubkey a = s)"
  by (auto simp: watches_def nth_append less_Suc_eq)

lemma scripts_apart_prefix: "scripts_apart L (regs @ later) \<Longrightarrow> scripts_apart L regs"
proof -
  have "watches L regs s k ch widx \<Longrightarrow> watches L (regs @ later) s k ch widx" for s k ch widx
    by (auto simp: watches_def nth_append)
  then show "scripts_apart L (regs @ later) \<Longrightarrow> scripts_apart L regs" unfolding scripts_apart_def by blast
qed

lemma index_exact_register:
  assumes exact: "index_exact L regs eng" and apart: "scripts_apart L (regs @ [(i, wollet, gap)])"
    and call: "register_wallet L i wollet gap eng = (Inr (), eng')"
  shows "index_exact L (regs @ [(i, wollet, gap)]) eng'"
  using call
proof (cases rule: register_wallet_cases)
  case (ok ss)
  let ?regs = "regs @ [(i, wollet, gap)]"
  let ?entry = "\<lambda>k ch widx. \<lparr>se_wallet_id = fst (?regs ! k), se_chain = ch, se_wildcard_index = widx, se_wollet_idx = k\<rparr>"
  note new = watched_scripts_iff [OF ok(1)]
  have wollets: "eng_wollets eng = map (fst \<circ> snd) regs" using exact by (simp add: index_exact_def)
  have old: "map_of (eng_index eng) s = Some e \<longleftrightarrow> (\<exists>k ch widx. watches L regs s k ch widx \<and> e = ?entry k ch widx)"
    for s e
  proof -
    have nth: "watches L regs s k ch widx \<Longrightarrow> regs ! k = ?regs ! k" for k ch widx
      by (simp add: watches_def nth_append)
    have "map_of (eng_index eng) s = Some e \<longleftrightarrow> (\<exists>k ch widx. watches L regs s k ch widx
        \<and> e = \<lparr>se_wallet_id = fst (regs ! k), se_chain = ch, se_wildcard_index = widx, se_wollet_idx = k\<rparr>)"
      using exact by (simp add: index_exact_def)
    then show ?thesis using nth by metis
  qed
  have "map_of (eng_index eng') s = Some e \<longleftrightarrow> (\<exists>k ch widx. watches L ?regs s k ch widx \<and> e = ?entry k ch widx)" for s e
  proof (cases "s \<in> fst ` set ss")
    case True
    from index_scripts_entry [OF this, of i "length regs" "eng_index eng"] obtain ch widx where
      in_ss: "(s, ch, widx) \<in> set ss" and entry: "map_of (eng_index eng') s = Some (?entry (length regs) ch widx)"
      using ok(3) wollets by (auto simp: nth_append)
    have w: "watches L ?regs s (length regs) ch widx" using in_ss new by (simp add: watches_snoc)
    have uniq: "k = length regs \<and> c = ch \<and> x = widx" if "watches L ?regs s k c x" for k c x
      using apart w that unfolding scripts_apart_def by blast
    then have "(\<exists>k c x. watches L ?regs s k c x \<and> e = ?entry k c x) \<longleftrightarrow> e = ?entry (length regs) ch widx"
      using w by blast
    then show ?thesis unfolding entry by auto
  next
    case False
    then have "map_of (eng_index eng') s = map_of (eng_index eng) s" using ok(3) by (simp add: index_scripts_other)
    moreover have "watches L ?regs s k ch widx = watches L regs s k ch widx" for k ch widx
      using False new by (force simp: watches_snoc)
    ultimately show ?thesis using old by simp
  qed
  then show ?thesis using ok(3) wollets by (simp add: index_exact_def)
next
  case (failed f)
  then show ?thesis by (cases f) auto
qed

lemma index_exact_register_all:
  assumes "index_exact L done eng" and "scripts_apart L (done @ regs)"
    and "register_all L regs eng = (Inr (), eng')"
  shows "index_exact L (done @ regs) eng'"
  using assms
proof (induction regs arbitrary: "done" eng)
  case Nil
  then show ?case by (simp add: ret_def)
next
  case (Cons r regs)
  obtain i wollet gap where r: "r = (i, wollet, gap)" by (cases r) auto
  from Cons.prems(3) obtain eng1 where one: "register_wallet L i wollet gap eng = (Inr (), eng1)"
    and rest: "register_all L regs eng1 = (Inr (), eng')"
    by (auto simp: r elim!: bindS_InrE)
  have apart: "scripts_apart L ((done @ [r]) @ regs)" using Cons.prems(2) by simp
  have "index_exact L (done @ [r]) eng1"
    using index_exact_register [OF Cons.prems(1) scripts_apart_prefix [OF apart, unfolded r] one] r by simp
  from Cons.IH [OF this apart rest] show ?case by simp
qed

lemma index_exact_new: "index_exact L [] engine_new"
  by (simp add: index_exact_def engine_new_def watches_def)

lemma register_all_built: "engine_built L eng \<Longrightarrow> register_all L regs eng = (r, eng') \<Longrightarrow> engine_built L eng'"
proof (induction regs arbitrary: eng)
  case (Cons reg regs)
  obtain i wollet gap where reg: "reg = (i, wollet, gap)" by (cases reg) auto
  obtain x eng1 where one: "register_wallet L i wollet gap eng = (x, eng1)" by (rule prod.exhaust)
  show ?case using Cons.prems Cons.IH [OF built_register [OF Cons.prems(1) one]] one
    by (cases x) (auto simp: reg bindS_def built_register)
qed (simp add: ret_def)

section \<open>Captures\<close>

lemma capture_of_watches:
  assumes "index_exact L regs eng"
  shows "capture_of L eng h tid v t = Some u \<longleftrightarrow>
    (\<exists>k. watches L regs (to_script_pubkey t) k (cu_chain u) (cu_wildcard_index u)
       \<and> unblind L (fst (snd (regs ! k))) t = Inr (cu_secrets u) \<and> cu_wallet_id u = fst (regs ! k))
    \<and> cu_outpoint u = OutPoint tid (word_of_nat v) \<and> cu_txout u = t \<and> cu_height u = h \<and> \<not> cu_is_spent u"
proof -
  have lookup: "map_of (eng_index eng) s = Some e \<longleftrightarrow> (\<exists>k ch widx. watches L regs s k ch widx
      \<and> e = \<lparr>se_wallet_id = fst (regs ! k), se_chain = ch, se_wildcard_index = widx, se_wollet_idx = k\<rparr>)" for s e
    using assms by (simp add: index_exact_def)
  have wollet: "eng_wollets eng ! k = fst (snd (regs ! k))" if "watches L regs s k ch widx" for s k ch widx
    using assms that by (simp add: index_exact_def watches_def)
  have "capture_of L eng h tid v t = Some u \<longleftrightarrow> (\<exists>e secrets. map_of (eng_index eng) (to_script_pubkey t) = Some e
      \<and> unblind L (eng_wollets eng ! se_wollet_idx e) t = Inr secrets
      \<and> u = \<lparr>cu_wallet_id = se_wallet_id e, cu_outpoint = OutPoint tid (word_of_nat v),
           cu_txout = t, cu_secrets = secrets, cu_chain = se_chain e,
           cu_wildcard_index = se_wildcard_index e, cu_height = h, cu_is_spent = False\<rparr>)"
    by (auto simp: capture_of_def split: option.splits sum.splits)
  then have "capture_of L eng h tid v t = Some u \<Longrightarrow> ?thesis" unfolding lookup by (auto simp: wollet)
  moreover have "capture_of L eng h tid v t = Some u"
    if k: "watches L regs (to_script_pubkey t) k (cu_chain u) (cu_wildcard_index u)"
      "unblind L (fst (snd (regs ! k))) t = Inr (cu_secrets u)" "cu_wallet_id u = fst (regs ! k)"
      and u: "cu_outpoint u = OutPoint tid (word_of_nat v)" "cu_txout u = t" "cu_height u = h" "\<not> cu_is_spent u"
    for k
  proof -
    have "map_of (eng_index eng) (to_script_pubkey t) = Some \<lparr>se_wallet_id = fst (regs ! k), se_chain = cu_chain u,
        se_wildcard_index = cu_wildcard_index u, se_wollet_idx = k\<rparr>"
      using k(1) unfolding lookup by blast
    then show ?thesis using k u wollet [OF k(1)] by (cases u) (simp add: capture_of_def)
  qed
  ultimately show ?thesis by blast
qed

text \<open>
  An output the wallets own: it is in the block at the recorded height of the chain, under the
  recorded outpoint, and a registration for the recorded id has an address with its script, at the
  recorded chain and an index below the gap, and unblinds it to the recorded secrets.
\<close>

definition owned_output ::
    "elements_lib \<Rightarrow> ('d, 'k, 'w) lwk_lib \<Rightarrow> ('d, 'k, 'w) registration list \<Rightarrow> block list
     \<Rightarrow> captured_utxo \<Rightarrow> bool" where
  "owned_output E L regs chain u \<longleftrightarrow> \<not> cu_is_spent u
     \<and> (\<exists>n < length chain. cu_height u = word_of_nat n
        \<and> (\<exists>tx \<in> set (blk_txdata (chain ! n)). lib_txid E tx = op_txid (cu_outpoint u)
            \<and> unat (op_vout (cu_outpoint u)) < length (tx_output tx)
            \<and> tx_output tx ! unat (op_vout (cu_outpoint u)) = cu_txout u))
     \<and> (\<exists>wollet gap. (cu_wallet_id u, wollet, gap) \<in> set regs \<and> cu_wildcard_index u < gap
        \<and> (\<exists>a. address L wollet (cu_chain u) (cu_wildcard_index u) = Inr a
             \<and> ad_script_pubkey a = to_script_pubkey (cu_txout u))
        \<and> unblind L wollet (cu_txout u) = Inr (cu_secrets u))"

lemma some_registration_watches:
  "(\<exists>k. watches L regs s k ch widx \<and> unblind L (fst (snd (regs ! k))) t = Inr x \<and> i = fst (regs ! k))
   \<longleftrightarrow> (\<exists>wollet gap. (i, wollet, gap) \<in> set regs \<and> widx < gap
        \<and> (\<exists>a. address L wollet ch widx = Inr a \<and> ad_script_pubkey a = s) \<and> unblind L wollet t = Inr x)"
  unfolding watches_def in_set_conv_nth by (metis fst_conv prod.collapse snd_conv)

lemma captured_in_owned:
  assumes exact: "index_exact L regs eng" and wf: "wf_chain E chain"
  shows "u \<in> captured_in E L eng chain \<longleftrightarrow> owned_output E L regs chain u"
proof -
  have small: "unat (word_of_nat v :: u32) = v"
    if "n < length chain" "tx \<in> set (blk_txdata (chain ! n))" "v < length (tx_output tx)" for n tx v
  proof -
    have "tx \<in> set (all_txs chain)" using that by (auto simp: all_txs_def)
    then have "length (tx_output tx) \<le> 2 ^ 32" using wf wf_txs_outputs by (auto simp: wf_chain_def)
    then show ?thesis using that by (intro unat_word_of_nat_u32) simp
  qed
  have out: "cu_outpoint u = OutPoint tid (word_of_nat v) \<longleftrightarrow>
      tid = op_txid (cu_outpoint u) \<and> op_vout (cu_outpoint u) = word_of_nat v" for tid v
    by (cases "cu_outpoint u") auto
  show ?thesis
  proof
    assume "u \<in> captured_in E L eng chain"
    then obtain n tx v where n: "n < length chain" "tx \<in> set (blk_txdata (chain ! n))" "v < length (tx_output tx)"
      and c: "capture_of L eng (word_of_nat n) (lib_txid E tx) v (tx_output tx ! v) = Some u"
      by (auto simp: captured_in_def)
    then show "owned_output E L regs chain u"
      using small [OF n] unfolding owned_output_def capture_of_watches [OF exact] some_registration_watches out
      by auto
  next
    assume owned: "owned_output E L regs chain u"
    then obtain n tx where n: "n < length chain" "tx \<in> set (blk_txdata (chain ! n))"
        "unat (op_vout (cu_outpoint u)) < length (tx_output tx)"
      and f: "cu_height u = word_of_nat n" "lib_txid E tx = op_txid (cu_outpoint u)"
        "tx_output tx ! unat (op_vout (cu_outpoint u)) = cu_txout u"
      unfolding owned_output_def by blast
    have "capture_of L eng (word_of_nat n) (lib_txid E tx) (unat (op_vout (cu_outpoint u)))
        (tx_output tx ! unat (op_vout (cu_outpoint u))) = Some u"
      using owned f unfolding capture_of_watches [OF exact] some_registration_watches out owned_output_def by simp
    then show "u \<in> captured_in E L eng chain" using n unfolding captured_in_def by blast
  qed
qed

section \<open>Passes with a fresh engine each\<close>

text \<open>
  The ledger of a chain depends on the engine through the captured outputs only, so two engines
  that capture the same outputs of a chain have the same ledger of it.
\<close>

lemma ev_spends_engine:
  "ev_spends (chain_events E L eng n bs) = ev_spends (chain_events E L eng' n bs)"
proof -
  have "ev_spends (txs_events E L eng h ts) = ev_spends (txs_events E L eng' h ts)" for h ts
    by (induction ts) (simp_all add: tx_events_def)
  then show ?thesis by (induction bs arbitrary: n) simp_all
qed

lemma wallet_ledger_engine:
  assumes "wf_chain E chain" and "captured_in E L eng chain = captured_in E L eng' chain"
  shows "wallet_ledger E L eng chain = wallet_ledger E L eng' chain"
proof (rule ext)
  fix op
  have "spend_heights op (chain_events E L eng 0 chain) = spend_heights op (chain_events E L eng' 0 chain)"
    unfolding spend_heights_def by (subst ev_spends_engine) (rule refl)
  then have "wallet_ledger E L eng chain op = Some e \<longleftrightarrow> wallet_ledger E L eng' chain op = Some e" for e
    by (simp add: wallet_ledger_entry [OF assms(1)] assms(2))
  then show "wallet_ledger E L eng chain op = wallet_ledger E L eng' chain op" by (metis not_Some_eq)
qed

definition engine_for ::
    "('d, 'k, 'w) lwk_lib \<Rightarrow> ('d, 'k, 'w) registration list \<Rightarrow> ('d, 'k, 'w) scan_engine \<Rightarrow> bool" where
  "engine_for L regs eng \<longleftrightarrow> register_all L regs engine_new = (Inr (), eng) \<and> scripts_apart L regs"

lemma engine_for_exact:
  assumes "engine_for L regs eng"
  shows "engine_wf eng" and "index_exact L regs eng"
  using assms engine_built_sound [OF register_all_built [OF built_new, of L regs]]
    index_exact_register_all [OF index_exact_new, of L regs eng]
  by (auto simp: engine_for_def)

text \<open>
  The states of a process that starts with empty stores and builds an engine for each pass, as the
  documentation of \<open>BlockScanEngine\<close> asks for. Between passes the node moves to any chain, and the
  registrations change to others (more versions, larger gaps) that own the same outputs of the
  blocks already scanned.
\<close>

inductive wallet_run ::
    "elements_lib \<Rightarrow> ('d, 'k, 'w) lwk_lib \<Rightarrow> ('d, 'k, 'w) registration list \<Rightarrow> ('d, 'k, 'w) scan_engine
     \<Rightarrow> mem_world \<Rightarrow> block list \<Rightarrow> bool"
  for E :: elements_lib and L :: "('d, 'k, 'w) lwk_lib" where
  wallet_start: "engine_for L regs eng \<Longrightarrow>
    wallet_run E L regs eng \<lparr>w_chain = c, w_blocks = mem_block_new, w_utxos = mem_utxo_new\<rparr> []"
| wallet_node: "wallet_run E L regs eng w old \<Longrightarrow> wallet_run E L regs eng (w\<lparr>w_chain := c\<rparr>) old"
| wallet_register: "wallet_run E L regs eng w old \<Longrightarrow> engine_for L regs' eng'
    \<Longrightarrow> (\<And>u. owned_output E L regs' old u \<longleftrightarrow> owned_output E L regs old u)
    \<Longrightarrow> wallet_run E L regs' eng' w old"
| wallet_pass: "wallet_run E L regs eng w old \<Longrightarrow> mcs_chain (w_chain w) = new \<Longrightarrow> wf_chain E new
    \<Longrightarrow> inj_on (lib_block_hash E) (set new) \<Longrightarrow> linked E old new
    \<Longrightarrow> mem_sync E L eng w = (Inr summary, w') \<Longrightarrow> wallet_run E L regs eng w' new"

lemma wallet_run_synced:
  "wallet_run E L regs eng w chain \<Longrightarrow> engine_for L regs eng \<and> mem_synced E L eng chain w"
proof (induction rule: wallet_run.induct)
  case (wallet_start regs eng c)
  then show ?case by (simp only: mem_synced_empty)
next
  case (wallet_node regs eng w old c)
  then show ?case by simp
next
  case (wallet_register regs eng w old regs' eng')
  then have wf: "wf_chain E old" by (simp add: synced_def)
  have "u \<in> captured_in E L eng' old \<longleftrightarrow> u \<in> captured_in E L eng old" for u
    using wallet_register captured_in_owned [OF _ wf] engine_for_exact(2) by metis
  then have "wallet_ledger E L eng' old = wallet_ledger E L eng old" by (intro wallet_ledger_engine [OF wf]) blast
  then show ?case using wallet_register by (simp add: synced_def)
next
  case (wallet_pass regs eng w old new summary w')
  then have "engine_wf eng" "mem_synced E L eng old w" using engine_for_exact(1) by blast+
  then show ?case
    using mem_scan.sync_ok [of eng w E L old new summary w'] wallet_pass by blast
qed

section \<open>The property\<close>


text \<open>
  A migration: the wallet of the first federation is scanned, then the second federation's version
  is registered, whose addresses are \<open>[2, i]\<close> and \<open>[3, i]\<close>, and the next block moves the coin there.
\<close>

definition two_lwk :: "(bool, unit, unit) lwk_lib" where
  "two_lwk = \<lparr>lwk_parse_descriptor = (\<lambda>s. Inr False), lwk_build_wollet = (\<lambda>n d. Inr ()),
     lwk_parse_mbk = (\<lambda>s. Inr ()),
     lwk_address = (\<lambda>d i p. Inr \<lparr>ad_script_pubkey = Script [if d then 2 else 0, ucast i], ad_blinding_pubkey = None\<rparr>),
     lwk_change = (\<lambda>d i p. Inr \<lparr>ad_script_pubkey = Script [if d then 3 else 1, ucast i], ad_blinding_pubkey = None\<rparr>),
     lwk_try_unblind = (\<lambda>t d. case to_value t of
        ValueExplicit v \<Rightarrow> Inr \<lparr>sec_asset = AssetId 7, sec_asset_bf = 0, sec_value = v, sec_value_bf = 0\<rparr>
      | _ \<Rightarrow> Inl ''no blinding key'')\<rparr>"

definition version_wollet :: "bool \<Rightarrow> (bool, unit, unit) elements_wollet" where
  "version_wollet d = \<lparr>ew_inner = (), ew_descriptor = d, ew_master_blinding_key = (),
     ew_network = Liquid, ew_lwk_network = LwkLiquid\<rparr>"

definition one_regs :: "(bool, unit, unit) registration list" where
  "one_regs = [(WalletId [1], version_wollet False, 2)]"

definition two_regs :: "(bool, unit, unit) registration list" where
  "two_regs = one_regs @ [(WalletId [1], version_wollet True, 2)]"

definition built_engine :: "(bool, unit, unit) registration list \<Rightarrow> (bool, unit, unit) scan_engine" where
  "built_engine regs = snd (register_all two_lwk regs engine_new)"

definition one_chain :: "block list" where
  "one_chain = [\<lparr>blk_header = [10], blk_txdata = [ex_tx 1 [] [ex_out [0, 0] 100]]\<rparr>]"

definition two_chain :: "block list" where
  "two_chain = one_chain
     @ [\<lparr>blk_header = [11], blk_txdata = [ex_tx 2 [OutPoint (Txid 1) 0] [ex_out [3, 1] 60, ex_out [9] 40]]\<rparr>]"

lemma two_engines: "engine_for two_lwk one_regs (built_engine one_regs)" "engine_for two_lwk two_regs (built_engine two_regs)"
proof -
  have reg: "register_all two_lwk regs engine_new = (Inr (), built_engine regs)"
    if "\<not> isl (fst (register_all two_lwk regs engine_new))" for regs
    using that unfolding built_engine_def by (metis (full_types) old.unit.exhaust prod.collapse sum.collapse(2))
  have byte: "(ucast a :: u8) = ucast b \<Longrightarrow> a = b" if "a < 2" "b < 2" for a b :: u32
  proof -
    have "c = 0 \<or> c = 1" if "c < 2" for c :: u32
      using that by (auto simp: word_less_nat_alt word_unat_eq_iff)
    from this [OF that(1)] this [OF that(2)] show "(ucast a :: u8) = ucast b \<Longrightarrow> a = b" by auto
  qed
  have apart: "scripts_apart two_lwk two_regs"
    unfolding scripts_apart_def watches_def
    by (auto simp: two_regs_def one_regs_def two_lwk_def version_wollet_def address_def less_Suc_eq byte split: chain.splits)
  show "engine_for two_lwk two_regs (built_engine two_regs)"
    unfolding engine_for_def by (intro conjI apart reg) code_simp
  show "engine_for two_lwk one_regs (built_engine one_regs)"
    unfolding engine_for_def
    by (intro conjI scripts_apart_prefix [OF apart [unfolded two_regs_def]] reg) code_simp
qed

definition one_world :: mem_world where
  "one_world = snd (mem_sync ex_lib two_lwk (built_engine one_regs) (ex_world one_chain))"

definition two_world :: mem_world where
  "two_world = snd (mem_sync ex_lib two_lwk (built_engine two_regs)
     (one_world\<lparr>w_chain := \<lparr>mcs_chain = two_chain, mcs_broadcast = []\<rparr>\<rparr>))"

lemma two_same: "owned_output ex_lib two_lwk two_regs one_chain u \<longleftrightarrow> owned_output ex_lib two_lwk one_regs one_chain u"
proof (cases "to_script_pubkey (cu_txout u) = Script [0, 0]")
  case True
  have "ad_script_pubkey a \<noteq> Script [0, 0]" if "address two_lwk (version_wollet True) ch i = Inr a" for ch i a
    using that by (cases ch) (auto simp: two_lwk_def version_wollet_def address_def)
  then show ?thesis using True by (auto simp: owned_output_def two_regs_def one_regs_def)
next
  case False
  have "to_script_pubkey (cu_txout u) = Script [0, 0]" if "owned_output ex_lib two_lwk regs one_chain u" for regs
    using that by (auto simp: owned_output_def one_chain_def ex_tx_def ex_out_def dest!: sym [of _ "cu_txout u"])
  then show ?thesis using False by blast
qed

lemma two_run: "wallet_run ex_lib two_lwk two_regs (built_engine two_regs) two_world two_chain"
proof -
  let ?w0 = "ex_world one_chain" and ?w1 = "one_world\<lparr>w_chain := \<lparr>mcs_chain = two_chain, mcs_broadcast = []\<rparr>\<rparr>"
  have ok: "\<exists>x. m = (Inr x, snd m)" if "\<not> isl (fst m)" for m :: "(sync_error, sync_summary) result \<times> mem_world"
    using that by (metis prod.collapse sum.collapse(2))
  have "\<not> isl (fst (mem_sync ex_lib two_lwk (built_engine one_regs) ?w0))" by code_simp
  from ok [OF this] obtain x where
    one: "mem_sync ex_lib two_lwk (built_engine one_regs) ?w0 = (Inr x, one_world)" unfolding one_world_def by blast
  have "\<not> isl (fst (mem_sync ex_lib two_lwk (built_engine two_regs) ?w1))" by code_simp
  from ok [OF this] obtain y where
    two: "mem_sync ex_lib two_lwk (built_engine two_regs) ?w1 = (Inr y, two_world)" unfolding two_world_def by blast
  have chains: "wf_chain ex_lib one_chain" "inj_on (lib_block_hash ex_lib) (set one_chain)"
      "wf_chain ex_lib two_chain" "inj_on (lib_block_hash ex_lib) (set two_chain)"
    by (simp_all add: wf_chain_def all_txs_def two_chain_def one_chain_def ex_tx_def ex_out_def ex_lib_def)
  have link: "linked ex_lib one_chain two_chain" by (simp add: linked_def two_chain_def one_chain_def)
  have "wallet_run ex_lib two_lwk one_regs (built_engine one_regs) ?w0 []"
    unfolding ex_world_def by (rule wallet_start [OF two_engines(1)])
  from wallet_pass [OF this _ chains(1,2) linked_Nil one]
  have "wallet_run ex_lib two_lwk one_regs (built_engine one_regs) one_world one_chain" by (simp add: ex_world_def)
  from wallet_register [OF wallet_node [OF this] two_engines(2) two_same]
  have "wallet_run ex_lib two_lwk two_regs (built_engine two_regs) ?w1 one_chain" .
  from wallet_pass [OF this _ chains(3,4) link two] show ?thesis by simp
qed


end
