(* ===== verification/Sync_Bounds.thy ===== *)
theory Sync_Bounds
  imports Sync_Wallets
begin

text \<open>
  Bounds on what the stores hold after passes of \<open>src/sync/scan.rs\<close>: every height recorded is that
  of a scanned block, no output is spent below its creation, and derivation indices stay below
  the gap they were registered with.
\<close>

definition heights_ok :: "nat \<Rightarrow> utxo_entry \<Rightarrow> bool" where
  "heights_ok n e \<longleftrightarrow> unat (cu_height (en_utxo e)) < n
     \<and> (case en_spent_height e of None \<Rightarrow> True | Some h \<Rightarrow> cu_height (en_utxo e) \<le> h \<and> unat h < n)"

definition bounded_by :: "nat \<Rightarrow> ledger \<Rightarrow> bool" where
  "bounded_by n m \<longleftrightarrow> (\<forall>op e. m op = Some e \<longrightarrow> heights_ok n e)"

lemma bounded_Suc: "bounded_by n m \<Longrightarrow> bounded_by (Suc n) m"
  by (auto simp: bounded_by_def heights_ok_def split: option.splits intro: less_SucI)

lemma bounded_apply_event:
  assumes "bounded_by (Suc n) m" and "unat (ev_height ev) = n"
  shows "bounded_by (Suc n) (apply_event ev m)"
proof (cases ev)
  case (ESpend p h)
  have "cu_height (en_utxo e) \<le> h" if "m p = Some e" for e
    using assms(1) [unfolded bounded_by_def, rule_format, OF that] assms(2) ESpend
    by (simp add: heights_ok_def word_le_nat_alt)
  then show ?thesis using assms ESpend
    by (auto simp: bounded_by_def heights_ok_def apply_event.simps split: option.splits if_splits)
next
  case (ECreate u)
  then show ?thesis using assms
    by (auto simp: bounded_by_def heights_ok_def apply_event.simps split: option.splits if_splits)
qed

lemma bounded_play:
  "bounded_by (Suc n) m \<Longrightarrow> \<forall>ev \<in> set es. unat (ev_height ev) = n \<Longrightarrow> bounded_by (Suc n) (play es m)"
  by (induction es arbitrary: m) (simp_all add: bounded_apply_event)

lemma bounded_wallet_ledger:
  "length chain < 2 ^ 32 \<Longrightarrow> bounded_by (length chain) (wallet_ledger E L eng chain)"
proof (induction chain rule: rev_induct)
  case Nil
  then show ?case by (simp add: bounded_by_def)
next
  case (snoc b chain)
  have "bounded_by (Suc (length chain)) (wallet_ledger E L eng chain)"
    using snoc by (intro bounded_Suc) simp
  moreover have "unat (word_of_nat (length chain) :: u32) = length chain"
    using snoc.prems by (intro unat_word_of_nat_u32) simp
  ultimately show ?case
    unfolding wallet_ledger_snoc by (auto intro!: bounded_play dest: txs_events_height)
qed

lemma entry_of_capture:
  assumes "wf_chain E chain" and "wallet_ledger E L eng chain op = Some e"
  shows "\<exists>u \<in> captured_in E L eng chain. cu_outpoint u = op
    \<and> en_utxo e = u\<lparr>cu_is_spent := (en_spent_height e \<noteq> None)\<rparr>"
proof -
  obtain u where u: "u \<in> captured_in E L eng chain" "cu_outpoint u = op"
      "e = settle (spend_heights op (chain_events E L eng 0 chain)) u"
    using assms by (auto simp: wallet_ledger_entry)
  moreover have "u\<lparr>cu_is_spent := False\<rparr> = u" using captured_in_unspent [OF u(1)] by (cases u) simp
  ultimately show ?thesis by (intro bexI [of _ u]) (auto simp: settle_def split: list.split)
qed

text \<open>
  C25. After any passes that returned Ok, reorgs between them and changes of the registrations that
  own the same outputs of the scanned blocks, every entry of the UTXO store, spent ones included, has a height below the
  length of the scanned chain; where it is spent, the spend is not below its creation and below
  the length of the chain as well; and it was captured under a registered wallet at an index below
  that registration's gap. The cursor is at the chain's tip.
\<close>

theorem stored_entries_bounded:
  assumes run: "wallet_run E L regs eng w chain" and entry: "mem_ledger (w_utxos w) op = Some e"
  shows "heights_ok (length chain) e
    \<and> (\<exists>wollet gap. (cu_wallet_id (en_utxo e), wollet, gap) \<in> set regs \<and> cu_wildcard_index (en_utxo e) < gap)
    \<and> (\<exists>t. mbs_tip (w_blocks w) = Some t \<and> Suc (unat (st_height t)) = length chain)"
proof -
  have exact: "index_exact L regs eng" and synced: "mem_synced E L eng chain w"
    using wallet_run_synced [OF run] engine_for_exact(2) by blast+
  then have wf: "wf_chain E chain" and led: "wallet_ledger E L eng chain op = Some e"
    and tip: "mbs_tip (w_blocks w) = tip_of E chain"
    using entry by (simp_all add: synced_def)
  have len: "length chain < 2 ^ 32" using wf by (simp add: wf_chain_def)
  obtain u where u: "u \<in> captured_in E L eng chain" and e: "en_utxo e = u\<lparr>cu_is_spent := (en_spent_height e \<noteq> None)\<rparr>"
    using entry_of_capture [OF wf led] by blast
  have "owned_output E L regs chain u" using captured_in_owned [OF exact wf] u by simp
  then have gap: "\<exists>wollet gap. (cu_wallet_id (en_utxo e), wollet, gap) \<in> set regs \<and> cu_wildcard_index (en_utxo e) < gap"
    unfolding e owned_output_def by auto
  have ok: "heights_ok (length chain) e" using bounded_wallet_ledger [OF len, of E L eng] led by (auto simp: bounded_by_def)
  then have "chain \<noteq> []" by (auto simp: heights_ok_def)
  then have "\<exists>t. mbs_tip (w_blocks w) = Some t \<and> Suc (unat (st_height t)) = length chain"
    using len unfolding tip by (simp add: tip_of_def unat_word_of_nat_u32 del: of_nat_diff)
  with ok gap show ?thesis by blast
qed

text \<open>The output of the first version of the wallet, spent in the second block.\<close>

theorem stored_entries_bounded_witness:
  "\<exists>e t. mem_ledger (w_utxos two_world) (OutPoint (Txid 1) 0) = Some e \<and> en_spent_height e = Some 1
     \<and> cu_height (en_utxo e) \<le> 1 \<and> cu_wildcard_index (en_utxo e) < 2
     \<and> mbs_tip (w_blocks two_world) = Some t \<and> st_height t = 1"
proof -
  have "map_option en_spent_height (mem_ledger (w_utxos two_world) (OutPoint (Txid 1) 0)) = Some (Some 1)"
    by code_simp
  then obtain e where e: "mem_ledger (w_utxos two_world) (OutPoint (Txid 1) 0) = Some e" "en_spent_height e = Some 1"
    by auto
  note stored_entries_bounded [OF two_run e(1)]
  moreover have "length two_chain = 2" by (simp add: two_chain_def one_chain_def)
  moreover have "gap = 2" if "(i, wollet, gap) \<in> set two_regs" for i wollet gap using that by (auto simp: two_regs_def one_regs_def)
  moreover have "st_height t = 1" if "Suc (unat (st_height t)) = 2" for t
    using that by (simp add: word_unat_eq_iff)
  ultimately show ?thesis using e by (auto simp: heights_ok_def)
qed

end
