(* ===== verification/Sync_Late.thy ===== *)
theory Sync_Late
  imports Sync_Bounds
begin

text \<open>
  Wallets registered late: what a pass with a new engine does about the blocks below the cursor.
  The documentation of \<open>BlockScanEngine\<close> says that an engine built afresh for a pass picks up newly
  revealed addresses; it does so in the blocks it scans, and no pass scans a block again.
\<close>

context scan_env
begin

text \<open>A pass captures outputs of the blocks it scans and no other.\<close>

lemma scan_block_dom:
  assumes eng: "engine_wf eng" and wf: "wf_chain E chain" and n: "n < length chain"
    and inj: "inj_on (lib_block_hash E) (set chain)"
    and inv: "us_inv (w_utxos w)" "bs_inv (w_blocks w)" and chain: "cs_chain (w_chain w) = chain"
    and call: "scan_block C B U E L eng (word_of_nat n) acc w = (Inr acc', w')"
  shows "dom (us_ledger (w_utxos w')) \<subseteq> dom (us_ledger (w_utxos w))
    \<union> {op. op_txid op \<in> lib_txid E ` set (blk_txdata (chain ! n))}"
proof -
  let ?h = "word_of_nat n :: u32"
  have n32: "n < 2 ^ 32" using n wf by (simp add: wf_chain_def)
  from call obtain x w1 blk w2 w3 acc1 acc2 w4 acc3 where
    c: "on_chain (cs_block_hash C ?h) w = (Inr x, w1)" "on_chain (cs_block C x) w1 = (Inr blk, w2)"
      "on_blocks (bs_store_block B ?h x (lib_serialize_block E blk)) w2 = (Inr (), w3)"
    and c4: "scan_txs E L eng ?h (blk_txdata blk) (acc\<lparr>sa_captured := [], sa_spent := []\<rparr>) = Inr acc1"
    and c5: "flush_captured U acc1 w3 = (Inr acc2, w4)" and c6: "flush_spent U ?h acc2 w4 = (Inr acc3, w')"
    by (auto simp: scan_block_def elim!: bindS_InrE)
  note w3 = fetch_ok [OF n n32 inj inv(2) chain c]
  then have inv3: "us_inv (w_utxos w3)" and led3: "us_ledger (w_utxos w3) = us_ledger (w_utxos w)" using inv by simp_all
  from scan_txs_frame [OF eng _ c4] w3 next_block_fresh(1) [OF wf n] have
    cap: "sa_captured acc1 = ev_creates (txs_events E L eng ?h (blk_txdata (chain ! n)))" by simp
  have inv4: "us_inv (w_utxos w4)" and led4: "us_ledger (w_utxos w4) = put_all (sa_captured acc1) (us_ledger (w_utxos w))"
    using flush_captured_ok [OF c5 inv3] led3 by auto
  have "dom (us_ledger (w_utxos w')) = dom (us_ledger (w_utxos w4))"
    using flush_spent_ok [OF c6 inv4] by simp
  then show ?thesis using cap led4 by (auto dest!: txs_events_creates)
qed

lemma scan_blocks_dom:
  assumes eng: "engine_wf eng" and wf: "wf_chain E chain" and inj: "inj_on (lib_block_hash E) (set chain)"
    and "n \<le> length chain" and "us_inv (w_utxos w)" and "bs_inv (w_blocks w)" and "cs_chain (w_chain w) = chain"
    and "scan_blocks C B U E L eng (map word_of_nat [n ..< length chain]) acc w = (Inr acc', w')"
  shows "dom (us_ledger (w_utxos w')) \<subseteq> dom (us_ledger (w_utxos w))
    \<union> {op. op_txid op \<in> lib_txid E ` set (all_txs (drop n chain))}"
  using assms(4-)
proof (induction "length chain - n" arbitrary: n acc w)
  case (Suc d)
  then have n: "n < length chain" and up: "[n ..< length chain] = n # [Suc n ..< length chain]"
    by (simp_all add: upt_conv_Cons)
  from Suc.prems(5) obtain acc1 w1 where c1: "scan_block C B U E L eng (word_of_nat n) acc w = (Inr acc1, w1)"
    and c2: "scan_blocks C B U E L eng (map word_of_nat [Suc n ..< length chain]) acc1 w1 = (Inr acc', w')"
    by (auto simp: up elim!: bindS_InrE)
  have "n < 2 ^ 32" using n wf by (simp add: wf_chain_def)
  note keep = scan_block_keeps [OF n this inj Suc.prems(2-4) c1]
  note step = scan_block_dom [OF eng wf n inj Suc.prems(2-4) c1]
  have "d = length chain - Suc n" "Suc n \<le> length chain" using Suc.hyps(2) n by auto
  from Suc.hyps(1) [OF this, of w1 acc1] keep c2 have
    rest: "dom (us_ledger (w_utxos w')) \<subseteq> dom (us_ledger (w_utxos w1))
      \<union> {op. op_txid op \<in> lib_txid E ` set (all_txs (drop (Suc n) chain))}" by blast
  have txids: "lib_txid E ` set (all_txs (drop n chain))
      = lib_txid E ` set (blk_txdata (chain ! n)) \<union> lib_txid E ` set (all_txs (drop (Suc n) chain))"
    by (simp add: image_Un flip: Cons_nth_drop_Suc [OF n])
  show ?case unfolding txids
  proof
    fix op assume "op \<in> dom (us_ledger (w_utxos w'))"
    with subsetD [OF rest] subsetD [OF step, of op] show "op \<in> dom (us_ledger (w_utxos w)) \<union> {op. op_txid op \<in>
        lib_txid E ` set (blk_txdata (chain ! n)) \<union> lib_txid E ` set (all_txs (drop (Suc n) chain))}" by auto
  qed
qed simp

lemma scan_blocks_keep:
  assumes wf: "wf_chain E chain" and inj: "inj_on (lib_block_hash E) (set chain)"
    and "n \<le> length chain" and "us_inv (w_utxos w)" and "bs_inv (w_blocks w)" and "cs_chain (w_chain w) = chain"
    and "scan_blocks C B U E L eng (map word_of_nat [n ..< length chain]) acc w = (Inr acc', w')"
  shows "us_inv (w_utxos w') \<and> bs_inv (w_blocks w') \<and> cs_chain (w_chain w') = chain"
  using assms(3-)
proof (induction "length chain - n" arbitrary: n acc w)
  case (Suc d)
  then have n: "n < length chain" and up: "[n ..< length chain] = n # [Suc n ..< length chain]"
    by (simp_all add: upt_conv_Cons)
  from Suc.prems(5) obtain acc1 w1 where c1: "scan_block C B U E L eng (word_of_nat n) acc w = (Inr acc1, w1)"
    and c2: "scan_blocks C B U E L eng (map word_of_nat [Suc n ..< length chain]) acc1 w1 = (Inr acc', w')"
    by (auto simp: up elim!: bindS_InrE)
  have "n < 2 ^ 32" using n wf by (simp add: wf_chain_def)
  note keep = scan_block_keeps [OF n this inj Suc.prems(2-4) c1]
  have "d = length chain - Suc n" "Suc n \<le> length chain" using Suc.hyps(2) n by auto
  from Suc.hyps(1) [OF this, of w1 acc1] keep c2 show ?case by blast
qed simp

text \<open>
  A pass with any engine, over stores synced with a chain by another engine, when the node's chain
  extends the scanned one.
\<close>

lemma sync_extends_dom:
  assumes eng: "engine_wf eng'" and inv: "us_inv (w_utxos w)" "bs_inv (w_blocks w)"
    and at: "synced E L eng old (bs_blocks (w_blocks w)) (bs_tip (w_blocks w)) (us_ledger (w_utxos w))"
    and chain: "cs_chain (w_chain w) = old @ more_blocks" and wf: "wf_chain E (old @ more_blocks)"
    and inj: "inj_on (lib_block_hash E) (set (old @ more_blocks))"
    and call: "sync C B U E L eng' w = (Inr summary, w')"
  shows "us_inv (w_utxos w') \<and> dom (us_ledger (w_utxos w')) \<subseteq> dom (us_ledger (w_utxos w))
    \<union> {op. op_txid op \<in> lib_txid E ` set (all_txs more_blocks)}"
proof -
  let ?new = "old @ more_blocks"
  from call obtain tip w1 start reorg w2 pairs w3 acc w4 where
    c1: "on_chain (cs_tip_height C) w = (Inr tip, w1)"
    and c2: "determine_start C B U w1 = (Inr (start, reorg), w2)"
    and c3: "on_utxos (us_unspent_outpoints U) w2 = (Inr pairs, w3)"
    and c4: "scan_blocks C B U E L eng' (u32_range (clamp_start start tip) tip)
      \<lparr>sa_spend_index = fold (\<lambda>(op, wid). AList.update op wid) pairs [],
       sa_summary = default_summary\<lparr>ss_reorg_to := reorg\<rparr>, sa_captured = [], sa_spent = []\<rparr> w3
      = (Inr acc, w4)"
    and c5: "advance_cursor C B (clamp_start start tip) tip w4 = (Inr (), w')"
    by (auto simp: sync_def Let_def elim!: bindS_InrE)
  note w1 = node_tip [OF c1, unfolded chain]
  then have tip: "Suc (unat tip) = length ?new" by auto
  have len: "length ?new < 2 ^ 32" using wf by (simp add: wf_chain_def)
  have link: "linked E old ?new" by (auto simp: linked_def nth_append)
  have "us_inv (w_utxos w1)" "bs_inv (w_blocks w1)" "cs_chain (w_chain w1) = ?new"
      "synced E L eng old (bs_blocks (w_blocks w1)) (bs_tip (w_blocks w1)) (us_ledger (w_utxos w1))"
    using inv at w1 by auto
  from determine_start_ok [OF this(1,2,4,3) link c2] obtain k where
    k: "fork_at E old ?new k" "start = word_of_nat k"
    and inv2: "us_inv (w_utxos w2)" "bs_inv (w_blocks w2)" "cs_chain (w_chain w2) = ?new"
    and led2: "us_ledger (w_utxos w2) = wallet_ledger E L eng (take k ?new)" by auto
  have "k = length old"
  proof (rule ccontr)
    assume "k \<noteq> length old"
    then have "k < length old" using k(1) by (simp add: fork_at_def)
    then show False using k(1) by (auto simp: fork_at_def nth_append)
  qed
  then have start: "start = word_of_nat (length old)" and led2: "us_ledger (w_utxos w2) = us_ledger (w_utxos w)"
    using k(2) led2 at by (simp_all add: synced_def)
  have kn: "length old \<le> length ?new" by simp
  note pass = start_range [OF start kn len tip]
  have w3: "w_utxos w3 = w_utxos w2" "w_blocks w3 = w_blocks w2" "w_chain w3 = w_chain w2"
    using c3 unspent_outpoints [OF inv2(1)] by (auto elim!: on_utxosE)
  have inv3: "us_inv (w_utxos w3)" "bs_inv (w_blocks w3)" "cs_chain (w_chain w3) = ?new" using inv2 w3 by simp_all
  note scan = scan_blocks_dom [OF eng wf inj kn inv3 c4 [unfolded pass]]
    and keep = scan_blocks_keep [OF wf inj kn inv3 c4 [unfolded pass]]
  have "us_inv (w_utxos w4)" "bs_inv (w_blocks w4)" "cs_chain (w_chain w4) = ?new" using keep by blast+
  from advance_cursor_ok [OF c5 this tip, unfolded pass(1), OF pass(2)] have
    "us_inv (w_utxos w')" "w_utxos w' = w_utxos w4" by blast+
  then show ?thesis using scan led2 w3(1) by simp
qed

end

section \<open>The property\<close>

text \<open>
  C37. A registration that comes too late stays without effect on the scanned blocks: when a pass with
  the new engine runs on a chain that extends the scanned one, an output of a scanned block that
  only the new registrations own is not in the store afterwards and is listed for nobody.
\<close>

theorem late_registration_misses:
  assumes run: "wallet_run E L regs eng w old" and eng': "engine_for L regs' eng'"
    and node: "mcs_chain (w_chain w) = old @ later" "wf_chain E (old @ later)"
      "inj_on (lib_block_hash E) (set (old @ later))"
    and late: "owned_output E L regs' old u" "\<And>v. owned_output E L regs old v \<Longrightarrow> cu_outpoint v \<noteq> cu_outpoint u"
    and call: "mem_sync E L eng' w = (Inr summary, w')"
  shows "mem_ledger (w_utxos w') (cu_outpoint u) = None
    \<and> (\<forall>i. \<exists>us. mem_list_unspent i (w_utxos w') = (Inr us, w_utxos w') \<and> cu_outpoint u \<notin> cu_outpoint ` set us)"
proof -
  have eng: "index_exact L regs eng" and synced: "mem_synced E L eng old w"
    using wallet_run_synced [OF run] engine_for_exact(2) by blast+
  then have wf: "wf_chain E old" by (simp add: synced_def)
  have pass: "mem_utxo_inv (w_utxos w')" "dom (mem_ledger (w_utxos w')) \<subseteq> dom (mem_ledger (w_utxos w))
      \<union> {op. op_txid op \<in> lib_txid E ` set (all_txs later)}"
    using mem_scan.sync_extends_dom [OF engine_for_exact(1) [OF eng'] _ _ _ node call] synced by blast+
  have "cu_outpoint u \<notin> dom (mem_ledger (w_utxos w))"
    using synced late(2) by (auto simp: synced_def wallet_ledger_entry captured_in_owned [OF eng wf])
  moreover have "op_txid (cu_outpoint u) \<in> lib_txid E ` set (all_txs old)"
    using late(1) by (force simp: owned_output_def all_txs_def)
  then have "op_txid (cu_outpoint u) \<notin> lib_txid E ` set (all_txs later)"
    using node(2) wf_txs_append [of E "all_txs old" "all_txs later"] by (auto simp: wf_chain_def)
  ultimately have none: "mem_ledger (w_utxos w') (cu_outpoint u) = None" using pass(2) by blast
  have "\<exists>us. mem_list_unspent i (w_utxos w') = (Inr us, w_utxos w') \<and> cu_outpoint u \<notin> cu_outpoint ` set us" for i
  proof -
    obtain us where us: "mem_list_unspent i (w_utxos w') = (Inr us, w_utxos w')" by (simp add: mem_list_unspent_def)
    have "keyed (mem_ledger (w_utxos w'))" using pass(1) by (simp add: mem_utxo_inv_def)
    then show ?thesis using us none mem_list_unspent_ok [OF pass(1) us] by (force simp: keyed_def)
  qed
  with none show ?thesis by blast
qed

text \<open>The second version is registered after the block that pays it was scanned.\<close>

definition missed_coin :: captured_utxo where
  "missed_coin = \<lparr>cu_wallet_id = WalletId [1], cu_outpoint = OutPoint (Txid 2) 0, cu_txout = ex_out [3, 1] 60,
     cu_secrets = \<lparr>sec_asset = AssetId 7, sec_asset_bf = 0, sec_value = 60, sec_value_bf = 0\<rparr>,
     cu_chain = Internal, cu_wildcard_index = 1, cu_height = 1, cu_is_spent = False\<rparr>"

definition next_block :: block where
  "next_block = \<lparr>blk_header = [12], blk_txdata = []\<rparr>"

lemma missed_coin_owned: "owned_output ex_lib two_lwk two_regs two_chain missed_coin"
proof -
  have "length two_chain = 2" "ex_tx 2 [OutPoint (Txid 1) 0] [ex_out [3, 1] 60, ex_out [9] 40] \<in> set (blk_txdata (two_chain ! 1))"
    by (simp_all add: two_chain_def one_chain_def)
  then have there: "\<exists>n < length two_chain. cu_height missed_coin = word_of_nat n
      \<and> (\<exists>tx \<in> set (blk_txdata (two_chain ! n)). lib_txid ex_lib tx = op_txid (cu_outpoint missed_coin)
          \<and> unat (op_vout (cu_outpoint missed_coin)) < length (tx_output tx)
          \<and> tx_output tx ! unat (op_vout (cu_outpoint missed_coin)) = cu_txout missed_coin)"
    by (intro exI [of _ 1] conjI bexI [of _ "ex_tx 2 [OutPoint (Txid 1) 0] [ex_out [3, 1] 60, ex_out [9] 40]"])
      (simp_all add: missed_coin_def ex_tx_def ex_lib_def)
  have "(cu_wallet_id missed_coin, version_wollet True, 2) \<in> set two_regs"
    by (simp add: two_regs_def missed_coin_def)
  moreover have "\<exists>a. address two_lwk (version_wollet True) (cu_chain missed_coin) (cu_wildcard_index missed_coin) = Inr a
      \<and> ad_script_pubkey a = to_script_pubkey (cu_txout missed_coin)"
    by (simp add: missed_coin_def address_def two_lwk_def version_wollet_def ex_out_def)
  moreover have "unblind two_lwk (version_wollet True) (cu_txout missed_coin) = Inr (cu_secrets missed_coin)"
    by (simp add: missed_coin_def unblind_def two_lwk_def ex_out_def)
  moreover have "cu_wildcard_index missed_coin < 2" "\<not> cu_is_spent missed_coin" by (simp_all add: missed_coin_def)
  ultimately show ?thesis unfolding owned_output_def using there by blast
qed

lemma missed_coin_not_old:
  assumes v: "owned_output ex_lib two_lwk one_regs two_chain v"
  shows "cu_outpoint v \<noteq> cu_outpoint missed_coin"
proof
  assume "cu_outpoint v = cu_outpoint missed_coin"
  then have "to_script_pubkey (cu_txout v) = Script [3, 1]" using v
    by (auto simp: owned_output_def missed_coin_def two_chain_def one_chain_def ex_tx_def ex_out_def ex_lib_def less_Suc_eq
        dest!: sym [of _ "cu_txout v"])
  then show False using v
    by (cases "cu_chain v") (auto simp: owned_output_def one_regs_def two_lwk_def version_wollet_def address_def)
qed

theorem late_registration_misses_witness:
  "\<exists>w summary w' us. mem_sync ex_lib two_lwk (built_engine two_regs) w = (Inr summary, w')
    \<and> mcs_chain (w_chain w) = two_chain @ [next_block] \<and> owned_output ex_lib two_lwk two_regs two_chain missed_coin
    \<and> mem_list_unspent (WalletId [1]) (w_utxos w') = (Inr us, w_utxos w')
    \<and> OutPoint (Txid 2) 0 \<notin> cu_outpoint ` set us"
proof -
  let ?w0 = "ex_world two_chain" and ?new = "two_chain @ [next_block]"
  define w1 where "w1 = snd (mem_sync ex_lib two_lwk (built_engine one_regs) ?w0)"
  define w2 where "w2 = w1\<lparr>w_chain := \<lparr>mcs_chain = ?new, mcs_broadcast = []\<rparr>\<rparr>"
  have ok: "\<exists>x. m = (Inr x, snd m)" if "\<not> isl (fst m)" for m :: "(sync_error, sync_summary) result \<times> mem_world"
    using that by (metis prod.collapse sum.collapse(2))
  have "\<not> isl (fst (mem_sync ex_lib two_lwk (built_engine one_regs) ?w0))" by code_simp
  from ok [OF this] obtain x where one: "mem_sync ex_lib two_lwk (built_engine one_regs) ?w0 = (Inr x, w1)"
    unfolding w1_def by blast
  have "\<not> isl (fst (mem_sync ex_lib two_lwk (built_engine two_regs) w2))" unfolding w1_def w2_def by code_simp
  from ok [OF this] obtain y w3 where two: "mem_sync ex_lib two_lwk (built_engine two_regs) w2 = (Inr y, w3)" by blast
  have chains: "wf_chain ex_lib two_chain" "inj_on (lib_block_hash ex_lib) (set two_chain)"
      "wf_chain ex_lib ?new" "inj_on (lib_block_hash ex_lib) (set ?new)"
    by (simp_all add: wf_chain_def all_txs_def two_chain_def one_chain_def next_block_def ex_tx_def ex_out_def ex_lib_def)
  have "wallet_run ex_lib two_lwk one_regs (built_engine one_regs) ?w0 []"
    unfolding ex_world_def by (rule wallet_start [OF two_engines(1)])
  from wallet_pass [OF this _ chains(1,2) linked_Nil one]
  have "wallet_run ex_lib two_lwk one_regs (built_engine one_regs) w1 two_chain" by (simp add: ex_world_def)
  then have run: "wallet_run ex_lib two_lwk one_regs (built_engine one_regs) w2 two_chain"
    unfolding w2_def by (rule wallet_node)
  from late_registration_misses [OF run two_engines(2) _ chains(3,4) missed_coin_owned missed_coin_not_old two]
  obtain us where "mem_list_unspent (WalletId [1]) (w_utxos w3) = (Inr us, w_utxos w3)"
    "OutPoint (Txid 2) 0 \<notin> cu_outpoint ` set us" by (auto simp: w2_def missed_coin_def)
  moreover have "mcs_chain (w_chain w2) = ?new" by (simp add: w2_def)
  ultimately show ?thesis using two missed_coin_owned by blast
qed

end
