(* ===== verification/Sync_Retry.thy ===== *)
theory Sync_Retry
  imports Sync_Failure
begin

text \<open>
  Retrying after a failure. A failing call may break a pass off anywhere; if the stores are such
  that a failing call writes nothing (one transaction per call), then passes over a chain that only
  grows converge: whatever was written by the passes that failed, the next one that returns \<open>Ok\<close>
  leaves the stores synced. \<open>retry_env\<close> states what a failing call may leave; the in-memory stores
  satisfy it.
\<close>

definition between ::
    "elements_lib \<Rightarrow> ('d, 'k, 'w) lwk_lib \<Rightarrow> ('d, 'k, 'w) scan_engine \<Rightarrow> block list \<Rightarrow> nat
     \<Rightarrow> (u32 \<rightharpoonup> (block_hash \<times> u8 list)) \<Rightarrow> ledger \<Rightarrow> bool" where
  "between E L eng chain n bl led \<longleftrightarrow> blocks_match E bl (take n chain)
     \<and> fragment (wallet_ledger E L eng chain) led \<and> covers (wallet_ledger E L eng (take n chain)) led"

text \<open>
  The stores between two passes over a growing chain: the cursor names the tip of a prefix of the
  chain, the blocks of the prefix are stored, and the ledger is between the prefix and the chain.
\<close>

definition resumable ::
    "elements_lib \<Rightarrow> ('d, 'k, 'w) lwk_lib \<Rightarrow> ('d, 'k, 'w) scan_engine \<Rightarrow> block list
     \<Rightarrow> (u32 \<rightharpoonup> (block_hash \<times> u8 list)) \<Rightarrow> synced_tip option \<Rightarrow> ledger \<Rightarrow> bool" where
  "resumable E L eng chain bl tip led \<longleftrightarrow>
     (\<exists>k \<le> length chain. tip = tip_of E (take k chain) \<and> between E L eng chain k bl led)"

lemma between_mono:
  assumes "wf_chain E chain" and "between E L eng chain n bl led" and "k \<le> n"
  shows "between E L eng chain k bl led"
proof -
  have "blocks_match E bl (take k chain)"
    using assms(2,3) blocks_match_take [of E bl "take n chain" k] by (simp add: between_def min_absorb1)
  then show ?thesis
    using assms(2) covers_trans [OF covers_take [OF assms(1,3), of L eng], of led]
    by (simp add: between_def)
qed

lemma between_store:
  assumes "between E L eng chain n bl led" and "n < length chain" and "length chain < 2 ^ 32"
  shows "between E L eng chain n (bl(word_of_nat n \<mapsto>
      (lib_block_hash E (chain ! n), lib_serialize_block E (chain ! n)))) led"
    and "blocks_match E (bl(word_of_nat n \<mapsto>
      (lib_block_hash E (chain ! n), lib_serialize_block E (chain ! n)))) (take (Suc n) chain)"
proof -
  show next_match: "blocks_match E (bl(word_of_nat n \<mapsto>
      (lib_block_hash E (chain ! n), lib_serialize_block E (chain ! n)))) (take (Suc n) chain)"
    using assms by (intro blocks_match_step) (auto simp: between_def)
  show "between E L eng chain n (bl(word_of_nat n \<mapsto>
      (lib_block_hash E (chain ! n), lib_serialize_block E (chain ! n)))) led"
    using assms(1) blocks_match_take [OF next_match, of n] by (simp add: between_def min_absorb1)
qed

lemma between_at_tip:
  assumes "wf_chain E chain" and "between E L eng chain (length chain) bl led"
  shows "blocks_match E bl chain \<and> led = wallet_ledger E L eng chain"
  using assms fragment_complete [OF _ _ consistent_wallet_ledger] by (auto simp: between_def)

lemma synced_between:
  assumes "wf_chain E chain" and "blocks_match E bl (take k chain)"
    and "led = wallet_ledger E L eng (take k chain)"
  shows "between E L eng chain k bl led"
  using assms fragment_take [OF assms(1)] by (simp add: between_def)

text \<open>The invariant moves along when the chain grows.\<close>

lemma resumable_grow:
  assumes wf: "wf_chain E chain'" and grow: "take (length chain) chain' = chain"
    and res: "resumable E L eng chain bl tip led"
  shows "resumable E L eng chain' bl tip led"
proof -
  from res obtain k where k: "k \<le> length chain" "tip = tip_of E (take k chain)"
    and bet: "between E L eng chain k bl led" by (auto simp: resumable_def)
  have "take k chain' = take k chain"
    using k(1) unfolding arg_cong [OF grow, of "take k", symmetric] by (simp add: min_absorb1)
  moreover have "fragment (wallet_ledger E L eng chain') led"
    using bet fragment_trans [OF fragment_take [OF wf, of L eng "length chain", unfolded grow]]
    by (auto simp: between_def)
  moreover have "length chain \<le> length chain'" by (subst grow [symmetric]) simp
  ultimately show ?thesis using k bet by (auto simp: resumable_def between_def intro!: exI [of _ k])
qed

text \<open>The height after one of the old chain where a scan starts is the fork.\<close>

lemma start_of_fork:
  assumes "wf_chain E old" and "fork_at E old new k" and "(h :: u32) + 1 = word_of_nat k"
    and "unat h \<le> length old - 1"
  shows "k = Suc (unat h)"
proof -
  have len: "length old < 2 ^ 32" using assms(1) by (simp add: wf_chain_def)
  have k: "unat (word_of_nat k :: u32) = k"
    using assms(2) len by (intro unat_word_of_nat_u32) (auto simp: fork_at_def)
  show ?thesis
  proof (cases "old = []")
    case True
    with assms(2,4) have "k = 0" "h = 0" by (simp_all add: fork_at_def unat_eq_zero)
    with assms(3) show ?thesis by simp
  next
    case False
    then have "unat h + 1 < 2 ^ 32 \<or> unat h + 1 = length old" using assms(4) len by (cases old) auto
    then have "unat h + 1 < 2 ^ 32" using len by auto
    then show ?thesis using u32_succ [of h] k assms(3) by simp
  qed
qed

section \<open>Any outcome of a call\<close>

lemma bindSE:
  assumes "bindS m f s = (r, s'')"
  obtains e where "m s = (Inl e, s'')" and "r = Inl e"
  | a s' where "m s = (Inr a, s')" and "f a s' = (r, s'')"
  using assms by (auto simp: bindS_def split: prod.splits sum.splits)

locale retry_env = scan_env +
  assumes upsert_fails: "us_inv s \<Longrightarrow> us_upsert_utxos U us s = (Inl e, s') \<Longrightarrow>
      us_inv s' \<and> us_ledger s' = us_ledger s"
    and mark_spent_fails: "us_inv s \<Longrightarrow> us_mark_spent U ps h s = (Inl e, s') \<Longrightarrow>
      us_inv s' \<and> us_ledger s' = us_ledger s"
    and unspent_outpoints_fails: "us_inv s \<Longrightarrow> us_unspent_outpoints U s = (Inl e, s') \<Longrightarrow>
      us_inv s' \<and> us_ledger s' = us_ledger s"
    and us_rollback_never_fails: "us_inv s \<Longrightarrow> \<exists>s'. us_rollback_above U a s = (Inr (), s')"
    and store_block_fails: "bs_inv z \<Longrightarrow> bs_store_block B h x raw z = (Inl e, z') \<Longrightarrow>
      bs_inv z' \<and> bs_blocks z' = bs_blocks z"
    and set_synced_tip_fails: "bs_inv z \<Longrightarrow> bs_set_synced_tip B t z = (Inl e, z') \<Longrightarrow>
      bs_inv z' \<and> bs_blocks z' = bs_blocks z"
    and bs_rollback_fails: "bs_inv z \<Longrightarrow> bs_rollback_above B a z = (Inl e, z') \<Longrightarrow>
      bs_inv z' \<and> bs_blocks z' = bs_blocks z \<and> bs_tip z' = bs_tip z"
    and bs_rollback_cursor: "bs_inv z \<Longrightarrow> bs_rollback_above B a z = (Inr y, z') \<Longrightarrow>
      bs_tip z' = Some t \<Longrightarrow> st_height t \<le> a"
begin

text \<open>Calls of the node and reads of the block store change nothing, whatever they return.\<close>

lemma node_hash_any:
  "on_chain (cs_block_hash C h) w = (r, w') \<Longrightarrow>
   cs_chain (w_chain w') = cs_chain (w_chain w) \<and> w_blocks w' = w_blocks w \<and> w_utxos w' = w_utxos w"
  using block_hash by (auto elim!: on_chainE)

lemma node_tip_any:
  "on_chain (cs_tip_height C) w = (r, w') \<Longrightarrow>
   cs_chain (w_chain w') = cs_chain (w_chain w) \<and> w_blocks w' = w_blocks w \<and> w_utxos w' = w_utxos w"
  using tip_height by (auto elim!: on_chainE)

lemma node_block_any:
  "on_chain (cs_block C x) w = (r, w') \<Longrightarrow>
   cs_chain (w_chain w') = cs_chain (w_chain w) \<and> w_blocks w' = w_blocks w \<and> w_utxos w' = w_utxos w"
  using block_by_hash by (auto elim!: on_chainE)

lemma flush_captured_fails:
  assumes "flush_captured U acc w = (Inl e, w')" and "us_inv (w_utxos w)"
  shows "us_inv (w_utxos w') \<and> us_ledger (w_utxos w') = us_ledger (w_utxos w)
    \<and> w_chain w' = w_chain w \<and> w_blocks w' = w_blocks w"
  using assms upsert_fails
  by (auto simp: flush_captured_def Let_def elim!: bindSE on_utxosE split: if_splits)

lemma flush_spent_fails:
  assumes "flush_spent U h acc w = (Inl e, w')" and "us_inv (w_utxos w)"
  shows "us_inv (w_utxos w') \<and> us_ledger (w_utxos w') = us_ledger (w_utxos w)
    \<and> w_chain w' = w_chain w \<and> w_blocks w' = w_blocks w"
  using assms mark_spent_fails
  by (auto simp: flush_spent_def Let_def elim!: bindSE on_utxosE split: if_splits)

text \<open>
  The two writes at the end of a block, with any outcome: they leave the ledger between the bounds,
  and after both it covers the block.
\<close>

lemma flush_any:
  assumes wf: "wf_chain E chain" and n: "n < length chain" and inv: "us_inv (w_utxos w)"
    and frag: "fragment (wallet_ledger E L eng chain) (us_ledger (w_utxos w))"
    and cov: "covers (wallet_ledger E L eng (take n chain)) (us_ledger (w_utxos w))"
    and caps: "sa_captured acc = block_creates E L eng n chain"
    and spent: "set (sa_spent acc) = block_inputs n chain \<inter> ({op. is_unspent (us_ledger (w_utxos w)) op}
      \<union> cu_outpoint ` set (block_creates E L eng n chain))"
    and call: "bindS (flush_captured U acc) (\<lambda>acc. bindS (flush_spent U (word_of_nat n) acc)
      (\<lambda>acc. ret (bump_blocks acc))) w = (r, w')"
  shows "us_inv (w_utxos w') \<and> w_blocks w' = w_blocks w \<and> w_chain w' = w_chain w
    \<and> fragment (wallet_ledger E L eng chain) (us_ledger (w_utxos w'))
    \<and> covers (wallet_ledger E L eng (take n chain)) (us_ledger (w_utxos w'))
    \<and> (\<forall>acc'. r = Inr acc' \<longrightarrow> covers (wallet_ledger E L eng (take (Suc n) chain)) (us_ledger (w_utxos w'))
        \<and> sa_spend_index acc' = sa_spend_index acc
        \<and> us_ledger (w_utxos w') = spend_all (sa_spent acc) (word_of_nat n)
            (put_all (block_creates E L eng n chain) (us_ledger (w_utxos w))))"
proof -
  let ?us = "block_creates E L eng n chain" and ?m = "us_ledger (w_utxos w)"
  let ?T = "wallet_ledger E L eng chain" and ?W = "wallet_ledger E L eng (take n chain)"
  let ?m1 = "put_all ?us ?m"
  have mid: "fragment ?T ?m1" "covers ?W ?m1"
    using fragment_block(1) [OF wf n frag cov] covers_put_all [OF cov] block_creates_fresh [OF wf n] by blast+
  have unspent: "{op. is_unspent ?m1 op} = {op. is_unspent ?m op} \<union> cu_outpoint ` set ?us"
    using unspent_put_all [of ?us ?m] block_creates_in [OF wf n] by blast
  from call show ?thesis
  proof (cases rule: bindSE)
    case (1 e)
    then show ?thesis using flush_captured_fails [OF 1(1) inv] frag cov by simp
  next
    case c1: (2 acc1 w1)
    note w1 = flush_captured_ok [OF c1(1) inv, unfolded caps]
    then have inv1: "us_inv (w_utxos w1)" and led1: "us_ledger (w_utxos w1) = ?m1"
      and acc1: "sa_spent acc1 = sa_spent acc" "sa_spend_index acc1 = sa_spend_index acc" by auto
    from c1(2) show ?thesis
    proof (cases rule: bindSE)
      case (1 e)
      then show ?thesis using flush_spent_fails [OF 1(1) inv1] w1 mid by simp
    next
      case c2: (2 acc2 w2)
      note w2 = flush_spent_ok [OF c2(1) inv1, unfolded acc1 led1]
      have "set (sa_spent acc) \<subseteq> block_inputs n chain \<inter> {op. is_unspent ?m1 op}"
        unfolding unspent spent by blast
      then have "fragment ?T (spend_all (sa_spent acc) (word_of_nat n) ?m1)"
        by (rule fragment_block(2) [OF wf n frag cov])
      moreover note covers_spend_all [OF mid(2)] covers_block [OF wf n cov spent]
      ultimately show ?thesis using c2(2) w1 w2 acc1 by (auto simp: ret_def bump_blocks_def)
    qed
  qed
qed

text \<open>The rest of a block's scan once the block is stored, with any outcome.\<close>

lemma scan_stored_any:
  assumes eng: "engine_wf eng" and wf: "wf_chain E chain" and n: "n < length chain" and inv: "us_inv (w_utxos w)"
    and bet: "between E L eng chain n (bs_blocks (w_blocks w)) (us_ledger (w_utxos w))"
    and stored: "blocks_match E (bs_blocks (w_blocks w)) (take (Suc n) chain)"
    and index: "dom (map_of (sa_spend_index acc)) = {op. is_unspent (us_ledger (w_utxos w)) op}"
    and call: "bindS (of_result (scan_txs E L eng (word_of_nat n) (blk_txdata (chain ! n)) (acc\<lparr>sa_captured := [], sa_spent := []\<rparr>)))
      (\<lambda>acc. bindS (flush_captured U acc) (\<lambda>acc. bindS (flush_spent U (word_of_nat n) acc) (\<lambda>acc. ret (bump_blocks acc)))) w = (r, w')"
  shows "us_inv (w_utxos w') \<and> w_blocks w' = w_blocks w \<and> w_chain w' = w_chain w
    \<and> between E L eng chain n (bs_blocks (w_blocks w')) (us_ledger (w_utxos w'))
    \<and> (\<forall>acc'. r = Inr acc' \<longrightarrow>
        between E L eng chain (Suc n) (bs_blocks (w_blocks w')) (us_ledger (w_utxos w'))
        \<and> dom (map_of (sa_spend_index acc')) = {op. is_unspent (us_ledger (w_utxos w')) op})"
proof -
  let ?h = "word_of_nat n :: u32" and ?b = "chain ! n" and ?m = "us_ledger (w_utxos w)" and ?us = "block_creates E L eng n chain"
  let ?acc0 = "acc\<lparr>sa_captured := [], sa_spent := []\<rparr>"
  obtain acc1 where acc1: "scan_txs E L eng ?h (blk_txdata ?b) ?acc0 = Inr acc1"
    and dom1: "dom (map_of (sa_spend_index acc1)) = ({op. is_unspent ?m op} \<union> cu_outpoint ` set ?us) - block_inputs n chain"
    and spent1: "set (sa_spent acc1) = block_inputs n chain \<inter> ({op. is_unspent ?m op} \<union> cu_outpoint ` set ?us)"
    using scan_txs_sets [OF eng next_block_fresh(1) [OF wf n], of L ?h ?acc0]
    by (elim exE conjE) (rule that, simp_all add: index txs_events_spends block_creates_def block_inputs_def)
  have caps: "sa_captured acc1 = ?us"
    using scan_txs_frame [OF eng next_block_fresh(1) [OF wf n] acc1] by (simp add: block_creates_def)
  have rest: "bindS (flush_captured U acc1) (\<lambda>acc. bindS (flush_spent U ?h acc) (\<lambda>acc. ret (bump_blocks acc))) w = (r, w')"
    using call acc1 by (simp add: bindS_def of_result_def)
  have bounds: "fragment (wallet_ledger E L eng chain) ?m" "covers (wallet_ledger E L eng (take n chain)) ?m"
    using bet by (simp_all add: between_def)
  note fin = flush_any [OF wf n inv bounds caps spent1 rest]
  have index': "{op. is_unspent (spend_all (sa_spent acc1) ?h (put_all ?us ?m)) op} = dom (map_of (sa_spend_index acc1))"
    using unspent_put_all [of ?us ?m] block_creates_in [OF wf n] unfolding unspent_spend_all dom1 spent1 by blast
  have "between E L eng chain n (bs_blocks (w_blocks w')) (us_ledger (w_utxos w'))"
    using fin bet by (simp add: between_def)
  moreover have "between E L eng chain (Suc n) (bs_blocks (w_blocks w')) (us_ledger (w_utxos w'))
      \<and> dom (map_of (sa_spend_index acc')) = {op. is_unspent (us_ledger (w_utxos w')) op}" if "r = Inr acc'" for acc'
    unfolding between_def using fin that stored index' by metis
  ultimately show ?thesis using fin by blast
qed

text \<open>
  One block, with any outcome: the blocks and the ledger stay between the bounds, and \<open>Ok\<close> moves
  the lower one.
\<close>

lemma scan_block_any:
  assumes eng: "engine_wf eng" and wf: "wf_chain E chain" and n: "n < length chain"
    and inj: "inj_on (lib_block_hash E) (set chain)"
    and inv: "us_inv (w_utxos w)" "bs_inv (w_blocks w)" and chain: "cs_chain (w_chain w) = chain"
    and bet: "between E L eng chain n (bs_blocks (w_blocks w)) (us_ledger (w_utxos w))"
    and index: "dom (map_of (sa_spend_index acc)) = {op. is_unspent (us_ledger (w_utxos w)) op}"
    and call: "scan_block C B U E L eng (word_of_nat n) acc w = (r, w')"
  shows "us_inv (w_utxos w') \<and> bs_inv (w_blocks w') \<and> cs_chain (w_chain w') = chain
    \<and> bs_tip (w_blocks w') = bs_tip (w_blocks w)
    \<and> between E L eng chain n (bs_blocks (w_blocks w')) (us_ledger (w_utxos w'))
    \<and> (\<forall>acc'. r = Inr acc' \<longrightarrow>
        between E L eng chain (Suc n) (bs_blocks (w_blocks w')) (us_ledger (w_utxos w'))
        \<and> dom (map_of (sa_spend_index acc')) = {op. is_unspent (us_ledger (w_utxos w')) op})"
proof -
  let ?h = "word_of_nat n :: u32"
  let ?ok = "\<lambda>v. us_inv (w_utxos v) \<and> bs_inv (w_blocks v) \<and> cs_chain (w_chain v) = chain
    \<and> bs_tip (w_blocks v) = bs_tip (w_blocks w)
    \<and> between E L eng chain n (bs_blocks (w_blocks v)) (us_ledger (w_utxos v))"
  have len: "length chain < 2 ^ 32" and n32: "n < 2 ^ 32" using n wf by (auto simp: wf_chain_def)
  have same: "?ok v" if "w_blocks v = w_blocks w" "w_utxos v = w_utxos w" "cs_chain (w_chain v) = chain" for v
    using that inv bet by simp
  from call [unfolded scan_block_def] show ?thesis
  proof (cases rule: bindSE)
    case (1 e)
    then show ?thesis using node_hash_any same chain by fastforce
  next
    case c1: (2 x w1)
    have w1: "cs_chain (w_chain w1) = chain" "w_blocks w1 = w_blocks w" "w_utxos w1 = w_utxos w"
      using node_hash_any [OF c1(1)] chain by auto
    from c1(2) show ?thesis
    proof (cases rule: bindSE)
      case (1 e)
      then show ?thesis using node_block_any same w1 by fastforce
    next
      case c2: (2 blk w2)
      have w2: "cs_chain (w_chain w2) = chain" "w_blocks w2 = w_blocks w" "w_utxos w2 = w_utxos w"
        using node_block_any [OF c2(1)] w1 by auto
      from c2(2) show ?thesis
      proof (cases rule: bindSE)
        case (1 e)
        then have "bs_inv (w_blocks w') \<and> bs_blocks (w_blocks w') = bs_blocks (w_blocks w)
            \<and> bs_tip (w_blocks w') = bs_tip (w_blocks w) \<and> w_utxos w' = w_utxos w2 \<and> w_chain w' = w_chain w2"
          using w2 inv store_block_fails store_block_err by (auto elim!: on_blocksE)
        then show ?thesis using 1 w2 inv bet by simp
      next
        case c3: (2 y w3)
        have "on_blocks (bs_store_block B ?h x (lib_serialize_block E blk)) w2 = (Inr (), w3)"
          using c3(1) by simp
        note w3 = fetch_ok [OF n n32 inj inv(2) chain c1(1) c2(1) this]
        note stored = between_store [OF bet n len]
        have "between E L eng chain n (bs_blocks (w_blocks w3)) (us_ledger (w_utxos w3))"
            "blocks_match E (bs_blocks (w_blocks w3)) (take (Suc n) chain)"
            "dom (map_of (sa_spend_index acc)) = {op. is_unspent (us_ledger (w_utxos w3)) op}" "us_inv (w_utxos w3)"
          using w3 stored inv(1) index by simp_all
        note scan_stored_any [OF eng wf n this(4,1,2,3) c3(2) [unfolded conjunct1 [OF w3]]]
        then show ?thesis using w3 by metis
      qed
    qed
  qed
qed

lemma scan_blocks_any:
  assumes eng: "engine_wf eng" and wf: "wf_chain E chain"
    and inj: "inj_on (lib_block_hash E) (set chain)"
    and "n \<le> length chain"
    and "us_inv (w_utxos w)" and "bs_inv (w_blocks w)" and "cs_chain (w_chain w) = chain"
    and "between E L eng chain n (bs_blocks (w_blocks w)) (us_ledger (w_utxos w))"
    and "dom (map_of (sa_spend_index acc)) = {op. is_unspent (us_ledger (w_utxos w)) op}"
    and "scan_blocks C B U E L eng (map word_of_nat [n ..< length chain]) acc w = (r, w')"
  shows "us_inv (w_utxos w') \<and> bs_inv (w_blocks w') \<and> cs_chain (w_chain w') = chain
    \<and> bs_tip (w_blocks w') = bs_tip (w_blocks w)
    \<and> between E L eng chain n (bs_blocks (w_blocks w')) (us_ledger (w_utxos w'))
    \<and> (\<forall>acc'. r = Inr acc' \<longrightarrow>
        between E L eng chain (length chain) (bs_blocks (w_blocks w')) (us_ledger (w_utxos w')))"
  using assms(4-)
proof (induction "length chain - n" arbitrary: n acc w)
  case 0
  then show ?case by simp
next
  case (Suc d)
  then have n: "n < length chain" and up: "[n ..< length chain] = n # [Suc n ..< length chain]"
    by (simp_all add: upt_conv_Cons)
  have d: "d = length chain - Suc n" "Suc n \<le> length chain" using Suc.hyps(2) n by auto
  from Suc.prems(7) [unfolded up list.map scan_blocks.simps] show ?case
  proof (cases rule: bindSE)
    case (1 e)
    then show ?thesis using scan_block_any [OF eng wf n inj Suc.prems(2-6) 1(1)] by simp
  next
    case (2 acc1 w1)
    note step = scan_block_any [OF eng wf n inj Suc.prems(2-6) 2(1)]
    have "us_inv (w_utxos w1)" "bs_inv (w_blocks w1)" "cs_chain (w_chain w1) = chain"
      "between E L eng chain (Suc n) (bs_blocks (w_blocks w1)) (us_ledger (w_utxos w1))"
      "dom (map_of (sa_spend_index acc1)) = {op. is_unspent (us_ledger (w_utxos w1)) op}"
      using step by blast+
    note rest = Suc.hyps(1) [OF d this 2(2)]
    have "between E L eng chain n (bs_blocks (w_blocks w')) (us_ledger (w_utxos w'))"
      by (rule between_mono [OF wf, of L eng "Suc n"]) (use rest in simp_all)
    then show ?thesis using rest step by simp
  qed
qed

lemma find_common_ancestor_any:
  assumes "bs_inv (w_blocks w)" and "find_common_ancestor C B h w = (r, w')"
  shows "w_blocks w' = w_blocks w \<and> w_utxos w' = w_utxos w \<and> cs_chain (w_chain w') = cs_chain (w_chain w)"
  using assms
proof (induction "unat h" arbitrary: h w rule: less_induct)
  case less
  from less.prems(2) [unfolded find_common_ancestor.simps [of C B h]] show ?case
  proof (cases rule: bindSE)
    case (1 e)
    then show ?thesis using block_hash_at less.prems(1) by (auto elim!: on_blocksE)
  next
    case c1: (2 at_h w1)
    have w1: "w1 = w" using block_hash_at less.prems(1) c1(1) by (auto elim!: on_blocksE)
    have looked: "w_blocks v = w_blocks w \<and> w_utxos v = w_utxos w \<and> cs_chain (w_chain v) = cs_chain (w_chain w)"
      if "(case at_h of Some stored \<Rightarrow> bindS (on_chain (cs_block_hash C h)) (\<lambda>x. ret (stored = x))
        | None \<Rightarrow> ret False) w1 = (q, v)" for q v
      using that w1 by (auto elim!: bindSE dest!: node_hash_any split: option.splits)
    from c1(2) show ?thesis
    proof (cases rule: bindSE)
      case (1 e)
      then show ?thesis using looked by blast
    next
      case (2 same w2)
      have w2: "w_blocks w2 = w_blocks w" "w_utxos w2 = w_utxos w" "cs_chain (w_chain w2) = cs_chain (w_chain w)"
        using looked [OF 2(1)] by auto
      have "unat (h - 1) < unat h" if "h \<noteq> 0" using that by (simp add: measure_unat)
      with 2(2) w2 less.hyps [of "h - 1" w2] less.prems(1) show ?thesis by (auto split: if_splits)
    qed
  qed
qed

text \<open>The cursor after a rollback names a block of the prefix common to both chains.\<close>

lemma rolled_cursor:
  assumes inv: "bs_inv z" and roll: "bs_rollback_above B a z = (Inr y, z')"
    and bm: "blocks_match E (bs_blocks z) old" and wf: "wf_chain E old" and tip: "bs_tip z = tip_of E old"
    and k: "Suc (unat a) < length old" "Suc (unat a) \<le> length new" "take (Suc (unat a)) old = take (Suc (unat a)) new"
  shows "\<exists>k' \<le> Suc (unat a). bs_tip z' = tip_of E (take k' new)"
proof (cases "bs_tip z'")
  case None
  then show ?thesis by (intro exI [of _ 0]) (simp add: tip_of_def)
next
  case (Some t)
  have a: "st_height t \<le> a" by (rule bs_rollback_cursor [OF inv roll Some])
  let ?i = "unat (st_height t)"
  have i: "?i \<le> unat a" using a by (simp add: word_le_nat_alt)
  have "bs_tip z \<noteq> Some t"
  proof
    assume "bs_tip z = Some t"
    then have "st_height t = word_of_nat (length old - 1)" using tip tip_of_Some(2) by metis
    moreover have "unat (word_of_nat (length old - 1) :: u32) = length old - 1"
      using wf by (intro unat_word_of_nat_u32) (auto simp: wf_chain_def)
    ultimately show False using i k(1) by simp
  qed
  then have "map_option fst (bs_blocks z (st_height t)) = Some (st_hash t)"
    using bs_rollback [OF inv roll] Some by blast
  moreover have "bs_blocks z (word_of_nat ?i) = Some (lib_block_hash E (old ! ?i), lib_serialize_block E (old ! ?i))"
    using bm [unfolded blocks_match_def, rule_format, of ?i] i k(1) by simp
  moreover have "old ! ?i = new ! ?i"
    using i arg_cong [OF k(3), of "\<lambda>xs. xs ! ?i"] by simp
  ultimately have "st_hash t = lib_block_hash E (new ! ?i)" by simp
  moreover have "last (take (Suc ?i) new) = new ! ?i" "take (Suc ?i) new \<noteq> []" "length (take (Suc ?i) new) - 1 = ?i"
    using i k(2) by (auto simp: take_Suc_conv_app_nth)
  ultimately have "tip_of E (take (Suc ?i) new) = Some t"
    by (cases t) (simp add: tip_of_def)
  then show ?thesis using Some i by (intro exI [of _ "Suc ?i"]) simp
qed

lemma store_cursor_any:
  "on_blocks (bs_synced_tip B) w = (r, w') \<Longrightarrow> bs_inv (w_blocks w) \<Longrightarrow> w' = w"
  by (auto elim!: on_blocksE dest: synced_tip)

lemma rollbacks_any:
  assumes inv: "us_inv (w_utxos w)" "bs_inv (w_blocks w)"
    and call: "bindS (on_blocks (bs_rollback_above B a)) (\<lambda>_.
      bindS (on_utxos (us_rollback_above U a)) (\<lambda>_. ret p)) w = (r, w')"
  obtains "r \<in> range Inl" and "us_inv (w_utxos w')" and "us_ledger (w_utxos w') = us_ledger (w_utxos w)"
      and "bs_inv (w_blocks w')" and "bs_blocks (w_blocks w') = bs_blocks (w_blocks w)"
      and "bs_tip (w_blocks w') = bs_tip (w_blocks w)" and "w_chain w' = w_chain w"
  | "r = Inr p" and "bs_rollback_above B a (w_blocks w) = (Inr (), w_blocks w')"
  using call
proof (cases rule: bindSE)
  case (1 e)
  from 1(1) have "bs_rollback_above B a (w_blocks w) = (Inl e, w_blocks w')" "w' = w\<lparr>w_blocks := w_blocks w'\<rparr>"
    by (auto elim!: on_blocksE)
  moreover from this(2) have "w_utxos w' = w_utxos w" "w_chain w' = w_chain w"
    by (metis world.select_convs world.surjective world.update_convs)+
  ultimately show thesis using 1(2) inv bs_rollback_fails [OF inv(2)] by (intro that(1)) auto
next
  case (2 y w1)
  from 2(1) have c1: "bs_rollback_above B a (w_blocks w) = (Inr (), w_blocks w1)" "w_utxos w1 = w_utxos w"
    by (auto elim!: on_blocksE)
  obtain z where "us_rollback_above U a (w_utxos w1) = (Inr (), z)"
    using us_rollback_never_fails inv c1(2) by metis
  with 2(2) have "r = Inr p" "w_blocks w' = w_blocks w1" by (auto simp: on_utxos_def)
  with c1 that(2) show thesis by simp
qed

lemma walk_and_rollback_any:
  assumes inv: "us_inv (w_utxos w)" "bs_inv (w_blocks w)"
    and call: "bindS (find_common_ancestor C B h) (\<lambda>ancestor.
      bindS (on_blocks (bs_rollback_above B ancestor)) (\<lambda>_.
      bindS (on_utxos (us_rollback_above U ancestor)) (\<lambda>_.
      ret (ancestor + 1, Some ancestor)))) w = (r, w')"
  obtains "r \<in> range Inl" and "us_inv (w_utxos w')" and "us_ledger (w_utxos w') = us_ledger (w_utxos w)"
      and "bs_inv (w_blocks w')" and "bs_blocks (w_blocks w') = bs_blocks (w_blocks w)"
      and "bs_tip (w_blocks w') = bs_tip (w_blocks w)" and "cs_chain (w_chain w') = cs_chain (w_chain w)"
  | a where "r = Inr (a + 1, Some a)" and "a \<le> h"
      and "bs_rollback_above B a (w_blocks w) = (Inr (), w_blocks w')"
  using call
proof (cases rule: bindSE)
  case (1 e)
  then show thesis using find_common_ancestor_any [OF inv(2) 1(1)] inv by (intro that(1)) auto
next
  case c1: (2 a w1)
  have w1: "w_blocks w1 = w_blocks w" "w_utxos w1 = w_utxos w" "cs_chain (w_chain w1) = cs_chain (w_chain w)"
    using find_common_ancestor_any [OF inv(2) c1(1)] by auto
  then have inv1: "us_inv (w_utxos w1)" "bs_inv (w_blocks w1)" using inv by simp_all
  from inv1 c1(2) show thesis
  proof (cases rule: rollbacks_any)
    case 1
    then show thesis using w1 by (intro that(1)) auto
  next
    case 2
    then show thesis using w1 find_common_ancestor_frame [OF inv(2) c1(1)] by (intro that(2)) auto
  qed
qed

text \<open>The cursor at the start of a scan: the old one, or one a rollback left.\<close>

lemma cursor_at_fork:
  assumes "wf_chain E old" and "tip_of E old = Some t" and k: "fork_at E old new k"
    and "st_height t + 1 = word_of_nat k"
  shows "tip_of E (take k new) = Some t"
proof -
  note t = tip_of_Some [OF assms(2)]
  have "length old < 2 ^ 32" "unat (st_height t) = length old - 1"
    using assms(1) unfolding t(2) by (auto simp: wf_chain_def intro!: unat_word_of_nat_u32)
  then have "k = length old" using start_of_fork [OF assms(1,3,4)] t(1) by simp
  then show ?thesis using k assms(2) by (simp add: fork_at_def)
qed

lemma rolled_cursor_at_fork:
  assumes inv: "bs_inv z" and roll: "bs_rollback_above B a z = (Inr y, z')"
    and bm: "blocks_match E (bs_blocks z) old" and wf: "wf_chain E old" and tip: "bs_tip z = tip_of E old"
    and t: "tip_of E old = Some t" and a: "a \<le> st_height t" and k: "fork_at E old new k" "a + 1 = word_of_nat k"
    and differ: "lib_block_hash E (new ! unat (st_height t)) \<noteq> st_hash t"
  shows "\<exists>k' \<le> k. bs_tip z' = tip_of E (take k' new)"
proof -
  note t = tip_of_Some [OF t]
  have height: "unat (st_height t) = length old - 1" "Suc (length old - 1) = length old"
    using wf t(1) unfolding t(2) by (auto simp: wf_chain_def intro!: unat_word_of_nat_u32)
  have "unat a \<le> length old - 1" using a height(1) by (simp add: word_le_nat_alt)
  then have ka: "k = Suc (unat a)" by (rule start_of_fork [OF wf k])
  have "k \<noteq> length old"
  proof
    assume "k = length old"
    then have "old ! (length old - 1) = new ! (length old - 1)"
      using k(1) height(2) nth_take [of "length old - 1" k new] by (simp add: fork_at_def)
    then show False using differ t(3) height(1) by simp
  qed
  with rolled_cursor [OF inv roll bm wf tip, of new] k(1) ka show ?thesis by (auto simp: fork_at_def)
qed

text \<open>
  The start of a pass over stores still synced with an older chain: a failure leaves them so, and
  success leaves them at the fork with a cursor at or below it.
\<close>

lemma determine_start_synced:
  assumes inv: "us_inv (w_utxos w)" "bs_inv (w_blocks w)"
    and at: "synced E L eng old (bs_blocks (w_blocks w)) (bs_tip (w_blocks w)) (us_ledger (w_utxos w))"
    and chain: "cs_chain (w_chain w) = new" and wf: "wf_chain E new" and link: "linked E old new"
    and call: "determine_start C B U w = (r, w')"
  shows "us_inv (w_utxos w') \<and> bs_inv (w_blocks w') \<and> cs_chain (w_chain w') = new
    \<and> (r \<in> range Inl \<longrightarrow>
        synced E L eng old (bs_blocks (w_blocks w')) (bs_tip (w_blocks w')) (us_ledger (w_utxos w')))
    \<and> (\<forall>start reorg. r = Inr (start, reorg) \<longrightarrow> (\<exists>k k'. start = word_of_nat k \<and> k' \<le> k \<and> k \<le> length new
        \<and> bs_tip (w_blocks w') = tip_of E (take k' new)
        \<and> between E L eng new k (bs_blocks (w_blocks w')) (us_ledger (w_utxos w'))))"
proof -
  have old: "wf_chain E old" "blocks_match E (bs_blocks (w_blocks w)) old" "bs_tip (w_blocks w) = tip_of E old"
    using at by (auto simp: synced_def)
  have kept: ?thesis if "r \<in> range Inl" "us_inv (w_utxos w')" "us_ledger (w_utxos w') = us_ledger (w_utxos w)"
      "bs_inv (w_blocks w')" "bs_blocks (w_blocks w') = bs_blocks (w_blocks w)"
      "bs_tip (w_blocks w') = bs_tip (w_blocks w)" "cs_chain (w_chain w') = new"
    using that at by auto
  have started: ?thesis
    if r: "r = Inr (start, reorg)" and tip': "\<And>k. fork_at E old new k \<Longrightarrow> start = word_of_nat k \<Longrightarrow>
      \<exists>k' \<le> k. bs_tip (w_blocks w') = tip_of E (take k' new)" for start reorg
  proof -
    have "determine_start C B U w = (Inr (start, reorg), w')" using call r by simp
    then obtain k where "fork_at E old new k" "start = word_of_nat k" "us_inv (w_utxos w')" "bs_inv (w_blocks w')"
        "cs_chain (w_chain w') = new" "blocks_match E (bs_blocks (w_blocks w')) (take k new)"
        "us_ledger (w_utxos w') = wallet_ledger E L eng (take k new)"
      using determine_start_ok [OF inv at chain link] by blast
    with tip' [OF this(1,2)] synced_between [OF wf this(6,7)] r show ?thesis
      by (auto simp: fork_at_def)
  qed
  from call [unfolded determine_start_def] show ?thesis
  proof (cases rule: bindSE)
    case (1 e)
    then show ?thesis using store_cursor_any [OF 1(1) inv(2)] inv chain by (intro kept) auto
  next
    case c1: (2 cursor w1)
    then have w1: "w1 = w" "cursor = tip_of E old" using store_cursor [OF c1(1) inv(2)] old(3) by auto
    show ?thesis
    proof (cases "tip_of E old")
      case None
      then have "r = Inr (0, None)" "w' = w" using c1(2) w1 by simp_all
      then show ?thesis using None old(3)
        by (intro started [of 0 None]) (auto intro!: exI [of _ 0] simp: tip_of_def)
    next
      case (Some t)
      from c1(2) [unfolded w1 Some option.case] show ?thesis
      proof (cases rule: bindSE)
        case (1 e)
        then show ?thesis using node_hash_any [OF 1(1)] inv chain by (intro kept) auto
      next
        case c2: (2 x w2)
        note w2 = node_hash_any [OF c2(1)]
        then have inv2: "us_inv (w_utxos w2)" "bs_inv (w_blocks w2)" using inv by simp_all
        show ?thesis
        proof (cases "x = st_hash t")
          case True
          then have out: "r = Inr (st_height t + 1, None)" "w' = w2" using c2(2) by simp_all
          then show ?thesis
            using cursor_at_fork [OF old(1) Some, of new] old(3) w2 Some by (intro started [OF out(1)]) auto
        next
          case False
          then have differ: "lib_block_hash E (new ! unat (st_height t)) \<noteq> st_hash t"
            using node_hash [OF c2(1)] chain by auto
          from inv2 c2(2) [unfolded if_not_P [OF False]] show ?thesis
          proof (cases rule: walk_and_rollback_any)
            case 1
            then show ?thesis using w2 chain by (intro kept) simp_all
          next
            case (2 a)
            then show ?thesis using w2
              by (intro started [OF 2(1)] rolled_cursor_at_fork [OF inv(2) _ old(2,1,3) Some 2(2) _ _ differ, of _ "w_blocks w'"]) auto
          qed
        qed
      qed
    qed
  qed
qed

text \<open>The start of a pass that resumes: the cursor's block is on the chain, so nothing is rolled back.\<close>

lemma determine_start_resumed:
  assumes inv: "us_inv (w_utxos w)" "bs_inv (w_blocks w)" and chain: "cs_chain (w_chain w) = chain"
    and tip: "bs_tip (w_blocks w) = tip_of E (take k chain)" and k: "k \<le> length chain"
    and wf: "wf_chain E chain" and call: "determine_start C B U w = (r, w')"
  shows "w_blocks w' = w_blocks w \<and> w_utxos w' = w_utxos w \<and> cs_chain (w_chain w') = chain
    \<and> (\<forall>start reorg. r = Inr (start, reorg) \<longrightarrow> start = word_of_nat k)"
  using call [unfolded determine_start_def]
proof (cases rule: bindSE)
  case (1 e)
  then show ?thesis using store_cursor_any [OF 1(1) inv(2)] chain by simp
next
  case c1: (2 cursor w1)
  then have w1: "w1 = w" "cursor = tip_of E (take k chain)" using store_cursor [OF c1(1) inv(2)] tip by auto
  show ?thesis
  proof (cases "tip_of E (take k chain)")
    case None
    then have "k = 0" using k by (auto simp: tip_of_def split: if_splits)
    moreover have "r = Inr (0, None)" "w' = w" using c1(2) [unfolded w1 None] by simp_all
    ultimately show ?thesis using chain by simp
  next
    case (Some t)
    note t = tip_of_Some [OF Some]
    have height: "st_height t = word_of_nat (k - 1)" "0 < k" using t(1,2) k by (auto simp: min_absorb2)
    have "k - 1 < 2 ^ 32" using k wf by (auto simp: wf_chain_def)
    then have at: "unat (st_height t) = k - 1" unfolding height(1) by (rule unat_word_of_nat_u32)
    from c1(2) [unfolded w1 Some option.case] show ?thesis
    proof (cases rule: bindSE)
      case (1 e)
      then show ?thesis using node_hash_any [OF 1(1)] chain by auto
    next
      case c2: (2 x w2)
      have "x = st_hash t" using node_hash [OF c2(1)] t(3) at height(2) k chain by (simp add: min_absorb2)
      moreover have "st_height t + 1 = word_of_nat k"
        using height of_nat_Suc [of "k - 1", where 'a = "32 word"] by (simp add: add.commute del: of_nat_diff)
      ultimately show ?thesis using c2(2) node_hash_any [OF c2(1)] chain by auto
    qed
  qed
qed

text \<open>The last write of a pass over fully scanned stores, with any outcome.\<close>

lemma advance_cursor_any:
  assumes wf: "wf_chain E chain" and inv: "us_inv (w_utxos w)" "bs_inv (w_blocks w)" and chain: "cs_chain (w_chain w) = chain"
    and tip: "Suc (unat tip) = length chain" and start: "start \<le> tip + 1"
    and bet: "between E L eng chain (length chain) (bs_blocks (w_blocks w)) (us_ledger (w_utxos w))"
    and resume: "resumable E L eng chain (bs_blocks (w_blocks w)) (bs_tip (w_blocks w)) (us_ledger (w_utxos w))"
    and call: "bindS (advance_cursor C B start tip) (\<lambda>_. ret (s :: sync_summary)) w = (r, w')"
  shows "us_inv (w_utxos w') \<and> bs_inv (w_blocks w') \<and> cs_chain (w_chain w') = chain
    \<and> resumable E L eng chain (bs_blocks (w_blocks w')) (bs_tip (w_blocks w')) (us_ledger (w_utxos w'))
    \<and> (\<forall>s. r = Inr s \<longrightarrow>
        synced E L eng chain (bs_blocks (w_blocks w')) (bs_tip (w_blocks w')) (us_ledger (w_utxos w')))"
proof -
  have full: "blocks_match E (bs_blocks (w_blocks w)) chain" "us_ledger (w_utxos w) = wallet_ledger E L eng chain"
    using between_at_tip [OF wf bet] by blast+
  from call [unfolded advance_cursor_def if_P [OF start] bindS_assoc] show ?thesis
  proof (cases rule: bindSE)
    case (1 e)
    then show ?thesis using node_hash_any [OF 1(1)] inv chain resume by auto
  next
    case c3: (2 x w3)
    have x: "x = lib_block_hash E (chain ! unat tip)" and w3: "cs_chain (w_chain w3) = chain"
        "w_blocks w3 = w_blocks w" "w_utxos w3 = w_utxos w"
      using node_hash [OF c3(1)] chain by auto
    have inv3: "bs_inv (w_blocks w3)" using inv w3 by simp
    from c3(2) show ?thesis
    proof (cases rule: bindSE)
      case (1 e)
      then show ?thesis using set_synced_tip_fails [OF inv3] set_synced_tip_err [OF inv3] inv w3 resume
        by (auto elim!: on_blocksE)
    next
      case (2 y w4)
      then have w4: "bs_inv (w_blocks w')" "bs_blocks (w_blocks w') = bs_blocks (w_blocks w)"
          "bs_tip (w_blocks w') = tip_of E chain" "w_utxos w' = w_utxos w" "cs_chain (w_chain w') = chain"
        using set_synced_tip [OF inv3] w3 tip_of_last [OF tip, of E] x by (auto elim!: on_blocksE)
      then have "synced E L eng chain (bs_blocks (w_blocks w')) (bs_tip (w_blocks w')) (us_ledger (w_utxos w'))"
        using full wf by (simp add: synced_def)
      moreover have "resumable E L eng chain (bs_blocks (w_blocks w')) (bs_tip (w_blocks w')) (us_ledger (w_utxos w'))"
        unfolding resumable_def using w4 bet by (intro exI [of _ "length chain"]) simp
      ultimately show ?thesis using inv w4 by simp
    qed
  qed
qed

text \<open>The rest of a pass, from the start height on, with any outcome.\<close>

lemma scan_from_start_any:
  assumes eng: "engine_wf eng" and wf: "wf_chain E chain" and inj: "inj_on (lib_block_hash E) (set chain)"
    and inv: "us_inv (w_utxos w)" "bs_inv (w_blocks w)" and chain: "cs_chain (w_chain w) = chain"
    and k: "k' \<le> k" "k \<le> length chain" and tip: "Suc (unat tip) = length chain"
    and cursor: "bs_tip (w_blocks w) = tip_of E (take k' chain)"
    and bet: "between E L eng chain k (bs_blocks (w_blocks w)) (us_ledger (w_utxos w))"
    and call: "bindS (on_utxos (us_unspent_outpoints U)) (\<lambda>pairs.
      bindS (scan_blocks C B U E L eng (u32_range (word_of_nat k) tip)
        \<lparr>sa_spend_index = fold (\<lambda>(op, wid). AList.update op wid) pairs [],
         sa_summary = s0, sa_captured = [], sa_spent = []\<rparr>) (\<lambda>acc.
      bindS (advance_cursor C B (word_of_nat k) tip) (\<lambda>_. ret (sa_summary acc)))) w = (r, w')"
  shows "us_inv (w_utxos w') \<and> bs_inv (w_blocks w') \<and> cs_chain (w_chain w') = chain
    \<and> resumable E L eng chain (bs_blocks (w_blocks w')) (bs_tip (w_blocks w')) (us_ledger (w_utxos w'))
    \<and> (\<forall>s. r = Inr s \<longrightarrow>
        synced E L eng chain (bs_blocks (w_blocks w')) (bs_tip (w_blocks w')) (us_ledger (w_utxos w')))"
proof -
  have len: "length chain < 2 ^ 32" using wf by (simp add: wf_chain_def)
  note pass = start_range [OF refl k(2) len tip]
  have resume: "resumable E L eng chain bl (tip_of E (take k' chain)) led"
    if "between E L eng chain k bl led" for bl led
    unfolding resumable_def using between_mono [OF wf that k(1)] k by (intro exI [of _ k']) simp
  from call show ?thesis
  proof (cases rule: bindSE)
    case (1 e)
    then show ?thesis using unspent_outpoints_fails [OF inv(1)] inv chain cursor resume [OF bet]
      by (auto elim!: on_utxosE)
  next
    case c1: (2 pairs w1)
    have w1: "w1 = w" and pairs: "fst ` set pairs = {op. is_unspent (us_ledger (w_utxos w)) op}"
      using c1(1) unspent_outpoints [OF inv(1)] by (auto elim!: on_utxosE)
    let ?acc = "\<lparr>sa_spend_index = fold (\<lambda>(op, wid). AList.update op wid) pairs [],
         sa_summary = s0, sa_captured = [], sa_spent = []\<rparr>"
    have index: "dom (map_of (sa_spend_index ?acc)) = {op. is_unspent (us_ledger (w_utxos w)) op}"
      by (simp add: dom_spend_index pairs)
    note scan = scan_blocks_any [OF eng wf inj k(2) inv chain bet index]
    from c1(2) [unfolded w1 pass(3)] show ?thesis
    proof (cases rule: bindSE)
      case (1 e)
      then show ?thesis using scan [OF 1(1)] cursor resume by auto
    next
      case c2: (2 acc w2)
      note w2 = scan [OF c2(1)]
      then have acc_ok: "between E L eng chain (length chain) (bs_blocks (w_blocks w2)) (us_ledger (w_utxos w2))" by blast
      have "resumable E L eng chain (bs_blocks (w_blocks w2)) (bs_tip (w_blocks w2)) (us_ledger (w_utxos w2))"
        using w2 cursor resume by simp
      then show ?thesis
        using advance_cursor_any [OF wf _ _ _ tip pass(2) acc_ok _ c2(2)] w2 by simp
    qed
  qed
qed

text \<open>A whole pass with any outcome, over stores synced with an older chain or broken off on this one.\<close>

lemma sync_any:
  assumes eng: "engine_wf eng" and inv: "us_inv (w_utxos w)" "bs_inv (w_blocks w)"
    and chain: "cs_chain (w_chain w) = new" and wf: "wf_chain E new" and inj: "inj_on (lib_block_hash E) (set new)"
    and at: "synced E L eng old (bs_blocks (w_blocks w)) (bs_tip (w_blocks w)) (us_ledger (w_utxos w)) \<and> linked E old new
      \<or> resumable E L eng new (bs_blocks (w_blocks w)) (bs_tip (w_blocks w)) (us_ledger (w_utxos w))"
    and call: "sync C B U E L eng w = (r, w')"
  shows "us_inv (w_utxos w') \<and> bs_inv (w_blocks w') \<and> cs_chain (w_chain w') = new
    \<and> (synced E L eng old (bs_blocks (w_blocks w')) (bs_tip (w_blocks w')) (us_ledger (w_utxos w')) \<and> linked E old new
       \<or> resumable E L eng new (bs_blocks (w_blocks w')) (bs_tip (w_blocks w')) (us_ledger (w_utxos w')))
    \<and> (\<forall>s. r = Inr s \<longrightarrow>
        synced E L eng new (bs_blocks (w_blocks w')) (bs_tip (w_blocks w')) (us_ledger (w_utxos w')))"
  using call [unfolded sync_def]
proof (cases rule: bindSE)
  case (1 e)
  then show ?thesis using node_tip_any [OF 1(1)] inv chain at by auto
next
  case c1: (2 tip w1)
  note w1 = node_tip [OF c1(1), unfolded chain]
  then have tip: "Suc (unat tip) = length new" by blast
  have inv1: "us_inv (w_utxos w1)" "bs_inv (w_blocks w1)" "cs_chain (w_chain w1) = new" using w1 inv by simp_all
  have len: "length new < 2 ^ 32" using wf by (simp add: wf_chain_def)
  have start: "us_inv (w_utxos w2) \<and> bs_inv (w_blocks w2) \<and> cs_chain (w_chain w2) = new
      \<and> (q \<in> range Inl \<longrightarrow>
        synced E L eng old (bs_blocks (w_blocks w2)) (bs_tip (w_blocks w2)) (us_ledger (w_utxos w2)) \<and> linked E old new
        \<or> resumable E L eng new (bs_blocks (w_blocks w2)) (bs_tip (w_blocks w2)) (us_ledger (w_utxos w2)))
      \<and> (\<forall>start reorg. q = Inr (start, reorg) \<longrightarrow> (\<exists>k k'. start = word_of_nat k \<and> k' \<le> k \<and> k \<le> length new
        \<and> bs_tip (w_blocks w2) = tip_of E (take k' new)
        \<and> between E L eng new k (bs_blocks (w_blocks w2)) (us_ledger (w_utxos w2))))"
    if c: "determine_start C B U w1 = (q, w2)" for q w2
    using at
  proof
    assume "synced E L eng old (bs_blocks (w_blocks w)) (bs_tip (w_blocks w)) (us_ledger (w_utxos w)) \<and> linked E old new"
    then show ?thesis using determine_start_synced [OF inv1(1,2) _ inv1(3) wf _ c, of L eng old] w1 by auto
  next
    assume res: "resumable E L eng new (bs_blocks (w_blocks w)) (bs_tip (w_blocks w)) (us_ledger (w_utxos w))"
    then obtain k where k: "k \<le> length new" "bs_tip (w_blocks w) = tip_of E (take k new)"
        "between E L eng new k (bs_blocks (w_blocks w)) (us_ledger (w_utxos w))" by (auto simp: resumable_def)
    then show ?thesis using determine_start_resumed [OF inv1 _ k(1) wf c] w1 inv res by auto
  qed
  from c1(2) show ?thesis
  proof (cases rule: bindSE)
    case (1 e)
    then show ?thesis using start [OF 1(1)] by auto
  next
    case c2: (2 p w2)
    obtain s reorg where p: "p = (s, reorg)" by fastforce
    from start [OF c2(1)] p obtain k k' where k: "s = word_of_nat k" "k' \<le> k" "k \<le> length new"
        "bs_tip (w_blocks w2) = tip_of E (take k' new)"
        "between E L eng new k (bs_blocks (w_blocks w2)) (us_ledger (w_utxos w2))"
      and inv2: "us_inv (w_utxos w2)" "bs_inv (w_blocks w2)" "cs_chain (w_chain w2) = new" by auto
    have clamp: "clamp_start s tip = word_of_nat k" using start_range(1) [OF k(1) k(3) len tip] k(1) by simp
    show ?thesis
      using scan_from_start_any [OF eng wf inj inv2 k(2,3) tip k(4,5) c2(2) [unfolded p prod.case Let_def clamp]]
      by blast
  qed
qed

end

section \<open>Retrying\<close>

text \<open>
  The worlds that any number of passes, with any outcome, can lead to while the chain of the node
  grows by new blocks.
\<close>

inductive attempts ::
    "'c chain_source_ops \<Rightarrow> 'b block_store_ops \<Rightarrow> 'u utxo_store_ops \<Rightarrow> elements_lib
     \<Rightarrow> ('d, 'k, 'w) lwk_lib \<Rightarrow> ('d, 'k, 'w) scan_engine \<Rightarrow> ('c \<Rightarrow> block list) \<Rightarrow> block list
     \<Rightarrow> ('c, 'b, 'u) world \<Rightarrow> ('c, 'b, 'u) world \<Rightarrow> bool"
  for C B U E L eng cs_chain old w0 where
  attempts_start: "attempts C B U E L eng cs_chain old w0 w0"
| attempts_pass:
    "attempts C B U E L eng cs_chain old w0 w \<Longrightarrow> sync C B U E L eng w = (r, w') \<Longrightarrow>
     attempts C B U E L eng cs_chain old w0 w'"
| attempts_grow:
    "attempts C B U E L eng cs_chain old w0 w \<Longrightarrow>
     take (length (cs_chain (w_chain w))) (cs_chain c) = cs_chain (w_chain w) \<Longrightarrow>
     wf_chain E (cs_chain c) \<Longrightarrow> inj_on (lib_block_hash E) (set (cs_chain c)) \<Longrightarrow>
     linked E old (cs_chain c) \<Longrightarrow> attempts C B U E L eng cs_chain old w0 (w\<lparr>w_chain := c\<rparr>)"

context retry_env
begin

lemma attempts_state:
  assumes "attempts C B U E L eng cs_chain old w0 w" and eng: "engine_wf eng"
    and "us_inv (w_utxos w0)" and "bs_inv (w_blocks w0)"
    and "synced E L eng old (bs_blocks (w_blocks w0)) (bs_tip (w_blocks w0)) (us_ledger (w_utxos w0))"
    and "wf_chain E (cs_chain (w_chain w0))" and "inj_on (lib_block_hash E) (set (cs_chain (w_chain w0)))"
    and "linked E old (cs_chain (w_chain w0))"
  shows "us_inv (w_utxos w) \<and> bs_inv (w_blocks w)
    \<and> wf_chain E (cs_chain (w_chain w)) \<and> inj_on (lib_block_hash E) (set (cs_chain (w_chain w)))
    \<and> (synced E L eng old (bs_blocks (w_blocks w)) (bs_tip (w_blocks w)) (us_ledger (w_utxos w))
         \<and> linked E old (cs_chain (w_chain w))
       \<or> resumable E L eng (cs_chain (w_chain w)) (bs_blocks (w_blocks w)) (bs_tip (w_blocks w))
           (us_ledger (w_utxos w)))"
  using assms(1)
proof induction
  case attempts_start
  then show ?case using assms(3-) by simp
next
  case (attempts_pass w r w')
  then show ?case using sync_any [OF eng _ _ refl, of w L old r w'] by auto
next
  case (attempts_grow w c)
  then show ?case using resumable_grow [OF attempts_grow.hyps(3,2), of L eng] by auto
qed

lemma attempts_ok:
  assumes "attempts C B U E L eng cs_chain old w0 w" and eng: "engine_wf eng"
    and "us_inv (w_utxos w0)" and "bs_inv (w_blocks w0)"
    and "synced E L eng old (bs_blocks (w_blocks w0)) (bs_tip (w_blocks w0)) (us_ledger (w_utxos w0))"
    and "wf_chain E (cs_chain (w_chain w0))" and "inj_on (lib_block_hash E) (set (cs_chain (w_chain w0)))"
    and "linked E old (cs_chain (w_chain w0))"
    and "sync C B U E L eng w = (Inr s, w')"
  shows "synced E L eng (cs_chain (w_chain w)) (bs_blocks (w_blocks w')) (bs_tip (w_blocks w')) (us_ledger (w_utxos w'))"
  using attempts_state [OF assms(1-8)] sync_any [OF eng _ _ refl, of w L old "Inr s" w'] assms(9) by blast

end

section \<open>The in-memory stores\<close>

text \<open>No call of the in-memory stores fails, so a pass over them fails only where the node does.\<close>

lemma mem_retry_env:
  assumes "stable_chain_source C (lib_block_hash E) cs_chain"
  shows "retry_env mem_utxo_ops mem_ledger mem_utxo_inv mem_block_ops mem_blocks mbs_tip mem_block_inv C E cs_chain"
proof (intro retry_env.intro scan_env.intro assms retry_env_axioms.intro mem_utxos.utxo_store_axioms
    mem_blockst.block_store_axioms, goal_cases)
  case (8 z a y z' t)
  then show ?case
    by (auto simp: mem_block_ops_def mem_block_rollback_above_def Let_def dest!: max_by_height_in
        split: option.splits if_splits)
qed (simp_all add: mem_utxo_ops_def mem_block_ops_def mem_upsert_utxos_def mem_mark_spent_def
    mem_unspent_outpoints_def mem_utxo_rollback_above_def mem_store_block_def
    mem_set_synced_tip_def mem_block_rollback_above_def Let_def)

interpretation mem_retry: retry_env mem_utxo_ops mem_ledger mem_utxo_inv
    mem_block_ops mem_blocks mbs_tip mem_block_inv "mock_chain_ops E" E mcs_chain
  for E
  by (rule mem_retry_env) unfold_locales

end
