(* ===== verification/Sync_Findings.thy ===== *)
theory Sync_Findings
  imports Sync_Properties
begin

text \<open>
  Two histories outside the assumptions of the correctness theorem, run on the model: the node
  fails in the middle of a pass and reorganises before the next one, and a node of another chain.
  Both end with stores that disagree with the node's chain and a cursor that says they agree.
  \<open>Sync_Orphans\<close> proves the first for every chain and every store.
\<close>

section \<open>A node that fails once\<close>

text \<open>The scripted node behind a transport that fails after a number of calls, once.\<close>

record flaky_source =
  fl_node :: mock_chain_source
  fl_calls_left :: "nat option"

definition flaky ::
    "(mock_chain_source, sync_error, 'a) act \<Rightarrow> (flaky_source, sync_error, 'a) act" where
  "flaky m c = (case fl_calls_left c of
      Some 0 \<Rightarrow> (Inl (Err (ChainSource ''timeout'')), c\<lparr>fl_calls_left := None\<rparr>)
    | Some (Suc n) \<Rightarrow> (case m (fl_node c) of (r, node) \<Rightarrow> (r, c\<lparr>fl_node := node, fl_calls_left := Some n\<rparr>))
    | None \<Rightarrow> (case m (fl_node c) of (r, node) \<Rightarrow> (r, c\<lparr>fl_node := node\<rparr>)))"

definition flaky_ops :: "elements_lib \<Rightarrow> flaky_source chain_source_ops" where
  "flaky_ops E = \<lparr>cs_tip_height = flaky mock_tip_height, cs_block_hash = (\<lambda>h. flaky (mock_block_hash E h)),
     cs_block = (\<lambda>x. flaky (mock_block E x)), cs_broadcast = (\<lambda>t. flaky (mock_broadcast E t))\<rparr>"

definition flaky_pass ::
    "block list \<Rightarrow> nat option \<Rightarrow> (flaky_source, mem_block_store, mem_utxo_store) world
     \<Rightarrow> (sync_error, sync_summary) result \<times> (flaky_source, mem_block_store, mem_utxo_store) world" where
  "flaky_pass chain fail w = sync (flaky_ops ex_lib) mem_block_ops mem_utxo_ops ex_lib ex_lwk ex_engine
     (w\<lparr>w_chain := \<lparr>fl_node = \<lparr>mcs_chain = chain, mcs_broadcast = []\<rparr>, fl_calls_left = fail\<rparr>\<rparr>)"

definition flaky_start :: "(flaky_source, mem_block_store, mem_utxo_store) world" where
  "flaky_start = \<lparr>w_chain = \<lparr>fl_node = mock_new, fl_calls_left = None\<rparr>,
     w_blocks = mem_block_new, w_utxos = mem_utxo_new\<rparr>"

text \<open>Three passes: one block; the second block, failing at the last call; the other chain.\<close>

definition flaky_history :: "(flaky_source, mem_block_store, mem_utxo_store) world list" where
  "flaky_history =
     (let w1 = snd (flaky_pass (take 1 ex_old) None flaky_start);
          w2 = snd (flaky_pass ex_old (Some 4) w1);
          w3 = snd (flaky_pass ex_new None w2)
      in [w1, w2, w3])"

section \<open>What goes wrong\<close>

text \<open>
  A pass that fails after it wrote a block's outputs leaves them in the store above the cursor. When the node reorganises before the retry, the cursor's block is still on the node's
  chain, so nothing is rolled back: the retry returns Ok and sets the cursor to the new tip, but
  the orphaned output stays listed and the output the orphaned block spent stays lost. A scan of
  the same chain into empty stores lists the opposite.
\<close>

lemma orphan_history:
  "mbs_tip (w_blocks (flaky_history ! 2)) = tip_of ex_lib ex_new
   \<and> fst (mem_unspent_outpoints (w_utxos (flaky_history ! 2)))
     = Inr [(OutPoint (Txid 2) 0, WalletId [1]), (OutPoint (Txid 3) 0, WalletId [1])]
   \<and> fst (mem_unspent_outpoints (w_utxos (snd (mem_sync ex_lib ex_lwk ex_engine (ex_world ex_new)))))
     = Inr [(OutPoint (Txid 1) 0, WalletId [1]), (OutPoint (Txid 3) 0, WalletId [1])]"
  by code_simp

text \<open>
  The walk back to the common ancestor ends at height 0 without comparing hashes there. Against a
  node of another chain, with another first block, a pass returns Ok, keeps the stored first block
  and its outputs, and sets the cursor to the foreign tip.
\<close>

definition ex_foreign :: "block list" where
  "ex_foreign = [\<lparr>blk_header = [30], blk_txdata = []\<rparr>, \<lparr>blk_header = [31], blk_txdata = []\<rparr>]"

definition foreign_pass :: "(sync_error, sync_summary) result \<times> mem_world" where
  "foreign_pass = mem_sync ex_lib ex_lwk ex_engine
     ((snd (mem_sync ex_lib ex_lwk ex_engine (ex_world ex_old)))\<lparr>w_chain := \<lparr>mcs_chain = ex_foreign, mcs_broadcast = []\<rparr>\<rparr>)"

lemma foreign_genesis_is_kept:
  "isl (fst foreign_pass) = False
   \<and> mbs_tip (w_blocks (snd foreign_pass)) = tip_of ex_lib ex_foreign
   \<and> map_option fst (mem_blocks (w_blocks (snd foreign_pass)) 0) = Some (lib_block_hash ex_lib (ex_old ! 0))
   \<and> fst (mem_unspent_outpoints (w_utxos (snd foreign_pass))) = Inr [(OutPoint (Txid 1) 0, WalletId [1])]"
  by code_simp

end
