(* ===== verification/Sync_Recovery.thy ===== *)
theory Sync_Recovery
  imports Sync_Retry Sync_Findings
begin

text \<open>
  What the retry locale gives for the program: repeated passes converge over stores whose failing
  calls write nothing and whose rollback of UTXOs does not fail, and over the in-memory stores a pass
  does return \<open>Ok\<close> once the node answers again. The assumption on the rollback is needed: the last
  history breaks a pass off between the two rollbacks.
\<close>

section \<open>Convergence\<close>

text \<open>
  C4. Take stores whose failing calls write nothing, whose rollback of UTXOs does not fail and whose
  rollback of blocks leaves the cursor at or below the height rolled back to, synced with any older
  chain, and a node that answers truthfully or not at all. Let any number of passes run with any
  outcome while the node's chain only grows: the next pass that returns Ok leaves the stores synced
  with the node's chain. So whatever a failed pass had written by the time it failed does no harm.
\<close>

theorem retries_converge:
  assumes "retry_env U us_ledger us_inv B bs_blocks bs_tip bs_inv C E cs_chain" and "engine_wf eng"
    and "us_inv (w_utxos w0)" and "bs_inv (w_blocks w0)"
    and "synced E L eng old (bs_blocks (w_blocks w0)) (bs_tip (w_blocks w0)) (us_ledger (w_utxos w0))"
    and "wf_chain E (cs_chain (w_chain w0))" and "inj_on (lib_block_hash E) (set (cs_chain (w_chain w0)))"
    and "linked E old (cs_chain (w_chain w0))"
    and "attempts C B U E L eng cs_chain old w0 w" and "sync C B U E L eng w = (Inr s, w')"
  shows "synced E L eng (cs_chain (w_chain w)) (bs_blocks (w_blocks w')) (bs_tip (w_blocks w'))
    (us_ledger (w_utxos w'))"
  by (rule retry_env.attempts_ok [OF assms(1,9,2,3,4,5,6,7,8,10)])

text \<open>A node that fails at a chosen call is still one whose chain does not change.\<close>

interpretation flaky_source: stable_chain_source "flaky_ops E" "lib_block_hash E" "\<lambda>c. mcs_chain (fl_node c)"
  for E
proof (unfold_locales, goal_cases)
  case (1 c rt c')
  then show ?case using mock_source.tip_height [of E "fl_node c"]
    by (auto simp: flaky_ops_def flaky_def mock_chain_ops_def split: option.splits nat.splits prod.splits)
next
  case (2 h c r c')
  then show ?case using mock_source.block_hash [of E h "fl_node c"]
    by (auto simp: flaky_ops_def flaky_def mock_chain_ops_def split: option.splits nat.splits prod.splits)
next
  case (3 x c rb c')
  then show ?case using mock_source.block_by_hash [of E x "fl_node c"]
    by (auto simp: flaky_ops_def flaky_def mock_chain_ops_def split: option.splits nat.splits prod.splits)
qed

text \<open>
  A failing pass over two blocks, which breaks off after the outputs and spends of both are
  written, and a retry over the same chain with a third.
\<close>

definition ex_grown :: "block list" where
  "ex_grown = ex_old @ [\<lparr>blk_header = [12], blk_txdata = [ex_tx 4 [OutPoint (Txid 2) 0] [ex_out [0, 1] 5]]\<rparr>]"

definition flaky_node :: "block list \<Rightarrow> nat option \<Rightarrow> flaky_source" where
  "flaky_node chain fail = \<lparr>fl_node = \<lparr>mcs_chain = chain, mcs_broadcast = []\<rparr>, fl_calls_left = fail\<rparr>"

definition broken_off :: "(flaky_source, mem_block_store, mem_utxo_store) world" where
  "broken_off = snd (flaky_pass ex_old (Some 5) flaky_start)"

lemma broken_off_state:
  "fst (flaky_pass ex_old (Some 5) flaky_start) = Inl (Err (ChainSource ''timeout''))"
  "mbs_tip (w_blocks broken_off) = None"
  "fst (mem_unspent_outpoints (w_utxos broken_off)) = Inr [(OutPoint (Txid 2) 0, WalletId [1])]"
  by code_simp+

lemma ex_grown_chain:
  "wf_chain ex_lib ex_grown" "inj_on (lib_block_hash ex_lib) (set ex_grown)"
  "take (length ex_old) ex_grown = ex_old"
  by (simp_all add: wf_chain_def all_txs_def ex_grown_def ex_old_def ex_tx_def ex_out_def ex_lib_def)

lemma broken_off_attempt:
  "attempts (flaky_ops ex_lib) mem_block_ops mem_utxo_ops ex_lib ex_lwk ex_engine (\<lambda>c. mcs_chain (fl_node c)) []
     (flaky_start\<lparr>w_chain := flaky_node ex_old (Some 5)\<rparr>) (broken_off\<lparr>w_chain := flaky_node ex_grown None\<rparr>)"
proof (rule attempts_grow)
  show "attempts (flaky_ops ex_lib) mem_block_ops mem_utxo_ops ex_lib ex_lwk ex_engine (\<lambda>c. mcs_chain (fl_node c)) []
     (flaky_start\<lparr>w_chain := flaky_node ex_old (Some 5)\<rparr>) broken_off"
    unfolding broken_off_def flaky_pass_def flaky_node_def
    by (rule attempts_pass [OF attempts_start]) (rule surjective_pairing)
  have "mcs_chain (fl_node (w_chain broken_off)) = ex_old" by code_simp
  then show "take (length (mcs_chain (fl_node (w_chain broken_off)))) (mcs_chain (fl_node (flaky_node ex_grown None)))
      = mcs_chain (fl_node (w_chain broken_off))"
    using ex_grown_chain(3) by (simp add: flaky_node_def)
qed (simp_all add: flaky_node_def ex_grown_chain)

lemma retry_after_break:
  "\<exists>s w'. sync (flaky_ops ex_lib) mem_block_ops mem_utxo_ops ex_lib ex_lwk ex_engine
     (broken_off\<lparr>w_chain := flaky_node ex_grown None\<rparr>) = (Inr s, w')"
proof -
  have "\<not> isl (fst (sync (flaky_ops ex_lib) mem_block_ops mem_utxo_ops ex_lib ex_lwk ex_engine
     (broken_off\<lparr>w_chain := flaky_node ex_grown None\<rparr>)))" by code_simp
  then obtain s where "fst (sync (flaky_ops ex_lib) mem_block_ops mem_utxo_ops ex_lib ex_lwk ex_engine
     (broken_off\<lparr>w_chain := flaky_node ex_grown None\<rparr>)) = Inr s" using sum.collapse(2) by metis
  then show ?thesis by (metis prod.collapse)
qed

lemma flaky_start_empty:
  "mem_utxo_inv (w_utxos (flaky_start\<lparr>w_chain := c\<rparr>))" "mem_block_inv (w_blocks (flaky_start\<lparr>w_chain := c\<rparr>))"
  "synced E L eng [] (mem_blocks (w_blocks (flaky_start\<lparr>w_chain := c\<rparr>)))
     (mbs_tip (w_blocks (flaky_start\<lparr>w_chain := c\<rparr>))) (mem_ledger (w_utxos (flaky_start\<lparr>w_chain := c\<rparr>)))"
  using mem_synced_empty [where E = E and L = L and eng = eng and c = mock_new] by (simp_all add: flaky_start_def)

theorem retries_converge_witness:
  "fst (flaky_pass ex_old (Some 5) flaky_start) = Inl (Err (ChainSource ''timeout''))
   \<and> (\<exists>s w'. sync (flaky_ops ex_lib) mem_block_ops mem_utxo_ops ex_lib ex_lwk ex_engine
        (broken_off\<lparr>w_chain := flaky_node ex_grown None\<rparr>) = (Inr s, w')
      \<and> synced ex_lib ex_lwk ex_engine ex_grown (mem_blocks (w_blocks w')) (mbs_tip (w_blocks w'))
          (mem_ledger (w_utxos w')))"
proof -
  obtain s w' where call: "sync (flaky_ops ex_lib) mem_block_ops mem_utxo_ops ex_lib ex_lwk ex_engine
     (broken_off\<lparr>w_chain := flaky_node ex_grown None\<rparr>) = (Inr s, w')"
    using retry_after_break by blast
  have chain: "mcs_chain (fl_node (w_chain (flaky_start\<lparr>w_chain := flaky_node ex_old (Some 5)\<rparr>))) = ex_old"
      "mcs_chain (fl_node (w_chain (broken_off\<lparr>w_chain := flaky_node ex_grown None\<rparr>))) = ex_grown"
    by (simp_all add: flaky_node_def)
  have "retry_env mem_utxo_ops mem_ledger mem_utxo_inv mem_block_ops mem_blocks mbs_tip mem_block_inv
      (flaky_ops ex_lib) ex_lib (\<lambda>c. mcs_chain (fl_node c))"
    by (rule mem_retry_env) unfold_locales
  from retries_converge [OF this ex_engine_wf flaky_start_empty _ _ _ broken_off_attempt call]
    chain ex_wf(1) ex_inj(1)
  have "synced ex_lib ex_lwk ex_engine ex_grown (mem_blocks (w_blocks w')) (mbs_tip (w_blocks w'))
      (mem_ledger (w_utxos w'))" by simp
  with call broken_off_state(1) show ?thesis by blast
qed

text \<open>
  C8. Over the in-memory stores the failures have to stop only once: after any passes, starting from
  stores synced with an older chain, against a node that answers truthfully or not at all and whose
  chain only grows, a pass over the scripted node with the same chain, which is linked to the older
  one, not empty and not shorter, returns Ok and leaves the stores synced with it.
\<close>

theorem recovery_after_failures:
  assumes "stable_chain_source C (lib_block_hash E) cs_chain" and eng: "engine_wf eng"
    and "mem_utxo_inv (w_utxos w0)" and "mem_block_inv (w_blocks w0)"
    and "synced E L eng old (mem_blocks (w_blocks w0)) (mbs_tip (w_blocks w0)) (mem_ledger (w_utxos w0))"
    and "wf_chain E (cs_chain (w_chain w0))" and "inj_on (lib_block_hash E) (set (cs_chain (w_chain w0)))"
    and "linked E old (cs_chain (w_chain w0))"
    and "attempts C mem_block_ops mem_utxo_ops E L eng cs_chain old w0 w"
    and chain: "cs_chain (w_chain w) = chain" "chain \<noteq> []" "length old \<le> length chain"
  shows "\<exists>s w'. mem_sync E L eng \<lparr>w_chain = \<lparr>mcs_chain = chain, mcs_broadcast = txs\<rparr>,
      w_blocks = w_blocks w, w_utxos = w_utxos w\<rparr> = (Inr s, w') \<and> mem_synced E L eng chain w'"
proof -
  let ?w = "\<lparr>w_chain = \<lparr>mcs_chain = chain, mcs_broadcast = txs\<rparr>, w_blocks = w_blocks w, w_utxos = w_utxos w\<rparr> :: mem_world"
  note state = retry_env.attempts_state [OF mem_retry_env [OF assms(1)] assms(9,2-8)]
  then have inv: "mem_utxo_inv (w_utxos ?w)" "mem_block_inv (w_blocks ?w)" and node: "mcs_chain (w_chain ?w) = chain"
    and wf: "wf_chain E chain" and inj: "inj_on (lib_block_hash E) (set chain)" by (simp_all add: chain)
  from state show ?thesis
  proof (elim conjE disjE)
    assume "synced E L eng old (mem_blocks (w_blocks w)) (mbs_tip (w_blocks w)) (mem_ledger (w_utxos w))"
      and link: "linked E old (cs_chain (w_chain w))"
    then have "mem_synced E L eng old ?w" using inv by simp
    from mem_pass [OF eng this node wf inj _ chain(2,3)] link show ?thesis unfolding chain(1) by metis
  next
    assume res: "resumable E L eng (cs_chain (w_chain w)) (mem_blocks (w_blocks w)) (mbs_tip (w_blocks w))
      (mem_ledger (w_utxos w))"
    then obtain k where k: "k \<le> length chain" "mbs_tip (w_blocks w) = tip_of E (take k chain)"
      by (auto simp: resumable_def chain)
    have "\<exists>summary w'. mem_sync E L eng ?w = (Inr summary, w')"
    proof (rule mem_reliable.sync_returns_from_start [OF eng wf inj node chain(2)], goal_cases)
      case w1: (1 w1)
      have inv1: "mem_utxo_inv (w_utxos w1)" "mem_block_inv (w_blocks w1)"
          "mbs_tip (w_blocks w1) = tip_of E (take k chain)" using w1 inv k by simp_all
      have "length (take k chain) \<le> length (mcs_chain (w_chain w1))" using w1 by simp
      from mem_reliable.determine_start_returns [OF inv1 wf_chain_take [OF wf] this]
      obtain start reorg w2 where
        "determine_start (mock_chain_ops E) mem_block_ops mem_utxo_ops w1 = (Inr (start, reorg), w2)" by blast
      with mem_retry.determine_start_resumed [OF inv1(1,2) w1(3) inv1(3) k(1) wf this] inv1 k(1)
      show ?case by auto
    qed
    then obtain s w' where call: "mem_sync E L eng ?w = (Inr s, w')" by blast
    have "resumable E L eng chain (mem_blocks (w_blocks ?w)) (mbs_tip (w_blocks ?w)) (mem_ledger (w_utxos ?w))"
      using res by (simp add: chain)
    then have "mem_synced E L eng chain w'"
      using mem_retry.sync_any [OF eng inv node wf inj disjI2 call, of "[]"] by blast
    with call show ?thesis by blast
  qed
qed

theorem recovery_after_failures_witness:
  "mbs_tip (w_blocks broken_off) = None
   \<and> (\<exists>s w'. mem_sync ex_lib ex_lwk ex_engine
        \<lparr>w_chain = \<lparr>mcs_chain = ex_grown, mcs_broadcast = []\<rparr>, w_blocks = w_blocks broken_off,
         w_utxos = w_utxos broken_off\<rparr> = (Inr s, w')
      \<and> mem_synced ex_lib ex_lwk ex_engine ex_grown w')"
proof -
  have chain: "mcs_chain (fl_node (w_chain (flaky_start\<lparr>w_chain := flaky_node ex_old (Some 5)\<rparr>))) = ex_old"
      "mcs_chain (fl_node (w_chain (broken_off\<lparr>w_chain := flaky_node ex_grown None\<rparr>))) = ex_grown"
    by (simp_all add: flaky_node_def)
  have "ex_grown \<noteq> []" by (simp add: ex_grown_def)
  from recovery_after_failures [OF flaky_source.stable_chain_source_axioms ex_engine_wf flaky_start_empty _ _ _
      broken_off_attempt chain(2) this, of "[]"] chain(1) ex_wf(1) ex_inj(1) broken_off_state(2)
  show ?thesis by simp
qed

section \<open>A pass that breaks off between the two rollbacks\<close>

definition failing_rollback_ops :: "mem_utxo_store utxo_store_ops" where
  "failing_rollback_ops = mem_utxo_ops\<lparr>us_rollback_above := \<lambda>a s. (Inl (Err (Store ''disk full'')), s)\<rparr>"

text \<open>
  A pass over the old chain, one over the new chain in which the rollback of the UTXO store fails,
  and a retry.
\<close>

definition torn_rollback :: "mem_world list" where
  "torn_rollback =
     (let node = (\<lambda>w. w\<lparr>w_chain := \<lparr>mcs_chain = ex_new, mcs_broadcast = []\<rparr>\<rparr>);
          w1 = snd (mem_sync ex_lib ex_lwk ex_engine (ex_world ex_old));
          w2 = snd (sync (mock_chain_ops ex_lib) mem_block_ops failing_rollback_ops ex_lib ex_lwk ex_engine (node w1));
          w3 = snd (mem_sync ex_lib ex_lwk ex_engine w2)
      in [w1, w2, w3])"

text \<open>
  One history of what \<open>Sync_Orphans\<close> proves of all of them. The block store is rolled back before the
  UTXO store, and takes the cursor along. When the second rollback fails, the retry finds the cursor on the node's chain and rolls nothing back: it
  returns Ok with the cursor at the new tip, while the orphaned output stays listed and the output
  the orphaned block spent stays lost. A scan of the same chain into empty stores lists the opposite.
\<close>

lemma torn_history:
  "mbs_tip (w_blocks (torn_rollback ! 1)) = tip_of ex_lib (take 1 ex_new)
   \<and> mbs_tip (w_blocks (torn_rollback ! 2)) = tip_of ex_lib ex_new
   \<and> fst (mem_unspent_outpoints (w_utxos (torn_rollback ! 2)))
     = Inr [(OutPoint (Txid 2) 0, WalletId [1]), (OutPoint (Txid 3) 0, WalletId [1])]
   \<and> fst (mem_unspent_outpoints (w_utxos (snd (mem_sync ex_lib ex_lwk ex_engine (ex_world ex_new)))))
     = Inr [(OutPoint (Txid 1) 0, WalletId [1]), (OutPoint (Txid 3) 0, WalletId [1])]"
  by code_simp

end
