(* ===== verification/Sync_Orphans.thy ===== *)
theory Sync_Orphans
  imports Sync_Late Sync_Recovery
begin

text \<open>
  What the engine cannot repair. A pass whose cursor the node confirms rolls nothing back and never
  takes an entry out of the UTXO store, so whatever an earlier pass has left there above the cursor
  stays; and a pass that breaks off between the two rollbacks leaves just such a store. The first holds
  over every chain, store and node that honours its trait, the second over every chain and the
  in-memory stores; the histories of \<open>Sync_Findings\<close> and
  \<open>Sync_Recovery\<close> are instances.
\<close>

section \<open>A pass on a confirmed cursor\<close>

text \<open>
  What may become of the entry \<open>e\<close> for an outpoint when blocks are scanned: it stays as it is, or it is
  marked spent when one of the blocks spends the outpoint.
\<close>

definition stays :: "block list \<Rightarrow> outpoint \<Rightarrow> utxo_entry \<Rightarrow> utxo_entry option \<Rightarrow> bool" where
  "stays blocks op e r \<longleftrightarrow> r = Some e \<or> (op \<in> spent_in blocks \<and> (\<exists>h. r = Some (spend_entry h e)))"

lemma stays_refl [simp]: "stays blocks op e (Some e)"
  by (simp add: stays_def)

lemma stays_trans:
  assumes "stays [b] op e (Some e')" and "stays bs op e' r"
  shows "stays (b # bs) op e r"
  using assms by (auto simp: stays_def spent_in_def)

lemma put_all_other: "op \<notin> cu_outpoint ` set us \<Longrightarrow> put_all us m op = m op"
  by (induction us arbitrary: m) (simp_all add: put_utxo_def split: option.split)

text \<open>The summary keeps the height a reorg rolled back to.\<close>

abbreviation scan_reorg :: "scan_acc \<Rightarrow> u32 option" where
  "scan_reorg acc \<equiv> ss_reorg_to (sa_summary acc)"

lemma scan_output_reorg: "scan_output L eng h tid v t acc = Inr acc' \<Longrightarrow> scan_reorg acc' = scan_reorg acc"
  by (auto simp: scan_output_def bump_skipped_def Let_def split: option.splits if_splits sum.splits)

lemma scan_outputs_reorg: "scan_outputs L eng h tid v ts acc = Inr acc' \<Longrightarrow> scan_reorg acc' = scan_reorg acc"
  by (induction ts arbitrary: v acc) (auto simp: bindR_Inr dest: scan_output_reorg)

lemma scan_txs_reorg: "scan_txs E L eng h txs acc = Inr acc' \<Longrightarrow> scan_reorg acc' = scan_reorg acc"
  by (induction txs arbitrary: acc) (auto simp: bindR_Inr scan_tx_def scan_inputs_frame dest!: scan_outputs_reorg)

lemma scan_block_reorg:
  "scan_block C B U E L eng h acc w = (Inr acc', w') \<Longrightarrow> scan_reorg acc' = scan_reorg acc"
  by (auto simp: scan_block_def flush_captured_def flush_spent_def Let_def bump_blocks_def of_result_def ret_def
      elim!: bindS_InrE split: if_splits dest!: scan_txs_reorg)

lemma scan_blocks_reorg:
  "scan_blocks C B U E L eng hs acc w = (Inr acc', w') \<Longrightarrow> scan_reorg acc' = scan_reorg acc"
  by (induction hs arbitrary: acc w) (auto elim!: bindS_InrE dest: scan_block_reorg)

context scan_env
begin

lemma scan_block_stays:
  assumes eng: "engine_wf eng" and wf: "wf_chain E chain" and n: "n < length chain"
    and inj: "inj_on (lib_block_hash E) (set chain)"
    and inv: "us_inv (w_utxos w)" "bs_inv (w_blocks w)" and chain: "cs_chain (w_chain w) = chain"
    and call: "scan_block C B U E L eng (word_of_nat n) acc w = (Inr acc', w')"
    and e: "us_ledger (w_utxos w) op = Some e" and other: "op_txid op \<notin> lib_txid E ` set (blk_txdata (chain ! n))"
  shows "stays [chain ! n] op e (us_ledger (w_utxos w') op)"
proof -
  let ?h = "word_of_nat n :: u32"
  have n32: "n < 2 ^ 32" using n wf by (simp add: wf_chain_def)
  from call obtain x w1 blk w2 w3 acc1 acc2 w4 acc3 where
    c: "on_chain (cs_block_hash C ?h) w = (Inr x, w1)" "on_chain (cs_block C x) w1 = (Inr blk, w2)"
      "on_blocks (bs_store_block B ?h x (lib_serialize_block E blk)) w2 = (Inr (), w3)"
    and c4: "scan_txs E L eng ?h (blk_txdata blk) (acc\<lparr>sa_captured := [], sa_spent := []\<rparr>) = Inr acc1"
    and c5: "flush_captured U acc1 w3 = (Inr acc2, w4)" and c6: "flush_spent U ?h acc2 w4 = (Inr acc3, w')"
    by (auto simp: scan_block_def elim!: bindS_InrE)
  note w3 = fetch_ok [OF n n32 inj inv(2) chain c]
  then have inv3: "us_inv (w_utxos w3)" and led3: "us_ledger (w_utxos w3) = us_ledger (w_utxos w)" using inv by simp_all
  note wfb = next_block_fresh(1) [OF wf n]
  have cap: "sa_captured acc1 = ev_creates (txs_events E L eng ?h (blk_txdata (chain ! n)))"
    using scan_txs_frame [OF eng wfb] c4 w3 by simp
  have spent: "set (sa_spent acc1) \<subseteq> spent_in [chain ! n]"
    using scan_txs_sets [OF eng wfb, of L ?h "acc\<lparr>sa_captured := [], sa_spent := []\<rparr>"] c4 w3
    by (auto simp: txs_events_spends spent_in_def)
  have "op \<notin> cu_outpoint ` set (sa_captured acc1)" using cap other by (auto dest!: txs_events_creates)
  moreover have inv4: "us_inv (w_utxos w4)" and "us_ledger (w_utxos w4) = put_all (sa_captured acc1) (us_ledger (w_utxos w))"
      "sa_spent acc2 = sa_spent acc1"
    using flush_captured_ok [OF c5 inv3] led3 by auto
  moreover have "us_ledger (w_utxos w') = spend_all (sa_spent acc2) ?h (us_ledger (w_utxos w4))"
    using flush_spent_ok [OF c6 inv4] by simp
  ultimately show ?thesis using e spent by (auto simp: spend_all_apply put_all_other stays_def)
qed

lemma scan_blocks_stay:
  assumes eng: "engine_wf eng" and wf: "wf_chain E chain" and inj: "inj_on (lib_block_hash E) (set chain)"
    and "n \<le> length chain" and "us_inv (w_utxos w)" and "bs_inv (w_blocks w)" and "cs_chain (w_chain w) = chain"
    and "scan_blocks C B U E L eng (map word_of_nat [n ..< length chain]) acc w = (Inr acc', w')"
    and "us_ledger (w_utxos w) op = Some e" and "op_txid op \<notin> lib_txid E ` set (all_txs (drop n chain))"
  shows "stays (drop n chain) op e (us_ledger (w_utxos w') op)"
  using assms(4-)
proof (induction "length chain - n" arbitrary: n acc w e)
  case (Suc d)
  then have n: "n < length chain" and up: "[n ..< length chain] = n # [Suc n ..< length chain]"
    by (simp_all add: upt_conv_Cons)
  note drop_n = Cons_nth_drop_Suc [OF n, symmetric]
  from Suc.prems(5) obtain acc1 w1 where c1: "scan_block C B U E L eng (word_of_nat n) acc w = (Inr acc1, w1)"
    and c2: "scan_blocks C B U E L eng (map word_of_nat [Suc n ..< length chain]) acc1 w1 = (Inr acc', w')"
    by (auto simp: up elim!: bindS_InrE)
  have "n < 2 ^ 32" using n wf by (simp add: wf_chain_def)
  note keep = scan_block_keeps [OF n this inj Suc.prems(2-4) c1]
  have new: "op_txid op \<notin> lib_txid E ` set (blk_txdata (chain ! n))"
      "op_txid op \<notin> lib_txid E ` set (all_txs (drop (Suc n) chain))"
    using Suc.prems(7) by (auto simp: drop_n)
  note step = scan_block_stays [OF eng wf n inj Suc.prems(2-4) c1 Suc.prems(6) new(1)]
  then obtain e1 where e1: "us_ledger (w_utxos w1) op = Some e1" by (auto simp: stays_def)
  have "d = length chain - Suc n" "Suc n \<le> length chain" using Suc.hyps(2) n by auto
  from Suc.hyps(1) [OF this, of w1 acc1 e1] keep c2 e1 new(2)
  have "stays (drop (Suc n) chain) op e1 (us_ledger (w_utxos w') op)" by blast
  with stays_trans [OF step [unfolded e1]] show ?case by (simp add: drop_n)
qed simp

text \<open>A cursor the node confirms: the pass starts right above it and rolls nothing back.\<close>

lemma determine_start_confirmed:
  assumes inv: "bs_inv (w_blocks w)" and chain: "cs_chain (w_chain w) = chain" and wf: "wf_chain E chain"
    and cursor: "bs_tip (w_blocks w) = tip_of E (take k chain)" and k: "k \<le> length chain"
    and call: "determine_start C B U w = (Inr (start, reorg), w')"
  shows "start = word_of_nat k \<and> reorg = None \<and> w_blocks w' = w_blocks w \<and> w_utxos w' = w_utxos w
    \<and> cs_chain (w_chain w') = chain"
proof (cases "tip_of E (take k chain)")
  case None
  then have "k = 0" using k by (auto simp: tip_of_def split: if_splits)
  with call None cursor chain store_cursor [OF _ inv] show ?thesis
    by (auto simp: determine_start_def elim!: bindS_InrE)
next
  case (Some t)
  note t = tip_of_Some [OF Some]
  have height: "st_height t = word_of_nat (k - 1)" "0 < k" using t(1,2) k by (auto simp: min_absorb2)
  have "k - 1 < 2 ^ 32" using k wf by (auto simp: wf_chain_def)
  then have at: "unat (st_height t) = k - 1" unfolding height(1) by (rule unat_word_of_nat_u32)
  have next_h: "st_height t + 1 = word_of_nat k"
    using height of_nat_Suc [of "k - 1", where 'a = "32 word"] by (simp add: add.commute del: of_nat_diff)
  from call Some cursor store_cursor [OF _ inv] obtain x w1 where
    c1: "on_chain (cs_block_hash C (st_height t)) w = (Inr x, w1)"
    and c2: "(if x = st_hash t then ret (st_height t + 1, None)
       else bindS (find_common_ancestor C B (st_height t)) (\<lambda>ancestor.
         bindS (on_blocks (bs_rollback_above B ancestor)) (\<lambda>_.
         bindS (on_utxos (us_rollback_above U ancestor)) (\<lambda>_.
         ret (ancestor + 1, Some ancestor))))) w1 = (Inr (start, reorg), w')"
    by (auto simp: determine_start_def elim!: bindS_InrE)
  note w1 = node_hash [OF c1, unfolded chain at]
  moreover have "x = st_hash t" using w1 t(3) at height(2) k by (simp add: min_absorb2)
  ultimately show ?thesis using c2 next_h by simp
qed

lemma confirmed_pass_stays:
  assumes eng: "engine_wf eng" and inv: "us_inv (w_utxos w)" "bs_inv (w_blocks w)"
    and chain: "cs_chain (w_chain w) = chain" and wf: "wf_chain E chain" and inj: "inj_on (lib_block_hash E) (set chain)"
    and cursor: "bs_tip (w_blocks w) = tip_of E (take k chain)" "k \<le> length chain"
    and call: "sync C B U E L eng w = (Inr s, w')"
  shows "ss_reorg_to s = None \<and> bs_tip (w_blocks w') = tip_of E chain
    \<and> (\<forall>op e. us_ledger (w_utxos w) op = Some e \<longrightarrow> op_txid op \<notin> lib_txid E ` set (all_txs (drop k chain))
         \<longrightarrow> stays (drop k chain) op e (us_ledger (w_utxos w') op))"
proof -
  from call obtain tip w1 start reorg w2 pairs w3 acc w4 where
    c1: "on_chain (cs_tip_height C) w = (Inr tip, w1)"
    and c2: "determine_start C B U w1 = (Inr (start, reorg), w2)"
    and c3: "on_utxos (us_unspent_outpoints U) w2 = (Inr pairs, w3)"
    and c4: "scan_blocks C B U E L eng (u32_range (clamp_start start tip) tip)
      \<lparr>sa_spend_index = fold (\<lambda>(op, wid). AList.update op wid) pairs [],
       sa_summary = default_summary\<lparr>ss_reorg_to := reorg\<rparr>, sa_captured = [], sa_spent = []\<rparr> w3
      = (Inr acc, w4)"
    and c5: "advance_cursor C B (clamp_start start tip) tip w4 = (Inr (), w')"
    and out: "s = sa_summary acc"
    by (auto simp: sync_def Let_def elim!: bindS_InrE)
  note w1 = node_tip [OF c1, unfolded chain]
  then have tip: "Suc (unat tip) = length chain" by auto
  have len: "length chain < 2 ^ 32" using wf by (simp add: wf_chain_def)
  have "bs_inv (w_blocks w1)" "cs_chain (w_chain w1) = chain" "bs_tip (w_blocks w1) = tip_of E (take k chain)"
    using inv w1 cursor(1) by simp_all
  from determine_start_confirmed [OF this(1,2) wf this(3) cursor(2) c2] w1 have
    start: "start = word_of_nat k" "reorg = None"
    and w2: "w_blocks w2 = w_blocks w" "w_utxos w2 = w_utxos w" "cs_chain (w_chain w2) = chain" by simp_all
  have inv2: "us_inv (w_utxos w2)" using inv w2 by simp
  have w3: "w_utxos w3 = w_utxos w" "w_blocks w3 = w_blocks w" "cs_chain (w_chain w3) = chain"
    using c3 w2 unspent_outpoints [OF inv2] by (auto elim!: on_utxosE)
  have inv3: "us_inv (w_utxos w3)" "bs_inv (w_blocks w3)" using inv w3 by simp_all
  note pass = start_range [OF start(1) cursor(2) len tip]
  note keep = scan_blocks_keep [OF wf inj cursor(2) inv3 w3(3) c4 [unfolded pass]]
  then have keeps: "us_inv (w_utxos w4)" "bs_inv (w_blocks w4)" "cs_chain (w_chain w4) = chain" by blast+
  note cur = advance_cursor_ok [OF c5 keeps tip, unfolded pass(1), OF pass(2)]
  have "stays (drop k chain) op e (us_ledger (w_utxos w') op)"
    if e: "us_ledger (w_utxos w) op = Some e" and new: "op_txid op \<notin> lib_txid E ` set (all_txs (drop k chain))" for op e
    using scan_blocks_stay [OF eng wf inj cursor(2) inv3 w3(3) c4 [unfolded pass] _ new] e w3(1) cur by simp
  moreover have "ss_reorg_to s = None"
    using scan_blocks_reorg [OF c4] start(2) by (simp add: out default_summary_def)
  ultimately show ?thesis using cur tip_of_last [OF tip, of E] by auto
qed

end

text \<open>
  C35. A pass never cleans up above its cursor: over any stores and any node that honour their traits, when
  the cursor names a block of the node's chain, a pass that returns Ok rolls nothing back, moves the
  cursor to the tip and keeps every entry whose transaction is not in the blocks above the cursor, as it
  was or marked spent by one of those blocks. So an entry that an earlier, failed pass has left for an
  output the node has reorganised away stays listed, an output recorded as spent by such a block stays
  lost, and the pass ends with stores that are not synced with the chain its cursor names.
\<close>

theorem retry_after_reorg_keeps_orphans:
  assumes env: "scan_env U us_ledger us_inv B bs_blocks bs_tip bs_inv C E cs_chain" and "engine_wf eng"
    and "us_inv (w_utxos w)" and "bs_inv (w_blocks w)" and "cs_chain (w_chain w) = chain"
    and "wf_chain E chain" and "inj_on (lib_block_hash E) (set chain)"
    and "bs_tip (w_blocks w) = tip_of E (take k chain)" and "k \<le> length chain"
    and "sync C B U E L eng w = (Inr s, w')"
    and e: "us_ledger (w_utxos w) op = Some e" and new: "op_txid op \<notin> lib_txid E ` set (all_txs (drop k chain))"
  shows "ss_reorg_to s = None \<and> bs_tip (w_blocks w') = tip_of E chain
    \<and> stays (drop k chain) op e (us_ledger (w_utxos w') op)
    \<and> (wallet_ledger E L eng chain op = None \<or> cu_is_spent (en_utxo e) \<and> is_unspent (wallet_ledger E L eng chain) op
        \<longrightarrow> \<not> synced E L eng chain (bs_blocks (w_blocks w')) (bs_tip (w_blocks w')) (us_ledger (w_utxos w')))"
proof -
  note pass = scan_env.confirmed_pass_stays [OF assms(1-10)]
  then have "stays (drop k chain) op e (us_ledger (w_utxos w') op)" using e new by blast
  moreover from this have "us_ledger (w_utxos w') \<noteq> wallet_ledger E L eng chain"
    if "wallet_ledger E L eng chain op = None \<or> cu_is_spent (en_utxo e) \<and> is_unspent (wallet_ledger E L eng chain) op"
    using that by (auto simp: stays_def is_unspent_def)
  ultimately show ?thesis using pass by (auto simp: synced_def)
qed

text \<open>The second pass of the first history: the old chain, failing after the second block is written.\<close>

definition half_done :: "(flaky_source, mem_block_store, mem_utxo_store) world" where
  "half_done = flaky_history ! 1"

lemma half_done_state:
  "mbs_tip (w_blocks half_done) = tip_of ex_lib (take 1 ex_new)"
  "is_unspent (mem_ledger (w_utxos half_done)) (OutPoint (Txid 2) 0)"
  by code_simp+

lemma half_done_invs: "mem_utxo_inv (w_utxos half_done)" "mem_block_inv (w_blocks half_done)"
proof -
  let ?at = "attempts (flaky_ops ex_lib) mem_block_ops mem_utxo_ops ex_lib ex_lwk ex_engine (\<lambda>c. mcs_chain (fl_node c)) []
     (flaky_start\<lparr>w_chain := flaky_node (take 1 ex_old) None\<rparr>)"
  define w1 where "w1 = snd (flaky_pass (take 1 ex_old) None flaky_start)"
  have short: "wf_chain ex_lib (take 1 ex_old)" "inj_on (lib_block_hash ex_lib) (set (take 1 ex_old))"
    by (rule wf_chain_take [OF ex_wf(1)]) (simp add: ex_old_def)
  have "?at w1"
    unfolding w1_def flaky_pass_def flaky_node_def
    by (rule attempts_pass [OF attempts_start]) (rule surjective_pairing)
  moreover have "mcs_chain (fl_node (w_chain w1)) = take 1 ex_old" unfolding w1_def by code_simp
  ultimately have "?at (w1\<lparr>w_chain := flaky_node ex_old (Some 4)\<rparr>)"
    by (rule_tac attempts_grow) (simp_all add: flaky_node_def ex_wf ex_inj, simp add: ex_old_def)
  then have "?at (snd (flaky_pass ex_old (Some 4) w1))"
    unfolding flaky_pass_def flaky_node_def by (rule attempts_pass) (rule surjective_pairing)
  moreover have "snd (flaky_pass ex_old (Some 4) w1) = half_done" by (simp add: half_done_def flaky_history_def w1_def Let_def)
  ultimately have run: "?at half_done" by simp
  have env: "retry_env mem_utxo_ops mem_ledger mem_utxo_inv mem_block_ops mem_blocks mbs_tip mem_block_inv
      (flaky_ops ex_lib) ex_lib (\<lambda>c. mcs_chain (fl_node c))"
    by (rule mem_retry_env) unfold_locales
  from retry_env.attempts_state [OF env run ex_engine_wf flaky_start_empty] short
  show "mem_utxo_inv (w_utxos half_done)" "mem_block_inv (w_blocks half_done)"
    by (simp_all add: flaky_node_def)
qed

theorem retry_after_reorg_keeps_orphans_witness:
  "\<exists>s w'. flaky_pass ex_new None half_done = (Inr s, w') \<and> mbs_tip (w_blocks w') = tip_of ex_lib ex_new
    \<and> is_unspent (mem_ledger (w_utxos w')) (OutPoint (Txid 2) 0)
    \<and> \<not> synced ex_lib ex_lwk ex_engine ex_new (mem_blocks (w_blocks w')) (mbs_tip (w_blocks w')) (mem_ledger (w_utxos w'))"
proof -
  let ?op = "OutPoint (Txid 2) 0" and ?w = "half_done\<lparr>w_chain := flaky_node ex_new None\<rparr>"
  obtain e where e: "mem_ledger (w_utxos half_done) ?op = Some e" "\<not> cu_is_spent (en_utxo e)"
    using half_done_state(2) by (auto simp: is_unspent_def split: option.splits)
  have "\<not> isl (fst (flaky_pass ex_new None half_done))" by code_simp
  then obtain s where "fst (flaky_pass ex_new None half_done) = Inr s" using sum.collapse(2) by metis
  then obtain w' where call: "flaky_pass ex_new None half_done = (Inr s, w')" by (metis prod.collapse)
  have env: "scan_env mem_utxo_ops mem_ledger mem_utxo_inv mem_block_ops mem_blocks mbs_tip mem_block_inv
      (flaky_ops ex_lib) ex_lib (\<lambda>c. mcs_chain (fl_node c))"
    by unfold_locales
  have fields: "mem_utxo_inv (w_utxos ?w)" "mem_block_inv (w_blocks ?w)" "mcs_chain (fl_node (w_chain ?w)) = ex_new"
      "mbs_tip (w_blocks ?w) = tip_of ex_lib (take 1 ex_new)" "1 \<le> length ex_new" "mem_ledger (w_utxos ?w) ?op = Some e"
    using half_done_invs half_done_state(1) e(1) by (simp_all add: flaky_node_def) (simp add: ex_new_def)
  have other: "op_txid ?op \<notin> lib_txid ex_lib ` set (all_txs (drop 1 ex_new))"
    and unspent: "?op \<notin> spent_in (drop 1 ex_new)"
    by (simp_all add: all_txs_def ex_new_def ex_tx_def ex_lib_def spent_in_def)
  have none: "wallet_ledger ex_lib ex_lwk ex_engine ex_new ?op = None" by code_simp
  note retry_after_reorg_keeps_orphans [OF env ex_engine_wf fields(1-3) ex_wf(2) ex_inj(2) fields(4,5)
      call [unfolded flaky_pass_def, folded flaky_node_def] fields(6) other]
  with none unspent have "mbs_tip (w_blocks w') = tip_of ex_lib ex_new" "mem_ledger (w_utxos w') ?op = Some e"
    "\<not> synced ex_lib ex_lwk ex_engine ex_new (mem_blocks (w_blocks w')) (mbs_tip (w_blocks w')) (mem_ledger (w_utxos w'))"
    by (auto simp: stays_def)
  with call e(2) show ?thesis by (auto simp: is_unspent_def)
qed

section \<open>A pass that breaks off between the two rollbacks\<close>

text \<open>The in-memory block store puts the cursor exactly where it was rolled back to.\<close>

lemma mem_rollback_cursor:
  assumes inv: "mem_block_inv z" and roll: "mem_block_rollback_above a z = (Inr (), z')"
    and bm: "blocks_match E (mem_blocks z) old" and tip: "mbs_tip z = tip_of E old" and wf: "wf_chain E old"
    and k: "Suc (unat a) < length old"
  shows "mbs_tip z' = tip_of E (take (Suc (unat a)) old)"
proof -
  let ?l = "filter (\<lambda>p. fst p \<le> a) (mbs_blocks z)"
  have d: "distinct (map fst (mbs_blocks z))" using inv by (simp add: mem_block_inv_def)
  have "mbs_tip z = Some \<lparr>st_height = word_of_nat (length old - 1), st_hash = lib_block_hash E (last old)\<rparr>"
    using tip k by (auto simp: tip_of_def)
  moreover have "length old - 1 < 2 ^ 32" using wf by (auto simp: wf_chain_def)
  then have "unat (word_of_nat (length old - 1) :: u32) = length old - 1" by (rule unat_word_of_nat_u32)
  then have "a < (word_of_nat (length old - 1) :: u32)" using k by (simp add: word_less_nat_alt)
  ultimately have new_tip: "mbs_tip z' = map_option (\<lambda>p. \<lparr>st_height = fst p, st_hash = fst (snd p)\<rparr>) (max_by_height ?l)"
    using roll by (auto simp: mem_block_rollback_above_def Let_def)
  let ?b = "(lib_block_hash E (old ! unat a), lib_serialize_block E (old ! unat a))"
  have "mem_blocks z a = Some ?b" using bm [unfolded blocks_match_def, rule_format, of "unat a"] k by simp
  then have at: "map_of (mbs_blocks z) a = Some ?b" by (simp add: mem_blocks_def)
  then have stored: "(a, ?b) \<in> set ?l" by (auto dest: map_of_SomeD)
  then obtain q where q: "max_by_height ?l = Some q" using max_by_height_None [of ?l] by fastforce
  have "fst q = a" using max_by_height_max [OF q stored] max_by_height_in [OF q] by auto
  moreover have "q \<in> set (mbs_blocks z)" using max_by_height_in [OF q] by (rule filter_is_subset [THEN subsetD])
  then have "map_of (mbs_blocks z) (fst q) = Some (snd q)" using d by (simp add: map_of_eq_Some_iff)
  ultimately have "q = (a, ?b)" using at by (metis option.inject prod.collapse)
  moreover have "last (take (Suc (unat a)) old) = old ! unat a" "take (Suc (unat a)) old \<noteq> []"
      "length (take (Suc (unat a)) old) - 1 = unat a"
    using k by (auto simp: take_Suc_conv_app_nth)
  ultimately show ?thesis using new_tip q by (simp add: tip_of_def)
qed

abbreviation torn_sync ::
    "sync_error fault \<Rightarrow> elements_lib \<Rightarrow> ('d, 'k, 'w) lwk_lib \<Rightarrow> ('d, 'k, 'w) scan_engine
     \<Rightarrow> (mem_world, sync_error, sync_summary) act" where
  "torn_sync err E \<equiv> sync (mock_chain_ops E) mem_block_ops
     (mem_utxo_ops\<lparr>us_rollback_above := \<lambda>a s. (Inl err, s)\<rparr>) E"

lemma fork_unique:
  assumes "fork_at E old new j" "fork_at E old new k" "j < length old" "k < length old" "length old \<le> length new"
  shows "j = k"
proof -
  have "\<not> i < l" if "fork_at E old new i" "fork_at E old new l" "l < length old" for i l
  proof
    assume "i < l"
    then have "old ! i = new ! i" using that(2) nth_take [of i l old] nth_take [of i l new] by (simp add: fork_at_def)
    moreover have "lib_block_hash E (old ! i) \<noteq> lib_block_hash E (new ! i)"
      using that \<open>i < l\<close> assms(5) by (simp add: fork_at_def)
    ultimately show False by simp
  qed
  with assms show ?thesis by (metis nat_neq_iff)
qed

text \<open>The pass that breaks off: the block store is at the fork, the UTXO store as it was.\<close>

lemma torn_pass:
  assumes w: "mem_synced E L eng old w" and node: "mcs_chain (w_chain w) = new" and link: "linked E old new"
    and len: "length new < 2 ^ 32" "length old \<le> length new" and fork: "fork_at E old new k" "k < length old"
  obtains w1 where "torn_sync err E L eng w = (Inl err, w1)" and "w_utxos w1 = w_utxos w" and "mcs_chain (w_chain w1) = new"
    and "mem_block_inv (w_blocks w1)" and "mbs_tip (w_blocks w1) = tip_of E (take k new)"
proof -
  have inv: "mem_utxo_inv (w_utxos w)" "mem_block_inv (w_blocks w)" and wf: "wf_chain E old"
    and bm: "blocks_match E (mem_blocks (w_blocks w)) old" and tip: "mbs_tip (w_blocks w) = tip_of E old"
    and led: "mem_ledger (w_utxos w) = wallet_ledger E L eng old"
    using w by (auto simp: synced_def)
  let ?m = "length old - 1"
  obtain t where t: "tip_of E old = Some t" using fork(2) by (cases "old = []") (auto simp: tip_of_def)
  note top = tip_of_Some [OF t]
  have m: "unat (st_height t) = ?m" "?m < length old" "Suc ?m = length old" "?m < length new"
    using top wf len by (auto simp: wf_chain_def unat_word_of_nat_u32 intro: less_le_trans)
  have differ: "lib_block_hash E (old ! ?m) \<noteq> lib_block_hash E (new ! ?m)"
    using fork m by (simp add: fork_at_def)
  have c1: "on_chain (cs_tip_height (mock_chain_ops E)) w = (Inr (word_of_nat (length new - 1)), w)"
    using node len m by (auto simp: on_chain_def mock_chain_ops_def mock_tip_height_def)
  have c2: "on_blocks (bs_synced_tip mem_block_ops) w = (Inr (Some t), w)"
    by (simp add: on_blocks_def mem_block_ops_def mem_synced_tip_def tip t)
  have c3: "on_chain (cs_block_hash (mock_chain_ops E) (st_height t)) w = (Inr (lib_block_hash E (new ! ?m)), w)"
    using node m by (simp add: on_chain_def mock_chain_ops_def mock_block_hash_def)
  have in_range: "unat (st_height t) < length (mcs_chain (w_chain w))" using m node by simp
  obtain a w2 where c4: "find_common_ancestor (mock_chain_ops E) mem_block_ops (st_height t) w = (Inr a, w2)"
    using mem_reliable.find_common_ancestor_returns [OF inv(2) in_range] by blast
  have w2: "w_blocks w2 = w_blocks w" "w_utxos w2 = w_utxos w"
    using mem_scan.find_common_ancestor_stores [OF c4 inv(2)] by auto
  obtain z where roll: "mem_block_rollback_above a (w_blocks w) = (Inr (), z)"
    by (simp add: mem_block_rollback_above_def Let_def)
  then have c5: "on_blocks (bs_rollback_above mem_block_ops a) w2 = (Inr (), w2\<lparr>w_blocks := z\<rparr>)"
    by (simp add: on_blocks_def mem_block_ops_def w2)
  obtain u where "us_rollback_above mem_utxo_ops a (w_utxos w2) = (Inr (), u)"
    by (simp add: mem_utxo_ops_def mem_utxo_rollback_above_def)
  then have c6: "on_utxos (us_rollback_above mem_utxo_ops a) (w2\<lparr>w_blocks := z\<rparr>)
      = (Inr (), w2\<lparr>w_blocks := z, w_utxos := u\<rparr>)" by (simp add: on_utxos_def)
  from mem_scan.reorg_ok [OF inv wf bm led node link m(1,3,4) differ c4 c5 c6]
  have at: "fork_at E old new (Suc (unat a))" "Suc (unat a) < length old" "mcs_chain (w_chain w2) = new" by simp_all
  then have k: "Suc (unat a) = k" using fork_unique [OF _ fork(1) _ fork(2) len(2)] by blast
  have "mbs_tip z = tip_of E (take k new)"
    using mem_rollback_cursor [OF inv(2) roll bm tip wf at(2)] fork(1) unfolding k by (simp add: fork_at_def)
  moreover have "mem_block_inv z" using mem_block_rollback_ok [OF inv(2) roll] by blast
  moreover have "torn_sync err E L eng w = (Inl err, w2\<lparr>w_blocks := z\<rparr>)"
    using differ top(3) by (simp add: sync_def determine_start_def c1 c2 c3 c4 c5 on_utxos_def bindS_def)
  ultimately show thesis using w2 at(3) by (intro that [of "w2\<lparr>w_blocks := z\<rparr>"]) simp_all
qed

text \<open>
  C36. The block store is rolled back before the UTXO store, and takes the cursor along. Over the
  in-memory stores, synced with any chain, when the node has moved to another chain that forks from
  it below its tip and is not shorter: a pass in which the rollback of the UTXO store fails returns that error
  with the cursor at the fork and the UTXO store as it was. The retry then returns Ok, rolls nothing
  back and moves the cursor to the new tip, and every entry whose transaction is not in the blocks above
  the fork stays, as it was or marked spent by one of those blocks: orphaned outputs stay listed, outputs
  that orphaned blocks spent stay lost.
\<close>

theorem torn_rollback_keeps_orphans:
  assumes eng: "engine_wf eng" and w: "mem_synced E L eng old w" and node: "mcs_chain (w_chain w) = new"
    and wf: "wf_chain E new" and inj: "inj_on (lib_block_hash E) (set new)" and link: "linked E old new"
    and len: "length old \<le> length new" and fork: "fork_at E old new k" "k < length old"
    and torn: "torn_sync err E L eng w = (r, w1)"
  shows "r = Inl err \<and> w_utxos w1 = w_utxos w \<and> mbs_tip (w_blocks w1) = tip_of E (take k new)
    \<and> (\<exists>s w2. mem_sync E L eng w1 = (Inr s, w2) \<and> ss_reorg_to s = None \<and> mbs_tip (w_blocks w2) = tip_of E new
         \<and> (\<forall>op e. mem_ledger (w_utxos w) op = Some e \<longrightarrow> op_txid op \<notin> lib_txid E ` set (all_txs (drop k new))
              \<longrightarrow> stays (drop k new) op e (mem_ledger (w_utxos w2) op)))"
proof -
  have len32: "length new < 2 ^ 32" using wf by (simp add: wf_chain_def)
  from torn_pass [OF w node link len32 len fork, of err] torn have
    w1: "r = Inl err" "w_utxos w1 = w_utxos w" "mcs_chain (w_chain w1) = new"
      "mem_block_inv (w_blocks w1)" "mbs_tip (w_blocks w1) = tip_of E (take k new)" by auto
  have inv1: "mem_utxo_inv (w_utxos w1)" using w w1(2) by simp
  have k: "k \<le> length new" and ne: "new \<noteq> []" using fork len by (auto simp: fork_at_def)
  have "\<exists>s w2. mem_sync E L eng w1 = (Inr s, w2)"
  proof (rule mem_reliable.sync_returns_from_start [OF eng wf inj w1(3) ne], goal_cases)
    case v: (1 v)
    have inv: "mem_utxo_inv (w_utxos v)" "mem_block_inv (w_blocks v)" "mbs_tip (w_blocks v) = tip_of E (take k new)"
      using v w1 inv1 by simp_all
    have "length (take k new) \<le> length (mcs_chain (w_chain v))" using v by simp
    from mem_reliable.determine_start_returns [OF inv wf_chain_take [OF wf] this]
    obtain start reorg v' where c: "determine_start (mock_chain_ops E) mem_block_ops mem_utxo_ops v = (Inr (start, reorg), v')"
      by blast
    from mem_scan.determine_start_confirmed [OF inv(2) v(3) wf inv(3) k c] c inv k show ?case by auto
  qed
  then obtain s w2 where call: "mem_sync E L eng w1 = (Inr s, w2)" by blast
  from mem_scan.confirmed_pass_stays [OF eng inv1 w1(4,3) wf inj w1(5) k call] w1 call show ?thesis by auto
qed

theorem torn_rollback_keeps_orphans_witness:
  "\<exists>w w1 s w2. torn_sync (Err (Store ''disk full'')) ex_lib ex_lwk ex_engine w = (Inl (Err (Store ''disk full'')), w1)
    \<and> mem_sync ex_lib ex_lwk ex_engine w1 = (Inr s, w2) \<and> mbs_tip (w_blocks w2) = tip_of ex_lib ex_new
    \<and> is_unspent (mem_ledger (w_utxos w2)) (OutPoint (Txid 2) 0)
    \<and> wallet_ledger ex_lib ex_lwk ex_engine ex_new (OutPoint (Txid 2) 0) = None"
proof -
  let ?op = "OutPoint (Txid 2) 0"
  obtain w where w: "mem_synced ex_lib ex_lwk ex_engine ex_old w" "mcs_chain (w_chain w) = ex_new" by (rule ex_run_old)
  obtain r w1 where torn: "torn_sync (Err (Store ''disk full'')) ex_lib ex_lwk ex_engine w = (r, w1)" by (rule prod.exhaust)
  have fork: "length ex_old \<le> length ex_new" "fork_at ex_lib ex_old ex_new 1" "1 < length ex_old"
    by (auto simp: fork_at_def ex_old_def ex_new_def ex_lib_def)
  have "is_unspent (wallet_ledger ex_lib ex_lwk ex_engine ex_old) ?op" by code_simp
  then obtain e where e: "mem_ledger (w_utxos w) ?op = Some e" "\<not> cu_is_spent (en_utxo e)"
    using w(1) by (auto simp: synced_def is_unspent_def split: option.splits)
  have other: "op_txid ?op \<notin> lib_txid ex_lib ` set (all_txs (drop 1 ex_new))" "?op \<notin> spent_in (drop 1 ex_new)"
    by (simp_all add: all_txs_def ex_new_def ex_tx_def ex_lib_def spent_in_def)
  have none: "wallet_ledger ex_lib ex_lwk ex_engine ex_new ?op = None" by code_simp
  from torn_rollback_keeps_orphans [OF ex_engine_wf w ex_wf(2) ex_inj(2) ex_linked fork torn] obtain s w2 where
    "r = Inl (Err (Store ''disk full''))" "mem_sync ex_lib ex_lwk ex_engine w1 = (Inr s, w2)"
    "mbs_tip (w_blocks w2) = tip_of ex_lib ex_new" "stays (drop 1 ex_new) ?op e (mem_ledger (w_utxos w2) ?op)"
    using e(1) other(1) by (elim conjE exE) blast
  moreover from this(4) have "is_unspent (mem_ledger (w_utxos w2)) ?op"
    using e(2) other(2) by (simp add: stays_def is_unspent_def)
  ultimately show ?thesis using torn none by blast
qed

end
