(* ===== verification/Sync_Moving.thy ===== *)
theory Sync_Moving
  imports Sync_Findings
begin

text \<open>
  A node that moves while a pass reads it: the scripted node of the tests, whose active chain at the
  n-th call is the n-th of a script. The engine asks such a node twice for the hash at the tip's height,
  once to fetch the last block and once more, two calls later, for the cursor.
\<close>

record moving_source =
  mv_script :: "nat \<Rightarrow> block list"
  mv_calls :: nat
  mv_broadcast :: "transaction list"

definition moving ::
    "(mock_chain_source, sync_error, 'a) act \<Rightarrow> (moving_source, sync_error, 'a) act" where
  "moving m c = (case m \<lparr>mcs_chain = mv_script c (mv_calls c), mcs_broadcast = mv_broadcast c\<rparr> of
     (r, node) \<Rightarrow> (r, c\<lparr>mv_calls := Suc (mv_calls c), mv_broadcast := mcs_broadcast node\<rparr>))"

definition moving_ops :: "elements_lib \<Rightarrow> moving_source chain_source_ops" where
  "moving_ops E = \<lparr>cs_tip_height = moving mock_tip_height, cs_block_hash = (\<lambda>h. moving (mock_block_hash E h)),
     cs_block = (\<lambda>x. moving (mock_block E x)), cs_broadcast = (\<lambda>t. moving (mock_broadcast E t))\<rparr>"

lemma moving_fields:
  "moving m c = (r, c') \<Longrightarrow> mv_script c' = mv_script c \<and> mv_calls c' = Suc (mv_calls c)"
  by (auto simp: moving_def split: prod.splits)

lemma moving_tip:
  "on_chain (cs_tip_height (moving_ops E)) w = (Inr t, w') \<Longrightarrow>
   Suc (unat t) = length (mv_script (w_chain w) (mv_calls (w_chain w)))"
  by (auto simp: on_chain_def moving_ops_def moving_def mock_tip_height_def fits_u32_def unat_word_of_nat_u32
      split: prod.splits if_splits)

lemma moving_hash:
  "on_chain (cs_block_hash (moving_ops E) h) w = (Inr x, w') \<Longrightarrow>
   x = lib_block_hash E (mv_script (w_chain w) (mv_calls (w_chain w)) ! unat h)
   \<and> mv_script (w_chain w') = mv_script (w_chain w) \<and> mv_calls (w_chain w') = Suc (mv_calls (w_chain w))
   \<and> w_blocks w' = w_blocks w"
  by (auto simp: on_chain_def moving_ops_def moving_def mock_block_hash_def split: prod.splits if_splits)

lemma moving_block:
  "on_chain (cs_block (moving_ops E) x) w = (r, w') \<Longrightarrow>
   mv_script (w_chain w') = mv_script (w_chain w) \<and> mv_calls (w_chain w') = Suc (mv_calls (w_chain w))
   \<and> w_blocks w' = w_blocks w"
  by (auto simp: on_chain_def moving_ops_def split: prod.splits dest: moving_fields)

section \<open>The script is never changed\<close>

definition keeps_script ::
    "(nat \<Rightarrow> block list) \<Rightarrow> ((moving_source, 'b, 'u) world, 'e, 'a) act \<Rightarrow> bool" where
  "keeps_script f m \<longleftrightarrow> (\<forall>w. mv_script (w_chain w) = f \<longrightarrow> mv_script (w_chain (snd (m w))) = f)"

lemma keeps_scriptD: "keeps_script f m \<Longrightarrow> m w = (r, w') \<Longrightarrow> mv_script (w_chain w) = f \<Longrightarrow> mv_script (w_chain w') = f"
  unfolding keeps_script_def by (metis snd_conv)

lemma keeps_script_bind:
  "keeps_script f m \<Longrightarrow> (\<And>a. keeps_script f (g a)) \<Longrightarrow> keeps_script f (bindS m g)"
  by (simp add: keeps_script_def bindS_def split: prod.split sum.split) (metis snd_conv)

lemma keeps_script_pure: "keeps_script f (ret a)" "keeps_script f (of_result r)"
    "keeps_script f (on_blocks b)" "keeps_script f (on_utxos u)"
  by (auto simp: keeps_script_def ret_def of_result_def on_blocks_def on_utxos_def split: prod.split)

lemma keeps_script_node: "keeps_script f (on_chain (cs_tip_height (moving_ops E)))"
    "keeps_script f (on_chain (cs_block_hash (moving_ops E) h))" "keeps_script f (on_chain (cs_block (moving_ops E) x))"
  by (auto simp: keeps_script_def on_chain_def moving_ops_def split: prod.split dest: moving_fields)

lemma keeps_script_if: "(b \<Longrightarrow> keeps_script f m) \<Longrightarrow> (\<not> b \<Longrightarrow> keeps_script f m') \<Longrightarrow> keeps_script f (if b then m else m')"
  by simp

lemmas keeps_script_intros = keeps_script_bind keeps_script_pure keeps_script_node keeps_script_if

lemma keeps_script_block: "keeps_script f (scan_block (moving_ops E) B U E L eng h acc)"
  unfolding scan_block_def flush_captured_def flush_spent_def Let_def by (intro keeps_script_intros)

lemma keeps_script_blocks: "keeps_script f (scan_blocks (moving_ops E) B U E L eng hs acc)"
  by (induction hs arbitrary: acc) (auto intro!: keeps_script_intros keeps_script_block)

lemma keeps_script_ancestor: "keeps_script f (find_common_ancestor (moving_ops E) B h)"
proof (induction "unat h" arbitrary: h rule: less_induct)
  case less
  have "h \<noteq> 0 \<Longrightarrow> unat (h - 1) < unat h" by (simp add: measure_unat)
  then show ?case
    by (subst find_common_ancestor.simps) (auto intro!: keeps_script_intros less split: option.split)
qed

lemma keeps_script_start: "keeps_script f (determine_start (moving_ops E) B U)"
  unfolding determine_start_def
  by (auto intro!: keeps_script_intros keeps_script_ancestor split: option.split)

section \<open>The last block and the cursor\<close>

lemma scan_blocks_append:
  "scan_blocks C B U E L eng (hs @ ks) acc w = (Inr acc', w') \<longleftrightarrow> (\<exists>acc1 w1.
     scan_blocks C B U E L eng hs acc w = (Inr acc1, w1) \<and> scan_blocks C B U E L eng ks acc1 w1 = (Inr acc', w'))"
proof (induction hs arbitrary: acc w)
  case (Cons h hs)
  then show ?case by (cases "scan_block C B U E L eng h acc w"; cases "fst (scan_block C B U E L eng h acc w)") auto
qed simp

lemma u32_range_last:
  assumes "u32_range a b \<noteq> []"
  obtains hs where "u32_range a b = hs @ [b]" and "a \<le> b"
proof -
  have "unat a \<le> unat b" using assms by (auto simp: u32_range_def split: if_splits)
  then have "u32_range a b = map word_of_nat [unat a ..< unat b] @ [b]" by (simp add: u32_range_def)
  with \<open>unat a \<le> unat b\<close> show ?thesis by (intro that) (simp_all add: word_le_nat_alt)
qed

context block_store
begin

text \<open>The last block's hash is asked for three calls before the end of the pass, the cursor's at the last.\<close>

lemma moving_block_stored:
  assumes inv: "bs_inv (w_blocks w)" and call: "scan_block (moving_ops E) B U E L eng h acc w = (Inr acc', w')"
  shows "map_option fst (bs_blocks (w_blocks w') h)
      = Some (lib_block_hash E (mv_script (w_chain w) (mv_calls (w_chain w)) ! unat h))
    \<and> mv_calls (w_chain w') = mv_calls (w_chain w) + 2 \<and> mv_script (w_chain w') = mv_script (w_chain w)
    \<and> bs_inv (w_blocks w')"
proof -
  from call obtain x w1 blk w2 w3 acc1 acc2 w4 acc3 where
    c1: "on_chain (cs_block_hash (moving_ops E) h) w = (Inr x, w1)" and c2: "on_chain (cs_block (moving_ops E) x) w1 = (Inr blk, w2)"
    and c3: "on_blocks (bs_store_block B h x (lib_serialize_block E blk)) w2 = (Inr (), w3)"
    and c5: "flush_captured U acc1 w3 = (Inr acc2, w4)" and c6: "flush_spent U h acc2 w4 = (Inr acc3, w')"
    by (auto simp: scan_block_def elim!: bindS_InrE)
  note w1 = moving_hash [OF c1] and w2 = moving_block [OF c2]
  have stores: "w_blocks w' = w_blocks w3" "w_chain w' = w_chain w3"
    using c5 c6 by (auto simp: flush_captured_def flush_spent_def Let_def elim!: bindS_InrE split: if_splits
      dest!: on_utxos_frame)
  from c3 obtain z where z: "bs_store_block B h x (lib_serialize_block E blk) (w_blocks w) = (Inr (), z)"
    and w3: "w3 = w2\<lparr>w_blocks := z\<rparr>" using w1 w2 by (auto elim!: on_blocksE)
  from store_block [OF inv z] w1 w2 w3 stores show ?thesis by simp
qed

lemma moving_pass:
  assumes inv: "bs_inv (w_blocks w)" and len: "\<And>i. length (mv_script (w_chain w) i) < 2 ^ 32"
    and call: "sync (moving_ops E) B U E L eng w = (Inr s, w')" and work: "ss_blocks_scanned s \<noteq> 0"
  obtains t n where "bs_tip (w_blocks w') = Some t" and "mv_calls (w_chain w') = n" and "3 \<le> n"
    and "st_hash t = lib_block_hash E (mv_script (w_chain w) (n - 1) ! unat (st_height t))"
    and "map_option fst (bs_blocks (w_blocks w') (st_height t))
      = Some (lib_block_hash E (mv_script (w_chain w) (n - 3) ! unat (st_height t)))"
proof -
  let ?f = "mv_script (w_chain w)"
  from call obtain tip w1 start reorg w2 pairs w3 acc w4 where
    c1: "on_chain (cs_tip_height (moving_ops E)) w = (Inr tip, w1)"
    and c2: "determine_start (moving_ops E) B U w1 = (Inr (start, reorg), w2)"
    and c3: "on_utxos (us_unspent_outpoints U) w2 = (Inr pairs, w3)"
    and c4: "scan_blocks (moving_ops E) B U E L eng (u32_range (clamp_start start tip) tip)
      \<lparr>sa_spend_index = fold (\<lambda>(op, wid). AList.update op wid) pairs [],
       sa_summary = default_summary\<lparr>ss_reorg_to := reorg\<rparr>, sa_captured = [], sa_spent = []\<rparr> w3
      = (Inr acc, w4)"
    and c5: "advance_cursor (moving_ops E) B (clamp_start start tip) tip w4 = (Inr (), w')"
    and out: "s = sa_summary acc"
    by (auto simp: sync_def Let_def elim!: bindS_InrE)
  have "bs_inv (w_blocks w1)" using on_chain_frame [OF c1] inv by simp
  then have inv2: "bs_inv (w_blocks w2)" using determine_start_cursor [OF _ c2] by blast
  have inv3: "bs_inv (w_blocks w3)" "w_chain w3 = w_chain w2" using on_utxos_frame [OF c3] inv2 by simp_all
  have "mv_script (w_chain w1) = ?f" using keeps_scriptD [OF keeps_script_node(1) c1 refl] .
  then have f3: "mv_script (w_chain w3) = ?f" using keeps_scriptD [OF keeps_script_start c2] inv3(2) by simp
  have "u32_range (clamp_start start tip) tip \<noteq> []"
    using c4 work out by (auto simp: default_summary_def)
  then obtain hs where range: "u32_range (clamp_start start tip) tip = hs @ [tip]" and le: "clamp_start start tip \<le> tip"
    by (rule u32_range_last)
  from c4 [unfolded range scan_blocks_append] obtain acc1 v where
    c6: "scan_blocks (moving_ops E) B U E L eng hs
      \<lparr>sa_spend_index = fold (\<lambda>(op, wid). AList.update op wid) pairs [],
       sa_summary = default_summary\<lparr>ss_reorg_to := reorg\<rparr>, sa_captured = [], sa_spent = []\<rparr> w3 = (Inr acc1, v)"
    and c7: "scan_block (moving_ops E) B U E L eng tip acc1 v = (Inr acc, w4)"
    by (auto elim!: bindS_InrE)
  have v: "mv_script (w_chain v) = ?f" "bs_inv (w_blocks v)"
    using keeps_scriptD [OF keeps_script_blocks c6 f3] scan_blocks_cursor [OF inv3(1) c6] by auto
  note last = moving_block_stored [OF v(2) c7]
  have "unat tip + 1 < 2 ^ 32" using moving_tip [OF c1] len [of "mv_calls (w_chain w)"] by simp
  then have "clamp_start start tip \<le> tip + 1" using u32_succ [of tip] le by (simp add: word_le_nat_alt)
  with c5 obtain x u where c8: "on_chain (cs_block_hash (moving_ops E) tip) w4 = (Inr x, u)"
    and c9: "on_blocks (bs_set_synced_tip B \<lparr>st_height = tip, st_hash = x\<rparr>) u = (Inr (), w')"
    by (auto simp: advance_cursor_def elim!: bindS_InrE)
  note u = moving_hash [OF c8]
  from c9 obtain z where z: "bs_set_synced_tip B \<lparr>st_height = tip, st_hash = x\<rparr> (w_blocks w4) = (Inr (), z)"
    and w': "w' = u\<lparr>w_blocks := z\<rparr>" using u by (auto elim!: on_blocksE)
  have inv4: "bs_inv (w_blocks w4)" using last by blast
  from set_synced_tip [OF inv4 z] last u w' v(1) show ?thesis
    by (intro that [of "\<lparr>st_height = tip, st_hash = x\<rparr>" "mv_calls (w_chain v) + 3"]) (simp_all add: numeral_3_eq_3)
qed

end

section \<open>The property\<close>


text \<open>One pass over the two blocks of the old chain; at the last call the node has another second block.\<close>

definition moved_start :: "(moving_source, mem_block_store, mem_utxo_store) world" where
  "moved_start = \<lparr>w_chain = \<lparr>mv_script = (\<lambda>i. if i < 5 then ex_old else take 2 ex_new), mv_calls = 0, mv_broadcast = []\<rparr>,
     w_blocks = mem_block_new, w_utxos = mem_utxo_new\<rparr>"


end
