(* ===== verification/Sync_Checked.thy ===== *)
theory Sync_Checked
  imports Sync_Properties
begin

text \<open>
  \<open>src/sync/scan.rs\<close> in a build with overflow checks: each \<open>+\<close> on heights and on the block
  counter panics instead of wrapping. The definitions repeat those of the theory Sync_Scan with
  the checks where the source adds; the theorem says that the two builds behave alike, for any
  backends, unless the node or the cursor is at the last height a \<open>u32\<close> can name.
\<close>

definition checked_add :: "u32 \<Rightarrow> u32 \<Rightarrow> ('e, u32) result" where
  "checked_add a b =
     (if unat a + unat b < 2 ^ 32 then Inr (a + b) else Inl (Panic ''attempt to add with overflow''))"

definition bump_blocks_checked :: "scan_acc \<Rightarrow> (sync_error, scan_acc) result" where
  "bump_blocks_checked acc =
     bindR (checked_add (ss_blocks_scanned (sa_summary acc)) 1) (\<lambda>n.
     Inr (acc\<lparr>sa_summary := (sa_summary acc)\<lparr>ss_blocks_scanned := n\<rparr>\<rparr>))"

definition scan_block_checked ::
    "'c chain_source_ops \<Rightarrow> 'b block_store_ops \<Rightarrow> 'u utxo_store_ops \<Rightarrow> elements_lib
     \<Rightarrow> ('d, 'k, 'w) lwk_lib \<Rightarrow> ('d, 'k, 'w) scan_engine \<Rightarrow> u32 \<Rightarrow> scan_acc
     \<Rightarrow> (('c, 'b, 'u) world, sync_error, scan_acc) act" where
  "scan_block_checked C B U E L eng h acc =
     bindS (on_chain (cs_block_hash C h)) (\<lambda>hash.
     bindS (on_chain (cs_block C hash)) (\<lambda>blk.
     bindS (on_blocks (bs_store_block B h hash (lib_serialize_block E blk))) (\<lambda>_.
     bindS (of_result (scan_txs E L eng h (blk_txdata blk)
              (acc\<lparr>sa_captured := [], sa_spent := []\<rparr>))) (\<lambda>acc.
     bindS (flush_captured U acc) (\<lambda>acc.
     bindS (flush_spent U h acc) (\<lambda>acc.
     of_result (bump_blocks_checked acc)))))))"

fun scan_blocks_checked ::
    "'c chain_source_ops \<Rightarrow> 'b block_store_ops \<Rightarrow> 'u utxo_store_ops \<Rightarrow> elements_lib
     \<Rightarrow> ('d, 'k, 'w) lwk_lib \<Rightarrow> ('d, 'k, 'w) scan_engine \<Rightarrow> u32 list \<Rightarrow> scan_acc
     \<Rightarrow> (('c, 'b, 'u) world, sync_error, scan_acc) act" where
  "scan_blocks_checked C B U E L eng [] acc = ret acc"
| "scan_blocks_checked C B U E L eng (h # hs) acc =
     bindS (scan_block_checked C B U E L eng h acc) (scan_blocks_checked C B U E L eng hs)"

definition determine_start_checked ::
    "'c chain_source_ops \<Rightarrow> 'b block_store_ops \<Rightarrow> 'u utxo_store_ops
     \<Rightarrow> (('c, 'b, 'u) world, sync_error, u32 \<times> u32 option) act" where
  "determine_start_checked C B U =
     bindS (on_blocks (bs_synced_tip B)) (\<lambda>cursor.
     case cursor of
       None \<Rightarrow> ret (0, None)
     | Some t \<Rightarrow>
         bindS (on_chain (cs_block_hash C (st_height t))) (\<lambda>x.
         if x = st_hash t then
           bindS (of_result (checked_add (st_height t) 1)) (\<lambda>start. ret (start, None))
         else
           bindS (find_common_ancestor C B (st_height t)) (\<lambda>ancestor.
           bindS (on_blocks (bs_rollback_above B ancestor)) (\<lambda>_.
           bindS (on_utxos (us_rollback_above U ancestor)) (\<lambda>_.
           bindS (of_result (checked_add ancestor 1)) (\<lambda>start. ret (start, Some ancestor)))))))"

definition clamp_start_checked :: "u32 \<Rightarrow> u32 \<Rightarrow> ('e, u32) result" where
  "clamp_start_checked start tip =
     bindR (checked_add tip 1) (\<lambda>next. if start > next then checked_add tip 1 else Inr start)"

definition advance_cursor_checked ::
    "'c chain_source_ops \<Rightarrow> 'b block_store_ops \<Rightarrow> u32 \<Rightarrow> u32
     \<Rightarrow> (('c, 'b, 'u) world, sync_error, unit) act" where
  "advance_cursor_checked C B start tip =
     bindS (of_result (checked_add tip 1)) (\<lambda>next.
     if next \<ge> start then
       bindS (on_chain (cs_block_hash C tip)) (\<lambda>tip_hash.
       on_blocks (bs_set_synced_tip B \<lparr>st_height = tip, st_hash = tip_hash\<rparr>))
     else ret ())"

definition sync_checked ::
    "'c chain_source_ops \<Rightarrow> 'b block_store_ops \<Rightarrow> 'u utxo_store_ops \<Rightarrow> elements_lib
     \<Rightarrow> ('d, 'k, 'w) lwk_lib \<Rightarrow> ('d, 'k, 'w) scan_engine
     \<Rightarrow> (('c, 'b, 'u) world, sync_error, sync_summary) act" where
  "sync_checked C B U E L eng =
     bindS (on_chain (cs_tip_height C)) (\<lambda>tip.
     bindS (determine_start_checked C B U) (\<lambda>(start, reorg_to).
     let summary = default_summary\<lparr>ss_reorg_to := reorg_to\<rparr> in
     bindS (of_result (clamp_start_checked start tip)) (\<lambda>start.
     bindS (on_utxos (us_unspent_outpoints U)) (\<lambda>pairs.
     let spend_index = fold (\<lambda>(op, wid). AList.update op wid) pairs [] in
     bindS (scan_blocks_checked C B U E L eng (u32_range start tip)
              \<lparr>sa_spend_index = spend_index, sa_summary = summary, sa_captured = [], sa_spent = []\<rparr>)
       (\<lambda>acc.
     bindS (advance_cursor_checked C B start tip) (\<lambda>_.
     ret (sa_summary acc)))))))"

section \<open>No sum overflows\<close>

lemma checked_add_succ: "a < 0xFFFFFFFF \<Longrightarrow> checked_add a 1 = Inr (a + 1)"
  by (simp add: checked_add_def word_less_nat_alt)

lemma checked_add_last: "checked_add 0xFFFFFFFF 1 = Inl (Panic ''attempt to add with overflow'')"
  by (simp add: checked_add_def)

text \<open>Two continuations that agree on whatever the first action returns give the same action.\<close>

lemma bindS_cong_on:
  assumes "\<And>a s'. m s = (Inr a, s') \<Longrightarrow> f a s' = g a s'"
  shows "bindS m f s = bindS m g s"
  using assms by (simp add: bindS_def split: prod.split sum.split)

lemma find_common_ancestor_le:
  "find_common_ancestor C B h w = (Inr a, w') \<Longrightarrow> a \<le> h"
proof (induction "unat h" arbitrary: h w rule: less_induct)
  case less
  from less.prems obtain same w1 where
    "(if same then ret h else if h = 0 then ret 0 else find_common_ancestor C B (h - 1)) w1 = (Inr a, w')"
    by (subst (asm) find_common_ancestor.simps) (auto elim!: bindS_InrE)
  then consider "a = h" | "h \<noteq> 0" "find_common_ancestor C B (h - 1) w1 = (Inr a, w')"
    by (auto simp: ret_def split: if_splits)
  then show ?case
  proof cases
    case 2
    then have "unat (h - 1) < unat h" by (simp add: measure_unat)
    with less.hyps 2(2) have "a \<le> h - 1" by blast
    also have "h - 1 \<le> h" using 2(1) by (simp add: word_le_nat_alt unat_minus_one)
    finally show ?thesis .
  qed simp
qed

lemma determine_start_checked_eq:
  assumes "\<And>t z. bs_synced_tip B (w_blocks w) = (Inr (Some t), z) \<Longrightarrow> st_height t < 0xFFFFFFFF"
  shows "determine_start_checked C B U w = determine_start C B U w"
  unfolding determine_start_checked_def determine_start_def
proof (rule bindS_cong_on, goal_cases)
  case (1 cursor w1)
  then have small: "cursor = Some t \<Longrightarrow> st_height t < 0xFFFFFFFF" for t
    using assms by (auto elim!: on_blocksE)
  show ?case
  proof (cases cursor)
    case (Some t)
    note t = small [OF Some]
    have "checked_add a 1 = (Inr (a + 1) :: (sync_error, u32) result)"
      if "find_common_ancestor C B (st_height t) w2 = (Inr a, w3)" for a w2 w3
      using find_common_ancestor_le [OF that] t by (intro checked_add_succ) simp
    note add = checked_add_succ [OF t] this
    show ?thesis
      by (auto simp: Some add of_result_def ret_def bindS_def split: prod.split sum.split)
  qed simp
qed

abbreviation scanned_count :: "scan_acc \<Rightarrow> u32" where
  "scanned_count acc \<equiv> ss_blocks_scanned (sa_summary acc)"

lemma scan_inputs_count: "scanned_count (scan_inputs inputs acc) = scanned_count acc"
  by (induction inputs arbitrary: acc) (auto simp: Let_def split: option.splits)

lemma scan_output_count:
  "scan_output L eng h tid v t acc = Inr acc' \<Longrightarrow> scanned_count acc' = scanned_count acc"
  by (auto simp: scan_output_def bump_skipped_def Let_def split: option.splits if_splits sum.splits)

lemma scan_outputs_count:
  "scan_outputs L eng h tid v ts acc = Inr acc' \<Longrightarrow> scanned_count acc' = scanned_count acc"
proof (induction ts arbitrary: v acc)
  case (Cons t ts)
  then show ?case by (auto simp: bindR_Inr dest: scan_output_count)
qed simp

lemma scan_txs_count:
  "scan_txs E L eng h txs acc = Inr acc' \<Longrightarrow> scanned_count acc' = scanned_count acc"
proof (induction txs arbitrary: acc)
  case (Cons tx txs)
  then show ?case by (auto simp: bindR_Inr scan_tx_def scan_inputs_count dest!: scan_outputs_count)
qed simp

lemma flush_count:
  "flush_captured U acc w = (Inr acc', w') \<Longrightarrow> scanned_count acc' = scanned_count acc"
  "flush_spent U h acc w = (Inr acc', w') \<Longrightarrow> scanned_count acc' = scanned_count acc"
  by (auto simp: flush_captured_def flush_spent_def Let_def ret_def elim!: bindS_InrE split: if_splits)

lemma bump_blocks_checked_eq:
  "scanned_count acc < 0xFFFFFFFF \<Longrightarrow> bump_blocks_checked acc = Inr (bump_blocks acc)"
  by (simp add: bump_blocks_checked_def bump_blocks_def checked_add_succ)

lemma scan_block_count:
  "scan_block C B U E L eng h acc w = (Inr acc', w') \<Longrightarrow> scanned_count acc' = scanned_count acc + 1"
  by (auto simp: scan_block_def bump_blocks_def of_result_def ret_def elim!: bindS_InrE
      dest!: scan_txs_count flush_count)

lemma scan_block_checked_eq:
  assumes "scanned_count acc < 0xFFFFFFFF"
  shows "scan_block_checked C B U E L eng h acc w = scan_block C B U E L eng h acc w"
  unfolding scan_block_checked_def scan_block_def
  using assms
  by (intro bindS_cong_on)
    (auto simp: bump_blocks_checked_eq of_result_def ret_def dest!: scan_txs_count flush_count)

lemma scan_blocks_checked_eq:
  "unat (scanned_count acc) + length hs < 2 ^ 32 \<Longrightarrow>
    scan_blocks_checked C B U E L eng hs acc w = scan_blocks C B U E L eng hs acc w"
proof (induction hs arbitrary: acc w)
  case (Cons h hs)
  then have room: "unat (scanned_count acc) + 1 < 2 ^ 32" "scanned_count acc < 0xFFFFFFFF"
    by (simp_all add: word_less_nat_alt)
  have "scan_blocks_checked C B U E L eng hs acc' w' = scan_blocks C B U E L eng hs acc' w'"
    if "scan_block C B U E L eng h acc w = (Inr acc', w')" for acc' w'
    using Cons.IH [of acc'] Cons.prems u32_succ [OF room(1)] scan_block_count [OF that] by simp
  moreover have "scan_block_checked C B U E L eng h acc w = scan_block C B U E L eng h acc w"
    by (rule scan_block_checked_eq [OF room(2)])
  ultimately show ?case by (auto simp: bindS_def split: prod.split sum.split)
qed simp

lemma length_u32_range: "length (u32_range a b) = Suc (unat b) - unat a"
  by (simp add: u32_range_def del: upt_Suc)

text \<open>
  C20. No sum of a pass overflows: unless the node's tip or the stored cursor is at height
  \<open>2 ^ 32 - 1\<close>, the pass of a build with overflow checks is the pass of a build without, over any
  backends and whatever fails on the way; the heights and the block counter never wrap.
\<close>

theorem checked_pass_agrees:
  assumes node: "\<And>t c. cs_tip_height C (w_chain w) = (Inr t, c) \<Longrightarrow> t < 0xFFFFFFFF"
    and cursor: "\<And>t z. bs_synced_tip B (w_blocks w) = (Inr (Some t), z) \<Longrightarrow> st_height t < 0xFFFFFFFF"
  shows "sync_checked C B U E L eng w = sync C B U E L eng w"
  unfolding sync_checked_def sync_def
proof (rule bindS_cong_on, goal_cases)
  case (1 tip w1)
  then have tip: "tip < 0xFFFFFFFF" and w1: "w_blocks w1 = w_blocks w" using node by (auto elim!: on_chainE)
  have len: "length (u32_range start tip) < 2 ^ 32" for start
    using tip by (simp add: length_u32_range word_less_nat_alt)
  have clamp: "clamp_start_checked start tip = Inr (clamp_start start tip)" for start
    by (simp add: clamp_start_checked_def clamp_start_def checked_add_succ [OF tip] bindR_def)
  have adv: "advance_cursor_checked C B start tip = advance_cursor C B start tip" for start
    by (simp add: fun_eq_iff advance_cursor_checked_def advance_cursor_def checked_add_succ [OF tip])
  have begin_eq: "determine_start_checked C B U w1 = determine_start C B U w1"
    using cursor w1 by (intro determine_start_checked_eq) simp
  have blocks: "scan_blocks_checked C B U E L eng (u32_range start tip)
      \<lparr>sa_spend_index = m, sa_summary = default_summary\<lparr>ss_reorg_to := r\<rparr>, sa_captured = [], sa_spent = []\<rparr> w'
    = scan_blocks C B U E L eng (u32_range start tip)
      \<lparr>sa_spend_index = m, sa_summary = default_summary\<lparr>ss_reorg_to := r\<rparr>, sa_captured = [], sa_spent = []\<rparr> w'"
    for start m r w' using len [of start] by (intro scan_blocks_checked_eq) (simp add: default_summary_def)
  show ?case
    by (simp add: bindS_def begin_eq clamp adv blocks Let_def split: prod.split sum.split)
qed

theorem checked_pass_agrees_witness:
  "\<exists>summary w'. sync_checked (mock_chain_ops ex_lib) mem_block_ops mem_utxo_ops ex_lib ex_lwk ex_engine
      (ex_world ex_old) = (Inr summary, w') \<and> mcs_chain (w_chain w') = ex_old"
proof -
  have "mem_synced ex_lib ex_lwk ex_engine [] (ex_world ex_old)"
    unfolding ex_world_def by (rule mem_synced_empty)
  moreover have "ex_old \<noteq> []" "mcs_chain (w_chain (ex_world ex_old)) = ex_old" by (simp_all add: ex_old_def ex_world_def)
  moreover have "linked ex_lib [] ex_old" "length ([] :: block list) \<le> length ex_old" by (simp_all add: linked_def)
  ultimately obtain summary w' where call: "mem_sync ex_lib ex_lwk ex_engine (ex_world ex_old) = (Inr summary, w')"
    and chain: "mcs_chain (w_chain w') = ex_old"
    using mem_pass [OF ex_engine_wf _ _ ex_wf(1) ex_inj(1)] by blast
  have "sync_checked (mock_chain_ops ex_lib) mem_block_ops mem_utxo_ops ex_lib ex_lwk ex_engine (ex_world ex_old)
      = mem_sync ex_lib ex_lwk ex_engine (ex_world ex_old)"
    by (rule checked_pass_agrees)
      (auto simp: mock_chain_ops_def mock_tip_height_def ex_world_def ex_old_def mem_block_ops_def
        mem_synced_tip_def mem_block_new_def)
  with call chain show ?thesis by simp
qed

end
