(* ===== verification/Core_Types.thy ===== *)
theory Core_Types
  imports Network
begin

text \<open>
  What the crate uses of \<open>emvault-core\<close> and of the \<open>bitcoin\<close> crate: a signer and a federation
  through the methods that are called on them, public keys, derivation paths and the renderings
  that go into descriptor strings. Signer ids are a linearly ordered type \<open>'id\<close>, extended keys a
  type \<open>'x\<close>; lookups in a federation are functions of that crate, and \<open>federation_ok\<close> states what
  it documents about them.
\<close>

type_synonym fingerprint = "32 word"

datatype child_number = ChildNormal u32 | ChildHardened u32

datatype pubkey = PublicKey (pubkey_bytes: "u8 list")

record 'x bitcoin_lib =
  bl_show_fingerprint :: "fingerprint \<Rightarrow> string"
  bl_public_key :: "'x \<Rightarrow> pubkey"
  bl_show_pubkey :: "pubkey \<Rightarrow> string"
  bl_show_xpub :: "'x \<Rightarrow> string"

record ('id, 'x) signer_info =
  sg_id :: 'id
  sg_fingerprint :: fingerprint
  sg_derivation_path :: "child_number list"
  sg_xpub :: 'x

record ('id, 'x) federation =
  fed_network :: network_type
  fed_threshold :: u32
  fed_signers :: "('id, 'x) signer_info list"
  fed_contains :: "'id \<Rightarrow> bool"
  fed_find :: "'id \<Rightarrow> ('id, 'x) signer_info option"

definition federation_ok :: "('id, 'x) federation \<Rightarrow> bool" where
  "federation_ok f \<longleftrightarrow> (\<forall>i. fed_contains f i \<longleftrightarrow> i \<in> sg_id ` set (fed_signers f))
     \<and> (\<forall>i s. fed_find f i = Some s \<longrightarrow> s \<in> set (fed_signers f) \<and> sg_id s = i)
     \<and> (\<forall>i. fed_find f i = None \<longrightarrow> \<not> fed_contains f i)"

text \<open>\<open>NetworkType::is_elements\<close> of \<open>emvault-core\<close>, as the variants name it.\<close>

fun is_elements :: "network_type \<Rightarrow> bool" where
  "is_elements (NT_Bitcoin _) \<longleftrightarrow> False"
| "is_elements (NT_Elements _) \<longleftrightarrow> True"

datatype federated_wallet_error =
    NonElementsNetwork
  | NetworkMismatch network_type network_type

lemma federation_find:
  "federation_ok f \<Longrightarrow> fed_contains f i \<Longrightarrow> \<exists>s. fed_find f i = Some s \<and> s \<in> set (fed_signers f) \<and> sg_id s = i"
  unfolding federation_ok_def by (metis not_None_eq)

end
