(* ===== verification/Pset.thy ===== *)
theory Pset
  imports Core_Types Hex
begin

text \<open>
  The PSET as this crate sees it, the three newtypes of \<open>src/pset.rs\<close>, the blinding step and the
  check of \<open>src/confidential.rs\<close>. Extraction of the transaction, \<open>blind_last\<close>, unblinding, the
  SLIP-77 derivation and the script tokeniser are functions of other crates: parameters in
  \<open>pset_lib\<close>. The maps of an input (\<open>BTreeMap\<close> in the source, read by key only) are association
  lists with distinct keys.
\<close>

record pset_input =
  pi_previous_txid :: txid
  pi_previous_output_index :: u32
  pi_witness_utxo :: "txout option"
  pi_partial_sigs :: "(pubkey \<times> u8 list) list"
  pi_sighash_type :: "u32 option"
  pi_redeem_script :: "script option"
  pi_witness_script :: "script option"
  pi_bip32_derivation :: "(pubkey \<times> (fingerprint \<times> child_number list)) list"
  pi_final_script_witness :: "u8 list list option"

record pset_output =
  po_script_pubkey :: script
  po_amount :: "u64 option"
  po_amount_comm :: "u8 list option"
  po_asset :: "asset_id option"
  po_asset_comm :: "u8 list option"
  po_value_rangeproof :: "u8 list option"
  po_asset_surjection_proof :: "u8 list option"
  po_blinder_index :: "u32 option"

record pset =
  ps_global :: "u8 list"
  ps_inputs :: "pset_input list"
  ps_outputs :: "pset_output list"

datatype instruction = PushBytes "u8 list" | OpCode u8

record ('mbk, 'sk) pset_lib =
  pl_instructions :: "script \<Rightarrow> (string + instruction) list"
  pl_pubkey_from_slice :: "u8 list \<Rightarrow> string + pubkey"
  pl_extract_tx :: "pset \<Rightarrow> string + transaction"
  pl_blind_last :: "(nat \<times> txout_secrets) list \<Rightarrow> pset \<Rightarrow> string + pset"
  pl_blinding_private_key :: "'mbk \<Rightarrow> script \<Rightarrow> 'sk"
  pl_unblind :: "txout \<Rightarrow> 'sk \<Rightarrow> string + txout_secrets"

section \<open>The newtypes\<close>

datatype unsigned_pset = UnsignedPset (up_pset: pset)
datatype blinded_pset = BlindedPset (bp_pset: pset)

record finalized_pset =
  fp_pset :: pset
  fp_transaction :: transaction

definition unsigned_new :: "pset \<Rightarrow> ('id pset_error, unsigned_pset) result" where
  "unsigned_new ps =
     (let total_sigs = sum_list (map (\<lambda>i. length (pi_partial_sigs i)) (ps_inputs ps))
      in if total_sigs \<noteq> 0 then Inl (Err (UnexpectedSignatures total_sigs))
         else Inr (UnsignedPset ps))"

definition unsigned_into_pset :: "unsigned_pset \<Rightarrow> pset" where
  "unsigned_into_pset u = up_pset u"

definition unsigned_as_pset :: "unsigned_pset \<Rightarrow> pset" where
  "unsigned_as_pset u = up_pset u"

definition blinded_new :: "pset \<Rightarrow> ('id pset_error, blinded_pset) result" where
  "blinded_new ps =
     (let has_blinded_output = list_ex (\<lambda>out. po_value_rangeproof out \<noteq> None) (ps_outputs ps)
      in if \<not> has_blinded_output then Inl (Err NotBlinded) else Inr (BlindedPset ps))"

definition blinded_into_pset :: "blinded_pset \<Rightarrow> pset" where
  "blinded_into_pset b = bp_pset b"

definition blinded_as_pset :: "blinded_pset \<Rightarrow> pset" where
  "blinded_as_pset b = bp_pset b"

definition finalized_transaction :: "finalized_pset \<Rightarrow> transaction" where
  "finalized_transaction f = fp_transaction f"

definition finalized_as_pset :: "finalized_pset \<Rightarrow> pset" where
  "finalized_as_pset f = fp_pset f"

definition finalized_txid :: "elements_lib \<Rightarrow> finalized_pset \<Rightarrow> txid" where
  "finalized_txid E f = lib_txid E (fp_transaction f)"

definition finalized_serialize :: "elements_lib \<Rightarrow> finalized_pset \<Rightarrow> u8 list" where
  "finalized_serialize E f = lib_serialize_tx E (fp_transaction f)"

fun serialize_hex_loop :: "u8 list \<Rightarrow> string" where
  "serialize_hex_loop [] = []"
| "serialize_hex_loop (b # bs) = fmt_02x b @ serialize_hex_loop bs"

definition finalized_serialize_hex :: "elements_lib \<Rightarrow> finalized_pset \<Rightarrow> string" where
  "finalized_serialize_hex E f = serialize_hex_loop (finalized_serialize E f)"

section \<open>Validation of blinding\<close>

text \<open>The loop over outputs, \<open>idx\<close> the number of the first of them.\<close>

fun validate_outputs :: "nat \<Rightarrow> nat \<Rightarrow> pset_output list \<Rightarrow> ('id pset_error, unit) result" where
  "validate_outputs num_inputs idx [] = Inr ()"
| "validate_outputs num_inputs idx (out # outs) =
     (let is_fee = script_is_empty (po_script_pubkey out) in
      if is_fee then validate_outputs num_inputs (Suc idx) outs
      else if po_value_rangeproof out = None then
        Inl (Err (BlindingFailed (''output '' @ dec idx @ '' missing range proof'')))
      else if po_asset_surjection_proof out = None then
        Inl (Err (BlindingFailed (''output '' @ dec idx @ '' missing surjection proof'')))
      else case po_blinder_index out of
          Some blinder_idx \<Rightarrow>
            if num_inputs \<le> unat blinder_idx then
              Inl (Err (BlindingFailed (''output '' @ dec idx @ '' blinder_index '' @ dec (unat blinder_idx)
                @ '' exceeds input count '' @ dec num_inputs)))
            else validate_outputs num_inputs (Suc idx) outs
        | None \<Rightarrow> validate_outputs num_inputs (Suc idx) outs)"

definition validate_blinding_raw :: "pset \<Rightarrow> ('id pset_error, unit) result" where
  "validate_blinding_raw ps = validate_outputs (length (ps_inputs ps)) 0 (ps_outputs ps)"

definition validate_blinding :: "blinded_pset \<Rightarrow> ('id pset_error, unit) result" where
  "validate_blinding b = validate_blinding_raw (bp_pset b)"

section \<open>Blinding\<close>

definition blind_pset ::
    "('mbk, 'sk) pset_lib \<Rightarrow> unsigned_pset \<Rightarrow> (nat \<times> txout_secrets) list
     \<Rightarrow> ('id pset_error, blinded_pset) result" where
  "blind_pset PL u inp_txout_secrets =
     (let inner = unsigned_into_pset u in
      bindR (lib_err BlindingFailed (pl_blind_last PL inp_txout_secrets inner)) blinded_new)"

definition explicit_txout_secrets :: "asset_id \<Rightarrow> u64 \<Rightarrow> txout_secrets" where
  "explicit_txout_secrets asset v =
     \<lparr>sec_asset = asset, sec_asset_bf = 0, sec_value = v, sec_value_bf = 0\<rparr>"

definition unblind_input ::
    "('mbk, 'sk) pset_lib \<Rightarrow> txout \<Rightarrow> 'sk \<Rightarrow> ('id pset_error, txout_secrets) result" where
  "unblind_input PL witness_utxo blinding_key =
     lib_err (\<lambda>e. BlindingFailed (''unblind failed: '' @ e)) (pl_unblind PL witness_utxo blinding_key)"

definition slip77_blinding_key :: "('mbk, 'sk) pset_lib \<Rightarrow> 'mbk \<Rightarrow> script \<Rightarrow> 'sk" where
  "slip77_blinding_key PL mbk script_pubkey = pl_blinding_private_key PL mbk script_pubkey"

definition utxo_secrets ::
    "('mbk, 'sk) pset_lib \<Rightarrow> 'mbk \<Rightarrow> txout \<Rightarrow> ('id pset_error, txout_secrets) result" where
  "utxo_secrets PL mbk utxo =
     (case (to_value utxo, to_asset utxo) of
        (ValueExplicit v, AssetExplicit a) \<Rightarrow> Inr (explicit_txout_secrets a v)
      | _ \<Rightarrow> unblind_input PL utxo (slip77_blinding_key PL mbk (to_script_pubkey utxo)))"

fun derive_secrets_loop ::
    "('mbk, 'sk) pset_lib \<Rightarrow> 'mbk \<Rightarrow> nat \<Rightarrow> pset_input list \<Rightarrow> (nat \<times> txout_secrets) list
     \<Rightarrow> ('id pset_error, (nat \<times> txout_secrets) list) result" where
  "derive_secrets_loop PL mbk i [] secrets = Inr secrets"
| "derive_secrets_loop PL mbk i (inp # inputs) secrets =
     (case pi_witness_utxo inp of
        None \<Rightarrow> Inl (Err (Elements (''input '' @ dec i @ '' missing witness_utxo'')))
      | Some utxo \<Rightarrow> bindR (utxo_secrets PL mbk utxo) (\<lambda>s.
          derive_secrets_loop PL mbk (Suc i) inputs (AList.update i s secrets)))"

definition derive_input_secrets ::
    "('mbk, 'sk) pset_lib \<Rightarrow> pset \<Rightarrow> 'mbk \<Rightarrow> ('id pset_error, (nat \<times> txout_secrets) list) result"
  where
  "derive_input_secrets PL ps mbk = derive_secrets_loop PL mbk 0 (ps_inputs ps) []"

section \<open>Lemmas\<close>

lemma serialize_hex_loop_encode: "serialize_hex_loop bs = hex_encode bs"
  by (induction bs) (simp_all add: fmt_02x_encode split: prod.splits)

lemma sum_list_zero: "sum_list (map f xs) = (0 :: nat) \<longleftrightarrow> (\<forall>x \<in> set xs. f x = 0)"
  by (induction xs) auto

lemma unsigned_new_iff:
  "unsigned_new ps = Inr u \<longleftrightarrow> u = UnsignedPset ps \<and> (\<forall>i \<in> set (ps_inputs ps). pi_partial_sigs i = [])"
proof -
  have "sum_list (map (\<lambda>i. length (pi_partial_sigs i)) (ps_inputs ps)) = 0 \<longleftrightarrow>
      (\<forall>i \<in> set (ps_inputs ps). pi_partial_sigs i = [])"
    using sum_list_zero [of "\<lambda>i. length (pi_partial_sigs i)" "ps_inputs ps"] by simp
  then show ?thesis unfolding unsigned_new_def Let_def by auto
qed

lemma blinded_new_iff:
  "blinded_new ps = Inr b \<longleftrightarrow>
     b = BlindedPset ps \<and> (\<exists>out \<in> set (ps_outputs ps). po_value_rangeproof out \<noteq> None)"
  by (auto simp: blinded_new_def Let_def list_ex_iff)

text \<open>What the check lets through.\<close>

definition output_blinded :: "nat \<Rightarrow> pset_output \<Rightarrow> bool" where
  "output_blinded num_inputs out \<longleftrightarrow> script_is_empty (po_script_pubkey out)
     \<or> (po_value_rangeproof out \<noteq> None \<and> po_asset_surjection_proof out \<noteq> None
        \<and> (\<forall>b. po_blinder_index out = Some b \<longrightarrow> unat b < num_inputs))"

lemma validate_outputs_iff:
  "validate_outputs n idx outs = Inr () \<longleftrightarrow> (\<forall>out \<in> set outs. output_blinded n out)"
  by (induction n idx outs rule: validate_outputs.induct)
    (auto simp: Let_def output_blinded_def split: option.splits)

lemma validate_outputs_never_panics: "validate_outputs n idx outs \<noteq> Inl (Panic m)"
  by (induction n idx outs rule: validate_outputs.induct) (auto simp: Let_def split: option.splits)

text \<open>The opening of an input's previous output, whatever the error type of the caller.\<close>

definition input_opens :: "('mbk, 'sk) pset_lib \<Rightarrow> 'mbk \<Rightarrow> pset_input \<Rightarrow> txout_secrets \<Rightarrow> bool" where
  "input_opens PL mbk inp s \<longleftrightarrow> (\<exists>utxo. pi_witness_utxo inp = Some utxo \<and>
     (case (to_value utxo, to_asset utxo) of
        (ValueExplicit v, AssetExplicit a) \<Rightarrow>
          s = \<lparr>sec_asset = a, sec_asset_bf = 0, sec_value = v, sec_value_bf = 0\<rparr>
      | _ \<Rightarrow> pl_unblind PL utxo (pl_blinding_private_key PL mbk (to_script_pubkey utxo)) = Inr s))"

lemma utxo_secrets_opens:
  "pi_witness_utxo inp = Some utxo \<Longrightarrow> utxo_secrets PL mbk utxo = Inr s \<longleftrightarrow> input_opens PL mbk inp s"
  by (auto simp: utxo_secrets_def input_opens_def explicit_txout_secrets_def unblind_input_def
      slip77_blinding_key_def split: conf_value.splits conf_asset.splits)

lemma derive_secrets_loop_ok:
  assumes "(derive_secrets_loop PL mbk i inputs secrets
      :: ('id pset_error, (nat \<times> txout_secrets) list) result) = Inr out"
  shows "(\<forall>j < length inputs. \<exists>s. map_of out (i + j) = Some s \<and> input_opens PL mbk (inputs ! j) s)
    \<and> (\<forall>k. k < i \<or> i + length inputs \<le> k \<longrightarrow> map_of out k = map_of secrets k)"
  using assms
proof (induction inputs arbitrary: i secrets)
  case Nil
  then show ?case by simp
next
  case (Cons inp inputs)
  from Cons.prems obtain utxo s where utxo: "pi_witness_utxo inp = Some utxo"
    and s: "input_opens PL mbk inp s"
    and rest: "(derive_secrets_loop PL mbk (Suc i) inputs (AList.update i s secrets)
        :: ('id pset_error, (nat \<times> txout_secrets) list) result) = Inr out"
    by (auto simp: bindR_Inr utxo_secrets_opens split: option.splits)
  note IH = Cons.IH [OF rest]
  then have frame: "k < Suc i \<or> Suc i + length inputs \<le> k \<Longrightarrow>
      map_of out k = ((map_of secrets)(i \<mapsto> s)) k" for k by (metis map_of_update)
  have "map_of out i = Some s" using frame [of i] by simp
  moreover have "map_of out k = map_of secrets k" if "k < i \<or> i + length (inp # inputs) \<le> k" for k
    using frame [of k] that by auto
  moreover have "\<exists>s. map_of out (i + j) = Some s \<and> input_opens PL mbk ((inp # inputs) ! j) s"
    if "j < length (inp # inputs)" for j
    using that IH s calculation(1) by (cases j) auto
  ultimately show ?case by blast
qed

lemma derive_secrets_loop_total:
  assumes "\<forall>inp \<in> set inputs. \<exists>s. input_opens PL mbk inp s"
  shows "\<exists>out. (derive_secrets_loop PL mbk i inputs secrets
      :: ('id pset_error, (nat \<times> txout_secrets) list) result) = Inr out"
  using assms
proof (induction inputs arbitrary: i secrets)
  case (Cons inp inputs)
  then obtain utxo s where utxo: "pi_witness_utxo inp = Some utxo" and s: "input_opens PL mbk inp s"
    by (auto simp: input_opens_def)
  from Cons.IH [of "Suc i" "AList.update i s secrets"] Cons.prems utxo s show ?case
    by (auto simp: bindR_def utxo_secrets_opens [THEN iffD2])
qed simp

end
