(* ===== verification/Spend.thy ===== *)
theory Spend
  imports Pset Wallet_Ledger
begin

text \<open>
  \<open>src/spend.rs\<close>: from captured UTXOs to a blinded PSET that the multisig signers can sign. LWK's
  transaction builder and the descriptor functions of \<open>elements-miniscript\<close> are parameters
  (\<open>tx_lib\<close>, \<open>desc_lib\<close>); their types are type variables: \<open>'s\<close> a single-path descriptor, \<open>'e\<close> a
  definite one, \<open>'b\<close> the builder, \<open>'a\<close> an address, \<open>'f\<close> a fee rate.
\<close>

record external_utxo =
  eu_outpoint :: outpoint
  eu_txout :: txout
  eu_tx :: "transaction option"
  eu_unblinded :: txout_secrets
  eu_max_weight_to_satisfy :: nat

record ('d, 's, 'e) desc_lib =
  dl_to_string :: "'d \<Rightarrow> string"
  dl_into_single_descriptors :: "'d \<Rightarrow> (string + 's list)"
  dl_at_derivation_index :: "'s \<Rightarrow> u32 \<Rightarrow> string + 'e"
  dl_max_weight_to_satisfy :: "'e \<Rightarrow> string + nat"
  dl_update_input :: "pset \<Rightarrow> nat \<Rightarrow> 'e \<Rightarrow> string + pset"

record ('b, 'w, 'a, 'f) tx_lib =
  tb_new :: "lwk_network \<Rightarrow> 'b"
  tb_add_external_utxos :: "external_utxo list \<Rightarrow> 'b \<Rightarrow> string + 'b"
  tb_add_lbtc_recipient :: "'a \<Rightarrow> u64 \<Rightarrow> 'b \<Rightarrow> string + 'b"
  tb_drain_lbtc_wallet :: "'b \<Rightarrow> 'b"
  tb_drain_lbtc_to :: "'a \<Rightarrow> 'b \<Rightarrow> 'b"
  tb_fee_rate :: "'f option \<Rightarrow> 'b \<Rightarrow> 'b"
  tb_finish :: "'w \<Rightarrow> 'b \<Rightarrow> string + pset"

section \<open>Helpers\<close>

fun chain_usize :: "chain \<Rightarrow> nat" where
  "chain_usize External = 0"
| "chain_usize Internal = 1"

definition singles_of ::
    "('d, 's, 'e) desc_lib \<Rightarrow> ('d, 'k, 'w) elements_wollet \<Rightarrow> ('id spend_error, 's list) result" where
  "singles_of DL wollet = lib_err SDescriptor (dl_into_single_descriptors DL (ew_descriptor wollet))"

definition max_weight_of :: "('d, 's, 'e) desc_lib \<Rightarrow> 's list \<Rightarrow> ('id spend_error, nat) result" where
  "max_weight_of DL singles =
     (case get_at singles 0 of
        None \<Rightarrow> Inl (Err (SDescriptor ''descriptor has no chains''))
      | Some s \<Rightarrow> bindR (lib_err SDescriptor (dl_at_derivation_index DL s 0)) (\<lambda>definite.
          lib_err SDescriptor (dl_max_weight_to_satisfy DL definite)))"

definition external_utxo_of :: "captured_utxo \<Rightarrow> nat \<Rightarrow> external_utxo" where
  "external_utxo_of u max_weight = \<lparr>eu_outpoint = cu_outpoint u, eu_txout = cu_txout u, eu_tx = None,
     eu_unblinded = cu_secrets u, eu_max_weight_to_satisfy = max_weight\<rparr>"

definition definite_at ::
    "('d, 's, 'e) desc_lib \<Rightarrow> 's list \<Rightarrow> nat \<Rightarrow> u32 \<Rightarrow> ('id spend_error, 'e) result" where
  "definite_at DL singles ch index =
     (case get_at singles ch of
        None \<Rightarrow> Inl (Err (SDescriptor ''missing chain descriptor''))
      | Some s \<Rightarrow> lib_err SDescriptor (dl_at_derivation_index DL s index))"

fun prepare_loop ::
    "('d, 's, 'e) desc_lib \<Rightarrow> 's list \<Rightarrow> nat \<Rightarrow> captured_utxo list
     \<Rightarrow> external_utxo list \<Rightarrow> (outpoint \<times> 'e) list
     \<Rightarrow> ('id spend_error, external_utxo list \<times> (outpoint \<times> 'e) list) result" where
  "prepare_loop DL singles max_weight [] external enrich = Inr (external, enrich)"
| "prepare_loop DL singles max_weight (u # us) external enrich =
     bindR (definite_at DL singles (chain_usize (cu_chain u)) (cu_wildcard_index u)) (\<lambda>d.
     prepare_loop DL singles max_weight us (external @ [external_utxo_of u max_weight])
       (AList.update (cu_outpoint u) d enrich))"

definition prepare_inputs ::
    "('d, 's, 'e) desc_lib \<Rightarrow> captured_utxo list \<Rightarrow> 's list
     \<Rightarrow> ('id spend_error, external_utxo list \<times> (outpoint \<times> 'e) list) result" where
  "prepare_inputs DL utxos singles =
     bindR (max_weight_of DL singles) (\<lambda>max_weight. prepare_loop DL singles max_weight utxos [] [])"

definition prevout_of :: "pset_input \<Rightarrow> outpoint" where
  "prevout_of inp = OutPoint (pi_previous_txid inp) (pi_previous_output_index inp)"

text \<open>The loop \<open>for idx in 0..n\<close> of \<open>finish_blinded\<close>, over the numbers still to do.\<close>

fun enrich_loop ::
    "('d, 's, 'e) desc_lib \<Rightarrow> (outpoint \<times> 'e) list \<Rightarrow> nat list \<Rightarrow> pset \<Rightarrow> ('id spend_error, pset) result" where
  "enrich_loop DL enrich [] ps = Inr ps"
| "enrich_loop DL enrich (idx # rest) ps =
     (case map_of enrich (prevout_of (ps_inputs ps ! idx)) of
        None \<Rightarrow> enrich_loop DL enrich rest ps
      | Some definite \<Rightarrow>
          bindR (lib_err SEnrich (dl_update_input DL ps idx definite)) (enrich_loop DL enrich rest))"

definition finish_blinded ::
    "('d, 's, 'e) desc_lib \<Rightarrow> pset \<Rightarrow> (outpoint \<times> 'e) list \<Rightarrow> ('id spend_error, blinded_pset) result" where
  "finish_blinded DL ps enrich =
     bindR (enrich_loop DL enrich [0 ..< length (ps_inputs ps)] ps) (\<lambda>ps.
     map_fault SPset (blinded_new ps))"

section \<open>The three builders\<close>

definition build_spend_pset ::
    "('d, 's, 'e) desc_lib \<Rightarrow> ('b, 'w, 'a, 'f) tx_lib \<Rightarrow> ('d, 'k, 'w) elements_wollet
     \<Rightarrow> captured_utxo list \<Rightarrow> 'a \<Rightarrow> u64 \<Rightarrow> 'f \<Rightarrow> ('id spend_error, blinded_pset) result" where
  "build_spend_pset DL TB wollet utxos recipient amount_sat fee_rate =
     bindR (singles_of DL wollet) (\<lambda>singles.
     bindR (prepare_inputs DL utxos singles) (\<lambda>(external, enrich).
     bindR (lib_err SBuild (tb_add_external_utxos TB external (tb_new TB (ew_lwk_network wollet)))) (\<lambda>b.
     bindR (lib_err SBuild (tb_add_lbtc_recipient TB recipient amount_sat b)) (\<lambda>b.
     bindR (lib_err SBuild (tb_finish TB (ew_inner wollet) (tb_fee_rate TB (Some fee_rate) b))) (\<lambda>ps.
     finish_blinded DL ps enrich)))))"

definition build_sweep_pset ::
    "('d, 's, 'e) desc_lib \<Rightarrow> ('b, 'w, 'a, 'f) tx_lib \<Rightarrow> ('d, 'k, 'w) elements_wollet
     \<Rightarrow> captured_utxo list \<Rightarrow> 'a \<Rightarrow> 'f \<Rightarrow> ('id spend_error, blinded_pset) result" where
  "build_sweep_pset DL TB wollet utxos recipient fee_rate =
     bindR (singles_of DL wollet) (\<lambda>singles.
     bindR (prepare_inputs DL utxos singles) (\<lambda>(external, enrich).
     bindR (lib_err SBuild (tb_add_external_utxos TB external (tb_new TB (ew_lwk_network wollet)))) (\<lambda>b.
     bindR (lib_err SBuild (tb_finish TB (ew_inner wollet)
       (tb_fee_rate TB (Some fee_rate) (tb_drain_lbtc_to TB recipient (tb_drain_lbtc_wallet TB b))))) (\<lambda>ps.
     finish_blinded DL ps enrich))))"

text \<open>The loop of a migration over the inputs and their owners, with the cache of split descriptors.\<close>

fun migration_loop ::
    "('d, 's, 'e) desc_lib \<Rightarrow> (captured_utxo \<times> ('d, 'k, 'w) elements_wollet) list
     \<Rightarrow> (string \<times> 's list) list \<Rightarrow> external_utxo list \<Rightarrow> (outpoint \<times> 'e) list
     \<Rightarrow> ('id spend_error, external_utxo list \<times> (outpoint \<times> 'e) list) result" where
  "migration_loop DL [] singles_cache external enrich = Inr (external, enrich)"
| "migration_loop DL ((utxo, owner) # inputs) singles_cache external enrich =
     (let key = dl_to_string DL (ew_descriptor owner) in
      bindR (if map_of singles_cache key = None
             then bindR (singles_of DL owner) (\<lambda>s. Inr (AList.update key s singles_cache))
             else Inr singles_cache) (\<lambda>singles_cache.
      let singles = the (map_of singles_cache key) in
      bindR (max_weight_of DL singles) (\<lambda>max_weight.
      bindR (definite_at DL singles (chain_usize (cu_chain utxo)) (cu_wildcard_index utxo)) (\<lambda>d.
      migration_loop DL inputs singles_cache (external @ [external_utxo_of utxo max_weight])
        (AList.update (cu_outpoint utxo) d enrich)))))"

fun add_recipients ::
    "('b, 'w, 'a, 'f) tx_lib \<Rightarrow> ('a \<times> u64) list \<Rightarrow> 'b \<Rightarrow> ('id spend_error, 'b) result" where
  "add_recipients TB [] b = Inr b"
| "add_recipients TB ((addr, amount) # rest) b =
     bindR (lib_err SBuild (tb_add_lbtc_recipient TB addr amount b)) (add_recipients TB rest)"

definition build_migration_pset ::
    "('d, 's, 'e) desc_lib \<Rightarrow> ('b, 'w, 'a, 'f) tx_lib \<Rightarrow> ('d, 'k, 'w) elements_wollet
     \<Rightarrow> (captured_utxo \<times> ('d, 'k, 'w) elements_wollet) list \<Rightarrow> ('a \<times> u64) list \<Rightarrow> 'a \<Rightarrow> 'f
     \<Rightarrow> ('id spend_error, blinded_pset) result" where
  "build_migration_pset DL TB fee_wollet inputs customer_recipients fee_account_dest fee_rate =
     bindR (migration_loop DL inputs [] [] []) (\<lambda>(external, enrich).
     bindR (lib_err SBuild (tb_add_external_utxos TB external (tb_new TB (ew_lwk_network fee_wollet)))) (\<lambda>b.
     bindR (add_recipients TB customer_recipients b) (\<lambda>b.
     bindR (lib_err SBuild (tb_finish TB (ew_inner fee_wollet)
       (tb_fee_rate TB (Some fee_rate) (tb_drain_lbtc_to TB fee_account_dest (tb_drain_lbtc_wallet TB b))))) (\<lambda>ps.
     finish_blinded DL ps enrich))))"

definition captured_from_output ::
    "('d, 'k, 'w) lwk_lib \<Rightarrow> ('d, 'k, 'w) elements_wollet \<Rightarrow> txid \<Rightarrow> u32 \<Rightarrow> txout \<Rightarrow> wallet_id \<Rightarrow> u32
     \<Rightarrow> ('id spend_error, captured_utxo) result" where
  "captured_from_output L wollet tid vout t i wildcard_index =
     bindR (map_fault (\<lambda>e. SUnblind (display_wollet_error e)) (unblind L wollet t)) (\<lambda>secrets.
     Inr \<lparr>cu_wallet_id = i, cu_outpoint = OutPoint tid vout, cu_txout = t, cu_secrets = secrets,
          cu_chain = External, cu_wildcard_index = wildcard_index, cu_height = 0, cu_is_spent = False\<rparr>)"

section \<open>Preparation of inputs\<close>

text \<open>The definite descriptor at the chain and index a UTXO was captured with.\<close>

definition owner_descriptor :: "('d, 's, 'e) desc_lib \<Rightarrow> 's list \<Rightarrow> captured_utxo \<Rightarrow> 'e \<Rightarrow> bool" where
  "owner_descriptor DL singles u d \<longleftrightarrow>
     (\<exists>s. (case cu_chain u of External \<Rightarrow> get_at singles 0 | Internal \<Rightarrow> get_at singles 1) = Some s
       \<and> dl_at_derivation_index DL s (cu_wildcard_index u) = Inr d)"

lemma definite_at_Inr:
  "definite_at DL singles (chain_usize (cu_chain u)) (cu_wildcard_index u) = Inr d \<longleftrightarrow>
     owner_descriptor DL singles u d"
  by (cases "cu_chain u") (auto simp: definite_at_def owner_descriptor_def split: option.splits)

lemma prepare_loop_ok:
  assumes "(prepare_loop DL singles mw us ext en
      :: ('id spend_error, external_utxo list \<times> (outpoint \<times> 'e) list) result) = Inr (ext', en')"
  shows "ext' = ext @ map (\<lambda>u. external_utxo_of u mw) us
    \<and> (\<forall>op. case map_of en' op of
         Some d \<Rightarrow> (\<exists>u \<in> set us. cu_outpoint u = op \<and> owner_descriptor DL singles u d)
           \<or> (map_of en op = Some d \<and> op \<notin> cu_outpoint ` set us)
       | None \<Rightarrow> map_of en op = None \<and> op \<notin> cu_outpoint ` set us)"
  using assms
proof (induction us arbitrary: ext en)
  case Nil
  then show ?case by (auto split: option.split)
next
  case (Cons u us)
  from Cons.prems obtain d where d: "owner_descriptor DL singles u d"
    and rest: "(prepare_loop DL singles mw us (ext @ [external_utxo_of u mw]) (AList.update (cu_outpoint u) d en)
      :: ('id spend_error, external_utxo list \<times> (outpoint \<times> 'e) list) result) = Inr (ext', en')"
    by (auto simp: bindR_Inr definite_at_Inr)
  note IH = Cons.IH [OF rest]
  show ?case
  proof (intro conjI allI)
    show "ext' = ext @ map (\<lambda>u. external_utxo_of u mw) (u # us)" using IH by simp
    fix op
    have "case map_of en' op of
         Some d' \<Rightarrow> (\<exists>u \<in> set us. cu_outpoint u = op \<and> owner_descriptor DL singles u d')
           \<or> (((map_of en)(cu_outpoint u \<mapsto> d)) op = Some d' \<and> op \<notin> cu_outpoint ` set us)
       | None \<Rightarrow> ((map_of en)(cu_outpoint u \<mapsto> d)) op = None \<and> op \<notin> cu_outpoint ` set us"
      using IH [THEN conjunct2, THEN spec, of op] unfolding map_of_update .
    then show "case map_of en' op of
         Some d' \<Rightarrow> (\<exists>u \<in> set (u # us). cu_outpoint u = op \<and> owner_descriptor DL singles u d')
           \<or> (map_of en op = Some d' \<and> op \<notin> cu_outpoint ` set (u # us))
       | None \<Rightarrow> map_of en op = None \<and> op \<notin> cu_outpoint ` set (u # us)"
      using d by (auto split: option.splits if_splits)
  qed
qed

lemma prepare_inputs_ok:
  assumes "(prepare_inputs DL us singles
      :: ('id spend_error, external_utxo list \<times> (outpoint \<times> 'e) list) result) = Inr (ext, en)"
  shows "\<exists>mw. ext = map (\<lambda>u. external_utxo_of u mw) us"
    and "map_of en op = Some d \<Longrightarrow> \<exists>u \<in> set us. cu_outpoint u = op \<and> owner_descriptor DL singles u d"
    and "map_of en op = None \<Longrightarrow> op \<notin> cu_outpoint ` set us"
proof -
  from assms obtain mw where
    loop: "(prepare_loop DL singles mw us [] []
      :: ('id spend_error, external_utxo list \<times> (outpoint \<times> 'e) list) result) = Inr (ext, en)"
    by (auto simp: prepare_inputs_def bindR_Inr)
  note p = prepare_loop_ok [OF loop]
  show "\<exists>mw. ext = map (\<lambda>u. external_utxo_of u mw) us" using p by auto
  note q = p [THEN conjunct2, THEN spec, of op]
  show "map_of en op = Some d \<Longrightarrow> \<exists>u \<in> set us. cu_outpoint u = op \<and> owner_descriptor DL singles u d"
    using q by (auto split: option.splits)
  show "map_of en op = None \<Longrightarrow> op \<notin> cu_outpoint ` set us"
    using q by (auto split: option.splits)
qed

section \<open>Enrichment\<close>

text \<open>
  What \<open>update_input_with_descriptor\<close> documents, as far as it is needed: it updates the input it
  is given by a function of that input and the descriptor, and leaves its previous output alone.
\<close>

definition local_update :: "('d, 's, 'e) desc_lib \<Rightarrow> ('e \<Rightarrow> pset_input \<Rightarrow> string + pset_input) \<Rightarrow> bool" where
  "local_update DL upd \<longleftrightarrow>
     (\<forall>ps idx d. idx < length (ps_inputs ps) \<longrightarrow> dl_update_input DL ps idx d =
        (case upd d (ps_inputs ps ! idx) of
           Inl e \<Rightarrow> Inl e | Inr inp \<Rightarrow> Inr (ps\<lparr>ps_inputs := (ps_inputs ps)[idx := inp]\<rparr>)))
     \<and> (\<forall>d inp inp'. upd d inp = Inr inp' \<longrightarrow> prevout_of inp' = prevout_of inp)"

definition enriched_input ::
    "('e \<Rightarrow> pset_input \<Rightarrow> string + pset_input) \<Rightarrow> (outpoint \<times> 'e) list \<Rightarrow> pset_input \<Rightarrow> pset_input \<Rightarrow> bool" where
  "enriched_input upd enrich inp inp' \<longleftrightarrow> (case map_of enrich (prevout_of inp) of
     None \<Rightarrow> inp' = inp | Some d \<Rightarrow> upd d inp = Inr inp')"

lemma enrich_loop_ok:
  assumes upd: "local_update DL upd"
    and "(enrich_loop DL enrich idxs ps :: ('id spend_error, pset) result) = Inr ps'"
    and "distinct idxs" and "\<forall>i \<in> set idxs. i < length (ps_inputs ps)"
  shows "length (ps_inputs ps') = length (ps_inputs ps) \<and> ps_outputs ps' = ps_outputs ps
    \<and> (\<forall>j < length (ps_inputs ps). if j \<in> set idxs
         then enriched_input upd enrich (ps_inputs ps ! j) (ps_inputs ps' ! j)
         else ps_inputs ps' ! j = ps_inputs ps ! j)"
  using assms(2-)
proof (induction idxs arbitrary: ps)
  case (Cons i idxs)
  show ?case
  proof (cases "map_of enrich (prevout_of (ps_inputs ps ! i))")
    case None
    then have "(enrich_loop DL enrich idxs ps :: ('id spend_error, pset) result) = Inr ps'"
      using Cons.prems(1) by simp
    from Cons.IH [OF this] Cons.prems(2,3) None show ?thesis
      by (auto simp: enriched_input_def)
  next
    case (Some d)
    with Cons.prems(1,3) upd obtain inp where inp: "upd d (ps_inputs ps ! i) = Inr inp"
      and rest: "(enrich_loop DL enrich idxs (ps\<lparr>ps_inputs := (ps_inputs ps)[i := inp]\<rparr>)
        :: ('id spend_error, pset) result) = Inr ps'"
      by (auto simp: local_update_def bindR_Inr split: sum.splits)
    from Cons.IH [OF rest] Cons.prems(2,3) Some inp show ?thesis
      by (auto simp: enriched_input_def nth_list_update split: if_splits)
  qed
qed simp

lemma finish_blinded_ok:
  assumes "local_update DL upd" and "(finish_blinded DL ps enrich :: ('id spend_error, blinded_pset) result) = Inr b"
  shows "length (ps_inputs (bp_pset b)) = length (ps_inputs ps) \<and> ps_outputs (bp_pset b) = ps_outputs ps
    \<and> (\<forall>j < length (ps_inputs ps). enriched_input upd enrich (ps_inputs ps ! j) (ps_inputs (bp_pset b) ! j))
    \<and> (\<exists>out \<in> set (ps_outputs ps). po_value_rangeproof out \<noteq> None)"
proof -
  from assms(2) obtain ps' where
    loop: "(enrich_loop DL enrich [0 ..< length (ps_inputs ps)] ps :: ('id spend_error, pset) result) = Inr ps'"
    and b: "b = BlindedPset ps'" and rp: "\<exists>out \<in> set (ps_outputs ps'). po_value_rangeproof out \<noteq> None"
    by (auto simp: finish_blinded_def bindR_Inr blinded_new_iff)
  from enrich_loop_ok [OF assms(1) loop] b rp show ?thesis by simp
qed

end
