(* ===== verification/Finalize.thy ===== *)
theory Finalize
  imports Pset "HOL-Library.Sublist"
begin

text \<open>
  P2WSH finalisation (\<open>finalize_p2wsh_pset\<close> and its two script readers, \<open>src/pset.rs\<close>): the
  witness stack of each input, and that it satisfies the multisig script when enough of its keys
  have signed.
\<close>

definition multisig_threshold :: "script \<Rightarrow> nat option" where
  "multisig_threshold s =
     (case script_bytes s of
        [] \<Rightarrow> None
      | b # _ \<Rightarrow> if 0x51 \<le> b \<and> b \<le> 0x60 then Some (unat (b - 0x50)) else None)"

fun extract_pubkeys_loop ::
    "('mbk, 'sk) pset_lib \<Rightarrow> (string + instruction) list \<Rightarrow> pubkey list" where
  "extract_pubkeys_loop PL [] = []"
| "extract_pubkeys_loop PL (i # is) =
     (case i of
        Inr (PushBytes d) \<Rightarrow>
          if length d = 33 then
            (case pl_pubkey_from_slice PL d of
               Inr pk \<Rightarrow> pk # extract_pubkeys_loop PL is
             | Inl _ \<Rightarrow> extract_pubkeys_loop PL is)
          else extract_pubkeys_loop PL is
      | _ \<Rightarrow> extract_pubkeys_loop PL is)"

definition extract_pubkeys_from_witness_script :: "('mbk, 'sk) pset_lib \<Rightarrow> script \<Rightarrow> pubkey list" where
  "extract_pubkeys_from_witness_script PL s = extract_pubkeys_loop PL (pl_instructions PL s)"

fun collect_ordered :: "(pubkey \<times> u8 list) list \<Rightarrow> pubkey list \<Rightarrow> u8 list list" where
  "collect_ordered sigs [] = []"
| "collect_ordered sigs (pk # pks) =
     (case map_of sigs pk of Some sig \<Rightarrow> sig # collect_ordered sigs pks | None \<Rightarrow> collect_ordered sigs pks)"

text \<open>The body of the loop for an input with witness script \<open>ws\<close>.\<close>

definition finalize_input :: "('mbk, 'sk) pset_lib \<Rightarrow> script \<Rightarrow> pset_input \<Rightarrow> pset_input" where
  "finalize_input PL ws inp =
     (let pubkeys_in_script = extract_pubkeys_from_witness_script PL ws;
          ordered_sigs = collect_ordered (pi_partial_sigs inp) pubkeys_in_script;
          ordered_sigs = (case multisig_threshold ws of
              Some m \<Rightarrow> if length ordered_sigs > m then take m ordered_sigs else ordered_sigs
            | None \<Rightarrow> ordered_sigs);
          witness = [[]] @ ordered_sigs @ [script_bytes ws]
      in inp\<lparr>pi_final_script_witness := Some witness, pi_partial_sigs := [], pi_witness_script := None,
             pi_bip32_derivation := [], pi_redeem_script := None, pi_sighash_type := None\<rparr>)"

text \<open>The loop stops at the first input without a witness script; earlier inputs stay finalised.\<close>

fun finalize_inputs ::
    "('mbk, 'sk) pset_lib \<Rightarrow> nat \<Rightarrow> pset_input list \<Rightarrow> ('id pset_error, unit) result \<times> pset_input list"
  where
  "finalize_inputs PL idx [] = (Inr (), [])"
| "finalize_inputs PL idx (inp # inputs) =
     (case pi_witness_script inp of
        None \<Rightarrow> (Inl (Err (FinalizationFailed (''input '' @ dec idx @ '' missing witness_script''))), inp # inputs)
      | Some ws \<Rightarrow>
          (case finalize_inputs PL (Suc idx) inputs of
             (r, inputs') \<Rightarrow> (r, finalize_input PL ws inp # inputs')))"

definition finalize_p2wsh_pset :: "('mbk, 'sk) pset_lib \<Rightarrow> (pset, 'id pset_error, unit) act" where
  "finalize_p2wsh_pset PL ps =
     (case finalize_inputs PL 0 (ps_inputs ps) of (r, inputs) \<Rightarrow> (r, ps\<lparr>ps_inputs := inputs\<rparr>))"

section \<open>Loops\<close>

lemma finalize_inputs_ok:
  assumes "finalize_inputs PL idx inputs = (Inr () :: ('id pset_error, unit) result, inputs')"
  shows "length inputs' = length inputs \<and> (\<forall>j < length inputs. \<exists>ws. pi_witness_script (inputs ! j) = Some ws
    \<and> inputs' ! j = finalize_input PL ws (inputs ! j))"
  using assms
proof (induction inputs arbitrary: idx inputs')
  case (Cons inp inputs)
  obtain r rest where rest: "finalize_inputs PL (Suc idx) inputs = (r :: ('id pset_error, unit) result, rest)"
    by (rule prod.exhaust)
  from Cons.prems rest obtain ws where ws: "pi_witness_script inp = Some ws" and r: "r = Inr ()"
    and out: "inputs' = finalize_input PL ws inp # rest"
    by (auto split: option.splits)
  show ?case using Cons.IH [OF rest [unfolded r]] ws out by (auto simp: less_Suc_eq_0_disj)
qed simp

lemma finalize_inputs_returns:
  "fst (finalize_inputs PL idx inputs) = (Inr () :: ('id pset_error, unit) result) \<longleftrightarrow> (\<forall>inp \<in> set inputs. pi_witness_script inp \<noteq> None)"
  by (induction PL idx inputs rule: finalize_inputs.induct) (auto split: option.splits prod.splits)

section \<open>Multisig scripts\<close>

text \<open>
  The script is \<open>OP_m\<close>, the keys, \<open>OP_n\<close>, \<open>OP_CHECKMULTISIG\<close>, and the tokeniser and the key
  parser read it as documented. \<open>satisfies_multisig\<close> is the rule of \<open>OP_CHECKMULTISIG\<close>: an
  empty dummy, then exactly \<open>m\<close> signatures that are valid, in order, for some of the keys in
  order; \<open>valid\<close> is signature verification for the message of the input.
\<close>

definition multisig_script :: "('mbk, 'sk) pset_lib \<Rightarrow> script \<Rightarrow> nat \<Rightarrow> pubkey list \<Rightarrow> bool" where
  "multisig_script PL ws m pks \<longleftrightarrow>
     1 \<le> m \<and> m \<le> 16 \<and> (\<exists>rest. script_bytes ws = word_of_nat (0x50 + m) # rest)
     \<and> pl_instructions PL ws = Inr (OpCode (word_of_nat (0x50 + m)))
         # map (\<lambda>pk. Inr (PushBytes (pubkey_bytes pk))) pks
         @ [Inr (OpCode (word_of_nat (0x50 + length pks))), Inr (OpCode 0xae)]
     \<and> (\<forall>pk \<in> set pks. length (pubkey_bytes pk) = 33 \<and> pl_pubkey_from_slice PL (pubkey_bytes pk) = Inr pk)"

definition satisfies_multisig ::
    "(pubkey \<Rightarrow> u8 list \<Rightarrow> bool) \<Rightarrow> script \<Rightarrow> nat \<Rightarrow> pubkey list \<Rightarrow> u8 list list \<Rightarrow> bool" where
  "satisfies_multisig valid ws m pks witness \<longleftrightarrow> (\<exists>sigs. witness = [[]] @ sigs @ [script_bytes ws]
     \<and> length sigs = m \<and> (\<exists>ks. subseq ks pks \<and> list_all2 valid ks sigs))"

lemma extract_pubkeys_pushes:
  "\<forall>pk \<in> set pks. length (pubkey_bytes pk) = 33 \<and> pl_pubkey_from_slice PL (pubkey_bytes pk) = Inr pk \<Longrightarrow>
   extract_pubkeys_loop PL (map (\<lambda>pk. Inr (PushBytes (pubkey_bytes pk))) pks @ is)
     = pks @ extract_pubkeys_loop PL is"
  by (induction pks) auto

lemma extract_pubkeys_multisig:
  "multisig_script PL ws m pks \<Longrightarrow> extract_pubkeys_from_witness_script PL ws = pks"
  by (simp add: multisig_script_def extract_pubkeys_from_witness_script_def extract_pubkeys_pushes)

lemma multisig_threshold_script:
  assumes "multisig_script PL ws m pks"
  shows "multisig_threshold ws = Some m"
proof -
  obtain rest where bytes: "script_bytes ws = word_of_nat (0x50 + m) # rest" and m: "1 \<le> m" "m \<le> 16"
    using assms by (auto simp: multisig_script_def)
  define n where "n = 0x50 + m"
  then have n: "n < 2 ^ 8" "0x51 \<le> n" "n \<le> 0x60" using m by simp_all
  have u: "unat (word_of_nat n :: u8) = n" using n(1) by (simp add: unat_of_nat take_bit_nat_eq_self)
  have "(0x51 :: u8) \<le> word_of_nat n" "word_of_nat n \<le> (0x60 :: u8)"
    unfolding word_le_nat_alt u using n by simp_all
  moreover have "unat (word_of_nat n - 0x50 :: u8) = m"
    using n u by (subst unat_sub) (simp_all add: word_le_nat_alt n_def del: of_nat_add)
  ultimately show ?thesis by (simp add: multisig_threshold_def bytes n_def del: of_nat_add)
qed

text \<open>The collected signatures belong, in order, to the keys of the script that have signed.\<close>

lemma collect_ordered_filter:
  "collect_ordered sigs pks = map (\<lambda>pk. the (map_of sigs pk)) (filter (\<lambda>pk. map_of sigs pk \<noteq> None) pks)"
  by (induction pks) (auto split: option.splits)

lemma finalize_input_witness:
  assumes "multisig_script PL ws m pks"
  shows "pi_final_script_witness (finalize_input PL ws inp) =
    Some ([[]] @ take m (collect_ordered (pi_partial_sigs inp) pks) @ [script_bytes ws])"
  by (simp add: finalize_input_def Let_def extract_pubkeys_multisig [OF assms] multisig_threshold_script [OF assms])

lemma take_collect_valid:
  assumes "\<forall>pk sig. map_of sigs pk = Some sig \<longrightarrow> valid pk sig"
  shows "\<exists>ks. subseq ks pks \<and> list_all2 valid ks (take m (collect_ordered sigs pks))"
proof (intro exI conjI)
  let ?ks = "take m (filter (\<lambda>pk. map_of sigs pk \<noteq> None) pks)"
  show "subseq ?ks pks" by (metis prefix_imp_subseq subseq_filter_left subseq_order.trans take_is_prefix)
  show "list_all2 valid ?ks (take m (collect_ordered sigs pks))"
    using assms by (auto simp: collect_ordered_filter take_map list_all2_map2 list_all2_same dest!: in_set_takeD)
qed

text \<open>The witness of an input of which enough keys have signed.\<close>

lemma finalize_p2wsh_witness:
  assumes "finalize_p2wsh_pset PL ps = (Inr () :: ('id pset_error, unit) result, ps')" and "j < length (ps_inputs ps)"
    and "pi_witness_script (ps_inputs ps ! j) = Some ws" and "multisig_script PL ws m pks"
    and "\<forall>pk sig. map_of (pi_partial_sigs (ps_inputs ps ! j)) pk = Some sig \<longrightarrow> valid pk sig"
    and "m \<le> length (filter (\<lambda>pk. map_of (pi_partial_sigs (ps_inputs ps ! j)) pk \<noteq> None) pks)"
  shows "\<exists>w. pi_final_script_witness (ps_inputs ps' ! j) = Some w \<and> satisfies_multisig valid ws m pks w
    \<and> pi_partial_sigs (ps_inputs ps' ! j) = [] \<and> pi_witness_script (ps_inputs ps' ! j) = None"
proof -
  let ?sigs = "pi_partial_sigs (ps_inputs ps ! j)"
  obtain r inputs' where call: "finalize_inputs PL 0 (ps_inputs ps) = (r :: ('id pset_error, unit) result, inputs')"
    by (rule prod.exhaust)
  with assms(1) have r: "r = Inr ()" and ps': "ps' = ps\<lparr>ps_inputs := inputs'\<rparr>"
    by (simp_all add: finalize_p2wsh_pset_def)
  have inp: "inputs' ! j = finalize_input PL ws (ps_inputs ps ! j)"
    using finalize_inputs_ok [OF call [unfolded r]] assms(2,3) by auto
  have "length (take m (collect_ordered ?sigs pks)) = m"
    using assms(6) by (simp add: collect_ordered_filter)
  then have "satisfies_multisig valid ws m pks
      ([[]] @ take m (collect_ordered ?sigs pks) @ [script_bytes ws])"
    using take_collect_valid [OF assms(5), of pks m] unfolding satisfies_multisig_def by blast
  then show ?thesis
    unfolding ps' using finalize_input_witness [OF assms(4), of "ps_inputs ps ! j"] inp
    by (auto simp: finalize_input_def Let_def)
qed

end
