(* ===== verification/Coordinator.thy ===== *)
theory Coordinator
  imports Finalize
begin

text \<open>
  \<open>ElementsSigningCoordinator\<close> of \<open>src/pset.rs\<close> and the trait of \<open>src/signer.rs\<close>: a state
  machine that collects partial signatures into one PSET. A signer is the method of its trait, an
  action on the PSET it is lent. The set of ids that have signed is a list without repetition.
\<close>

type_synonym 'id elements_signer = "(pset, 'id pset_error, nat) act"

record ('id, 'x) coordinator =
  co_federation :: "('id, 'x) federation"
  co_pset :: pset
  co_signed :: "'id list"

definition coordinator_new ::
    "('id, 'x) federation \<Rightarrow> blinded_pset \<Rightarrow> ('id pset_error, ('id, 'x) coordinator) result" where
  "coordinator_new fed b =
     bindR (validate_blinding b) (\<lambda>_.
     Inr \<lparr>co_federation = fed, co_pset = blinded_into_pset b, co_signed = []\<rparr>)"

definition signatures_collected :: "('id, 'x) coordinator \<Rightarrow> nat" where
  "signatures_collected c = length (co_signed c)"

definition coordinator_pset :: "('id, 'x) coordinator \<Rightarrow> pset" where
  "coordinator_pset c = co_pset c"

definition is_complete :: "('id, 'x) coordinator \<Rightarrow> ('e, bool) result" where
  "is_complete c =
     (if fits_u32 (signatures_collected c)
      then Inr (fed_threshold (co_federation c) \<le> word_of_nat (signatures_collected c))
      else Inl (Panic ''signature count fits u32''))"

definition sign_with ::
    "'id elements_signer \<Rightarrow> 'id \<Rightarrow> (('id, 'x) coordinator, 'id pset_error, nat) act" where
  "sign_with signer signer_id c =
     (if \<not> fed_contains (co_federation c) signer_id then (Inl (Err (UnknownSigner signer_id)), c)
      else case signer (co_pset c) of
          (Inl e, ps) \<Rightarrow> (Inl e, c\<lparr>co_pset := ps\<rparr>)
        | (Inr n, ps) \<Rightarrow>
            (Inr n, if n > 0 then c\<lparr>co_pset := ps, co_signed := List.insert signer_id (co_signed c)\<rparr>
                    else c\<lparr>co_pset := ps\<rparr>))"

text \<open>
  The signatures of one received input that count as new: their key is attributed to the
  fingerprint by the received derivations, and the coordinator's input (\<open>own\<close>, looked up only
  when the attribution holds; absent, the lookup panics) has none for that key.
\<close>

fun collect_new_sigs ::
    "fingerprint \<Rightarrow> (pubkey \<times> (fingerprint \<times> child_number list)) list \<Rightarrow> pset_input option
     \<Rightarrow> (pubkey \<times> u8 list) list \<Rightarrow> ('id pset_error, (pubkey \<times> u8 list) list) result" where
  "collect_new_sigs fp derivs own [] = Inr []"
| "collect_new_sigs fp derivs own ((pk, sig) # sigs) =
     (let fp_matches = list_ex (\<lambda>d. fst (snd d) = fp \<and> fst d = pk) derivs in
      if fp_matches then
        (case own of
           None \<Rightarrow> Inl (Panic ''index out of bounds'')
         | Some inp \<Rightarrow> bindR (collect_new_sigs fp derivs own sigs) (\<lambda>rest.
             Inr (if map_of (pi_partial_sigs inp) pk = None then (pk, sig) # rest else rest)))
      else collect_new_sigs fp derivs own sigs)"

fun insert_sigs :: "(pubkey \<times> u8 list) list \<Rightarrow> pset_input \<Rightarrow> pset_input" where
  "insert_sigs [] inp = inp"
| "insert_sigs ((pk, sig) # sigs) inp =
     insert_sigs sigs (inp\<lparr>pi_partial_sigs := AList.update pk sig (pi_partial_sigs inp)\<rparr>)"

text \<open>The loop over the received inputs, from number \<open>idx\<close> on; \<open>inputs\<close> are the coordinator's.\<close>

fun receive_inputs ::
    "fingerprint \<Rightarrow> nat \<Rightarrow> pset_input list \<Rightarrow> bool \<Rightarrow> (pset_input list, 'id pset_error, bool) act" where
  "receive_inputs fp idx [] found_new inputs = (Inr found_new, inputs)"
| "receive_inputs fp idx (signed_input # rest) found_new inputs =
     (case collect_new_sigs fp (pi_bip32_derivation signed_input) (get_at inputs idx)
             (pi_partial_sigs signed_input) of
        Inl e \<Rightarrow> (Inl e, inputs)
      | Inr new_sigs \<Rightarrow>
          (if new_sigs = [] then receive_inputs fp (Suc idx) rest found_new inputs
           else receive_inputs fp (Suc idx) rest True
                  (inputs[idx := insert_sigs new_sigs (inputs ! idx)])))"

definition receive_signature ::
    "'id \<Rightarrow> pset \<Rightarrow> (('id, 'x) coordinator, 'id pset_error, unit) act" where
  "receive_signature signer_id signed_pset c =
     (if \<not> fed_contains (co_federation c) signer_id then (Inl (Err (UnknownSigner signer_id)), c)
      else case fed_find (co_federation c) signer_id of
          None \<Rightarrow> (Inl (Err (UnknownSigner signer_id)), c)
        | Some signer \<Rightarrow>
            (case receive_inputs (sg_fingerprint signer) 0 (ps_inputs signed_pset) False
                    (ps_inputs (co_pset c)) of
               (Inl e, inputs) \<Rightarrow> (Inl e, c\<lparr>co_pset := (co_pset c)\<lparr>ps_inputs := inputs\<rparr>\<rparr>)
             | (Inr found_new, inputs) \<Rightarrow>
                 (let c' = c\<lparr>co_pset := (co_pset c)\<lparr>ps_inputs := inputs\<rparr>\<rparr> in
                  if \<not> found_new then
                    (Inl (Err (InvalidSignature signer_id
                       ''no new partial signature attributable to this signer'')), c')
                  else (Inr (), c'\<lparr>co_signed := List.insert signer_id (co_signed c)\<rparr>))))"

definition finalize ::
    "('mbk, 'sk) pset_lib \<Rightarrow> ('id, 'x) coordinator \<Rightarrow> ('id pset_error, finalized_pset) result" where
  "finalize PL c =
     bindR (is_complete c) (\<lambda>complete.
     if \<not> complete then
       Inl (Err (InsufficientSignatures (signatures_collected c) (unat (fed_threshold (co_federation c)))))
     else case finalize_p2wsh_pset PL (co_pset c) of
         (Inl e, _) \<Rightarrow> Inl e
       | (Inr _, ps) \<Rightarrow>
           bindR (lib_err FinalizationFailed (pl_extract_tx PL ps)) (\<lambda>tx.
           Inr \<lparr>fp_pset = ps, fp_transaction = tx\<rparr>))"

section \<open>Reachable coordinators\<close>

text \<open>Any signers and any received PSETs, in any order, failed calls included.\<close>

inductive coordinator_run :: "('id, 'x) federation \<Rightarrow> ('id, 'x) coordinator \<Rightarrow> bool"
  for fed :: "('id, 'x) federation" where
  run_new: "coordinator_new fed b = Inr c \<Longrightarrow> coordinator_run fed c"
| run_sign: "coordinator_run fed c \<Longrightarrow> sign_with signer i c = (r, c') \<Longrightarrow> coordinator_run fed c'"
| run_receive: "coordinator_run fed c \<Longrightarrow> receive_signature i ps c = (r, c') \<Longrightarrow> coordinator_run fed c'"

definition coordinator_inv :: "('id, 'x) federation \<Rightarrow> ('id, 'x) coordinator \<Rightarrow> bool" where
  "coordinator_inv fed c \<longleftrightarrow> co_federation c = fed \<and> distinct (co_signed c)
     \<and> (\<forall>i \<in> set (co_signed c). fed_contains fed i)"

lemma sign_with_inv:
  "coordinator_inv fed c \<Longrightarrow> sign_with signer i c = (r, c') \<Longrightarrow> coordinator_inv fed c'"
  by (auto simp: coordinator_inv_def sign_with_def split: if_splits prod.splits sum.splits)

lemma receive_inv:
  "coordinator_inv fed c \<Longrightarrow> receive_signature i ps c = (r, c') \<Longrightarrow> coordinator_inv fed c'"
  by (auto simp: coordinator_inv_def receive_signature_def Let_def
      split: if_splits prod.splits sum.splits option.splits)

lemma coordinator_run_inv: "coordinator_run fed c \<Longrightarrow> coordinator_inv fed c"
proof (induction rule: coordinator_run.induct)
  case (run_new b c)
  then show ?case by (auto simp: coordinator_new_def coordinator_inv_def bindR_Inr)
qed (blast intro: sign_with_inv receive_inv)+

lemma signed_bound:
  assumes inv: "coordinator_inv fed c" and fed: "federation_ok fed"
  shows "signatures_collected c \<le> card (sg_id ` set (fed_signers fed))"
    and "set (co_signed c) \<subseteq> sg_id ` set (fed_signers fed)"
proof -
  show sub: "set (co_signed c) \<subseteq> sg_id ` set (fed_signers fed)"
    using inv fed by (auto simp: coordinator_inv_def federation_ok_def)
  have "card (set (co_signed c)) = signatures_collected c"
    using inv by (simp add: coordinator_inv_def signatures_collected_def distinct_card)
  with card_mono [OF _ sub] show "signatures_collected c \<le> card (sg_id ` set (fed_signers fed))" by simp
qed

lemma is_complete_ok:
  assumes "coordinator_inv fed c" and "federation_ok fed" and "length (fed_signers fed) < 2 ^ 32"
  shows "is_complete c = Inr (unat (fed_threshold fed) \<le> signatures_collected c)"
proof -
  have "card (sg_id ` set (fed_signers fed)) \<le> length (fed_signers fed)"
    by (metis card_image_le card_length finite_set le_trans)
  then have n: "signatures_collected c < 2 ^ 32" using signed_bound(1) [OF assms(1,2)] assms(3) by linarith
  have "co_federation c = fed" using assms(1) by (simp add: coordinator_inv_def)
  then show ?thesis using n by (simp add: is_complete_def word_le_nat_alt unat_word_of_nat_u32)
qed

section \<open>Merging received signatures\<close>

definition attributed :: "fingerprint \<Rightarrow> pset_input \<Rightarrow> pubkey \<Rightarrow> bool" where
  "attributed fp inp pk \<longleftrightarrow> (\<exists>d \<in> set (pi_bip32_derivation inp). fst (snd d) = fp \<and> fst d = pk)"

lemma attributed_list_ex:
  "list_ex (\<lambda>d. fst (snd d) = fp \<and> fst d = pk) (pi_bip32_derivation inp) = attributed fp inp pk"
  by (simp add: attributed_def list_ex_iff)

lemma collect_new_sigs_ok:
  assumes "collect_new_sigs fp (pi_bip32_derivation si) own sigs = Inr news"
  shows "set news = {(pk, sig) \<in> set sigs. attributed fp si pk
      \<and> (\<exists>inp. own = Some inp \<and> map_of (pi_partial_sigs inp) pk = None)}
    \<and> (\<forall>(pk, sig) \<in> set sigs. attributed fp si pk \<longrightarrow> own \<noteq> None)"
  using assms
proof (induction sigs arbitrary: news)
  case (Cons ps sigs)
  obtain pk sig where ps: "ps = (pk, sig)" by fastforce
  from Cons show ?case
    by (auto simp: ps Let_def bindR_def attributed_list_ex split: if_splits option.splits sum.splits)
qed simp

lemma collect_new_sigs_none:
  assumes "\<forall>(pk, sig) \<in> set sigs. attributed fp si pk \<longrightarrow>
    (\<exists>inp. own = Some inp \<and> map_of (pi_partial_sigs inp) pk \<noteq> None)"
  shows "collect_new_sigs fp (pi_bip32_derivation si) own sigs = Inr []"
  using assms by (induction sigs) (auto simp: Let_def bindR_def attributed_list_ex)

lemma insert_sigs_fields:
  "\<exists>m. insert_sigs news inp = inp\<lparr>pi_partial_sigs := m\<rparr>"
proof (induction news inp rule: insert_sigs.induct)
  case (1 inp)
  then show ?case by (intro exI [of _ "pi_partial_sigs inp"]) simp
qed simp

lemma insert_sigs_lookup:
  "map_of (pi_partial_sigs (insert_sigs news inp)) = map_of (pi_partial_sigs inp) ++ map_of (rev news)"
  by (induction news inp rule: insert_sigs.induct) (auto simp: fun_eq_iff map_add_def map_of_append split: option.splits)

text \<open>
  One input before and after a merge: nothing but signatures changes, none is removed or replaced,
  and a new one was received (\<open>si\<close>) for a key that the received input attributes to the signer.
\<close>

definition merged_input :: "fingerprint \<Rightarrow> pset_input option \<Rightarrow> pset_input \<Rightarrow> pset_input \<Rightarrow> bool" where
  "merged_input fp si inp inp' \<longleftrightarrow> (\<exists>m. inp' = inp\<lparr>pi_partial_sigs := m\<rparr>)
     \<and> (\<forall>pk sig. map_of (pi_partial_sigs inp) pk = Some sig \<longrightarrow> map_of (pi_partial_sigs inp') pk = Some sig)
     \<and> (\<forall>pk sig. map_of (pi_partial_sigs inp) pk = None \<longrightarrow> map_of (pi_partial_sigs inp') pk = Some sig \<longrightarrow>
          (\<exists>s. si = Some s \<and> (pk, sig) \<in> set (pi_partial_sigs s) \<and> attributed fp s pk))"

lemma merged_input_refl: "merged_input fp si inp inp"
  by (auto simp: merged_input_def intro: exI [of _ "pi_partial_sigs inp"])

lemma merged_input_trans:
  assumes "merged_input fp si a b" and "merged_input fp None b c"
  shows "merged_input fp si a c"
  unfolding merged_input_def
proof (intro conjI allI impI)
  show "\<exists>m. c = a\<lparr>pi_partial_sigs := m\<rparr>" using assms by (auto simp: merged_input_def)
next
  fix pk sig assume "map_of (pi_partial_sigs a) pk = Some sig"
  then show "map_of (pi_partial_sigs c) pk = Some sig" using assms by (auto simp: merged_input_def)
next
  fix pk sig
  assume a: "map_of (pi_partial_sigs a) pk = None" and c: "map_of (pi_partial_sigs c) pk = Some sig"
  have "map_of (pi_partial_sigs b) pk = Some sig"
    using assms(2) c by (cases "map_of (pi_partial_sigs b) pk") (auto simp: merged_input_def)
  then show "\<exists>s. si = Some s \<and> (pk, sig) \<in> set (pi_partial_sigs s) \<and> attributed fp s pk"
    using assms(1) a by (auto simp: merged_input_def)
qed

lemma merged_insert:
  assumes "\<forall>(pk, sig) \<in> set news. (pk, sig) \<in> set (pi_partial_sigs si) \<and> attributed fp si pk
    \<and> map_of (pi_partial_sigs inp) pk = None"
  shows "merged_input fp (Some si) inp (insert_sigs news inp)"
proof -
  have "(pk, sig) \<in> set news" if "map_of (rev news) pk = Some sig" for pk sig
    using map_of_SomeD [OF that] by simp
  then show ?thesis
    unfolding merged_input_def insert_sigs_lookup
    using assms insert_sigs_fields [of news inp] by (fastforce simp: map_add_Some_iff)
qed

lemma receive_inputs_merged:
  assumes "receive_inputs fp idx sis found inputs = (r, inputs')"
  shows "length inputs' = length inputs \<and> (\<forall>j < length inputs.
    merged_input fp (if idx \<le> j then get_at sis (j - idx) else None) (inputs ! j) (inputs' ! j))"
  using assms
proof (induction sis arbitrary: idx found inputs)
  case Nil
  then show ?case by (auto simp: merged_input_refl)
next
  case (Cons si sis)
  have shift: "get_at (si # sis) (j - idx) = get_at sis (j - Suc idx)" if "Suc idx \<le> j" for j
    using that by (auto simp: get_at_def nth_Cons' split: if_splits)
  show ?case
  proof (cases "collect_new_sigs fp (pi_bip32_derivation si) (get_at inputs idx) (pi_partial_sigs si)
      :: ('a pset_error, (pubkey \<times> u8 list) list) result")
    case (Inl e)
    with Cons.prems show ?thesis by (simp add: merged_input_refl)
  next
    case (Inr news)
    let ?in = "if news = [] then inputs else inputs[idx := insert_sigs news (inputs ! idx)]"
    have rec: "receive_inputs fp (Suc idx) sis (found \<or> news \<noteq> []) ?in = (r, inputs')"
      using Cons.prems Inr by (auto split: if_splits)
    note IH = Cons.IH [OF rec]
    note news = collect_new_sigs_ok [OF Inr]
    show ?thesis
    proof (intro conjI allI impI)
      show "length inputs' = length inputs" using IH by simp
      fix j assume j: "j < length inputs"
      then have next_j: "merged_input fp (if Suc idx \<le> j then get_at sis (j - Suc idx) else None) (?in ! j) (inputs' ! j)"
        using IH by simp
      show "merged_input fp (if idx \<le> j then get_at (si # sis) (j - idx) else None) (inputs ! j) (inputs' ! j)"
      proof (cases "j = idx")
        case False
        then have "?in ! j = inputs ! j" by simp
        with next_j False show ?thesis using shift [of j] by (cases "idx \<le> j") auto
      next
        case True
        have "merged_input fp (Some si) (inputs ! j) (?in ! j)"
        proof (cases "news = []")
          case True
          then show ?thesis by (simp add: merged_input_refl)
        next
          case False
          then show ?thesis using news j True by (auto simp: get_at_def intro!: merged_insert)
        qed
        moreover have "merged_input fp None (?in ! j) (inputs' ! j)" using next_j True by simp
        ultimately show ?thesis using True by (auto simp: get_at_def intro: merged_input_trans)
      qed
    qed
  qed
qed

text \<open>What a merge reports: nothing new means nothing changed.\<close>

lemma receive_inputs_unchanged:
  "receive_inputs fp idx sis found inputs = (Inr False, inputs') \<Longrightarrow> inputs' = inputs \<and> \<not> found"
proof (induction sis arbitrary: idx found inputs)
  case (Cons si sis)
  from Cons.prems show ?case by (auto split: sum.splits if_splits dest: Cons.IH)
qed simp

lemma receive_inputs_complete:
  assumes "receive_inputs fp idx sis found inputs = (Inr f :: ('id pset_error, bool) result, inputs')"
    and "j < length sis"
    and "(pk, sig) \<in> set (pi_partial_sigs (sis ! j))" and "attributed fp (sis ! j) pk"
  shows "idx + j < length inputs \<and> map_of (pi_partial_sigs (inputs' ! (idx + j))) pk \<noteq> None"
  using assms
proof (induction sis arbitrary: idx found inputs j)
  case (Cons si sis)
  from Cons.prems(1) obtain news where
    news: "collect_new_sigs fp (pi_bip32_derivation si) (get_at inputs idx) (pi_partial_sigs si)
      = (Inr news :: ('id pset_error, (pubkey \<times> u8 list) list) result)"
    by (auto split: sum.splits)
  let ?in = "if news = [] then inputs else inputs[idx := insert_sigs news (inputs ! idx)]"
  have rec: "receive_inputs fp (Suc idx) sis (found \<or> news \<noteq> []) ?in
      = (Inr f :: ('id pset_error, bool) result, inputs')"
    using Cons.prems(1) news by (auto split: if_splits)
  show ?case
  proof (cases j)
    case (Suc k)
    with Cons.IH [OF rec, of k] Cons.prems(2-) show ?thesis by (auto split: if_splits)
  next
    case 0
    then have sig: "(pk, sig) \<in> set (pi_partial_sigs si)" "attributed fp si pk" using Cons.prems(3,4) by simp_all
    note n = collect_new_sigs_ok [OF news]
    have idx: "idx < length inputs" using n sig by (auto simp: get_at_def split: if_splits)
    have "map_of (pi_partial_sigs (?in ! idx)) pk \<noteq> None"
    proof (cases "map_of (pi_partial_sigs (inputs ! idx)) pk = None")
      case True
      then have "(pk, sig) \<in> set news" using n sig idx by (auto simp: get_at_def)
      then have "map_of (rev news) pk \<noteq> None" using weak_map_of_SomeI [of pk sig "rev news"] by simp
      then show ?thesis using idx by (auto simp: insert_sigs_lookup)
    next
      case False
      then show ?thesis using idx
        by (auto simp: insert_sigs_lookup map_add_def split: option.split)
    qed
    moreover have "merged_input fp None (?in ! idx) (inputs' ! idx)"
      using receive_inputs_merged [OF rec] idx by (auto split: if_splits)
    ultimately show ?thesis using 0 idx by (auto simp: merged_input_def)
  qed
qed simp

lemma receive_inputs_nothing:
  assumes "\<forall>j < length sis. \<forall>(pk, sig) \<in> set (pi_partial_sigs (sis ! j)). attributed fp (sis ! j) pk \<longrightarrow>
    idx + j < length inputs \<and> map_of (pi_partial_sigs (inputs ! (idx + j))) pk \<noteq> None"
  shows "receive_inputs fp idx sis found inputs = (Inr found :: ('id pset_error, bool) result, inputs)"
  using assms
proof (induction sis arbitrary: idx)
  case (Cons si sis)
  have "collect_new_sigs fp (pi_bip32_derivation si) (get_at inputs idx) (pi_partial_sigs si)
      = (Inr [] :: ('id pset_error, (pubkey \<times> u8 list) list) result)"
    using Cons.prems by (intro collect_new_sigs_none) (fastforce simp: get_at_def)
  moreover have "receive_inputs fp (Suc idx) sis found inputs
      = (Inr found :: ('id pset_error, bool) result, inputs)"
  proof (rule Cons.IH, intro allI impI ballI)
    fix j x assume "j < length sis" and "x \<in> set (pi_partial_sigs (sis ! j))"
    then show "case x of (pk, sig) \<Rightarrow> attributed fp (sis ! j) pk \<longrightarrow> Suc idx + j < length inputs \<and>
        map_of (pi_partial_sigs (inputs ! (Suc idx + j))) pk \<noteq> None"
      using Cons.prems [rule_format, of "Suc j" x] by simp
  qed
  ultimately show ?case by simp
qed simp

end
