(* ===== verification/Descriptor.thy ===== *)
theory Descriptor
  imports Core_Types Hex "HOL-Library.Multiset"
begin

text \<open>
  \<open>src/descriptor.rs\<close>: the builder of \<open>ct(slip77(..),elwsh(sortedmulti(m, ..)))\<close> descriptors and
  the conversion to a multipath string. The parser of descriptor strings and the rendering of a
  parsed descriptor belong to \<open>elements-miniscript\<close> and are parameters (\<open>ct_lib\<close>); the text the
  builder hands to the parser is computed here.
\<close>

section \<open>Strings\<close>

text \<open>\<open>[String]::join\<close>, \<open>str::split_once\<close> (the part before) and \<open>str::replace\<close>.\<close>

fun join :: "string \<Rightarrow> string list \<Rightarrow> string" where
  "join sep [] = []"
| "join sep [s] = s"
| "join sep (s # t # ts) = s @ sep @ join sep (t # ts)"

function str_replace :: "string \<Rightarrow> string \<Rightarrow> string \<Rightarrow> string" where
  "str_replace pat new s =
     (if s = [] \<or> pat = [] then s
      else if take (length pat) s = pat
        then new @ str_replace pat new (drop (length pat) s)
        else hd s # str_replace pat new (tl s))"
  by pat_completeness auto
termination by (relation "measure (\<lambda>(pat, new, s). length s)") (auto simp: diff_less)

declare str_replace.simps [simp del]

section \<open>The builder\<close>

datatype ct_key_mode = Fixed | Ranged

record 'x key_entry =
  ke_fingerprint :: fingerprint
  ke_derivation_path :: "child_number list"
  ke_xpub :: 'x

record ('id, 'x) ct_builder =
  cb_threshold :: u32
  cb_mode :: ct_key_mode
  cb_master_blinding_key :: "u8 list"
  cb_entries :: "('id \<times> 'x key_entry) list"

record 'c ct_lib =
  ct_from_str :: "string \<Rightarrow> string + 'c"
  ct_to_string :: "'c \<Rightarrow> string"

definition ct_builder_new ::
    "u32 \<Rightarrow> u8 list \<Rightarrow> (ct_descriptor_error, ('id :: linorder, 'x) ct_builder) result" where
  "ct_builder_new threshold mbk =
     (if length mbk \<noteq> 32 then Inl (Err (BadBlindingKeyLength (length mbk)))
      else Inr \<lparr>cb_threshold = threshold, cb_mode = Fixed, cb_master_blinding_key = mbk, cb_entries = []\<rparr>)"

definition key_mode :: "ct_key_mode \<Rightarrow> ('id, 'x) ct_builder \<Rightarrow> ('id, 'x) ct_builder" where
  "key_mode mode b = b\<lparr>cb_mode := mode\<rparr>"

definition entry_of :: "('id, 'x) signer_info \<Rightarrow> 'x key_entry" where
  "entry_of s = \<lparr>ke_fingerprint = sg_fingerprint s, ke_derivation_path = sg_derivation_path s,
     ke_xpub = sg_xpub s\<rparr>"

definition add_signer ::
    "('id :: linorder \<Rightarrow> string) \<Rightarrow> ('id, 'x) signer_info
     \<Rightarrow> (('id, 'x) ct_builder, ct_descriptor_error, unit) act" where
  "add_signer show_id s b =
     (let old = map_of (cb_entries b) (sg_id s);
          b = b\<lparr>cb_entries := bt_insert (sg_id s) (entry_of s) (cb_entries b)\<rparr>
      in if old \<noteq> None then (Inl (Err (DuplicateKey (show_id (sg_id s)))), b) else (Inr (), b))"

fun format_segment :: "child_number \<Rightarrow> string" where
  "format_segment (ChildNormal index) = dec (unat index)"
| "format_segment (ChildHardened index) = dec (unat index) @ ''h''"

definition format_origin :: "'x bitcoin_lib \<Rightarrow> fingerprint \<Rightarrow> child_number list \<Rightarrow> string" where
  "format_origin BL fp path =
     (let fp_hex = bl_show_fingerprint BL fp
      in if path = [] then fp_hex else fp_hex @ ''/'' @ join ''/'' (map format_segment path))"

definition format_key :: "'x bitcoin_lib \<Rightarrow> ct_key_mode \<Rightarrow> 'x key_entry \<Rightarrow> string" where
  "format_key BL mode e =
     (let origin = format_origin BL (ke_fingerprint e) (ke_derivation_path e)
      in case mode of
           Fixed \<Rightarrow> ''['' @ origin @ '']'' @ bl_show_pubkey BL (bl_public_key BL (ke_xpub e))
         | Ranged \<Rightarrow> ''['' @ origin @ '']'' @ bl_show_xpub BL (ke_xpub e) @ ''/0/*'')"

text \<open>The string \<open>build\<close> formats.\<close>

definition desc_str :: "'x bitcoin_lib \<Rightarrow> ('id, 'x) ct_builder \<Rightarrow> string" where
  "desc_str BL b =
     (let keys = map (format_key BL (cb_mode b)) (map snd (cb_entries b));
          mbk_hex = hex_encode (cb_master_blinding_key b);
          keys_csv = join '','' keys
      in ''ct(slip77('' @ mbk_hex @ ''),elwsh(sortedmulti('' @ dec (unat (cb_threshold b)) @ '','' @ keys_csv @ '')))'')"

definition build ::
    "'x bitcoin_lib \<Rightarrow> 'c ct_lib \<Rightarrow> ('id, 'x) ct_builder \<Rightarrow> (ct_descriptor_error, 'c) result" where
  "build BL CL b =
     (if cb_entries b = [] then Inl (Err NoSigners)
      else lib_err CtDescriptor (ct_from_str CL (desc_str BL b)))"

definition to_multipath_string :: "'c ct_lib \<Rightarrow> 'c \<Rightarrow> string" where
  "to_multipath_string CL desc =
     (let s = ct_to_string CL desc;
          body = takeWhile (\<lambda>c. c \<noteq> CHR ''#'') s
      in str_replace ''/0/*'' ''/<0;1>/*'' body)"

section \<open>Replacement\<close>

text \<open>
  The pattern ends in its only star, so a match ends at a star: text without stars is copied, and
  the wildcard behind it is replaced, whatever the text ends with.
\<close>

lemma str_replace_Nil [simp]: "str_replace pat new [] = []"
  by (subst str_replace.simps) simp

lemma str_replace_copy:
  "take (length pat) (x # xs) \<noteq> pat \<Longrightarrow> str_replace pat new (x # xs) = x # str_replace pat new xs"
  by (subst str_replace.simps) auto

lemma str_replace_match: "pat \<noteq> [] \<Longrightarrow> str_replace pat new (pat @ ys) = new @ str_replace pat new ys"
  by (subst str_replace.simps) simp

lemma wildcard_length: "length ''/0/*'' = 4"
  by simp

lemma no_match_before_star:
  assumes "CHR ''*'' \<notin> set (x # xs)"
  shows "take 4 ((x # xs) @ ys) \<noteq> ''/0/*'' \<or> (length xs < 3 \<and> ys \<noteq> [])"
proof (cases "3 \<le> length xs")
  case True
  then have "take 4 ((x # xs) @ ys) = take 4 (x # xs)" by simp
  moreover have "take 4 (x # xs) \<noteq> ''/0/*''" using assms by (metis in_set_takeD list.set_intros)
  ultimately show ?thesis by metis
next
  case False
  show ?thesis
  proof (cases "ys = []")
    case True
    then show ?thesis using assms by (metis append_Nil2 in_set_takeD list.set_intros)
  qed (use False in simp)
qed

lemma str_replace_no_star: "CHR ''*'' \<notin> set xs \<Longrightarrow> str_replace ''/0/*'' new xs = xs"
proof (induction xs)
  case (Cons x xs)
  have "take (length ''/0/*'') (x # xs) \<noteq> ''/0/*''"
    using no_match_before_star [OF Cons.prems, of "[]"] unfolding wildcard_length append_Nil2 by blast
  from str_replace_copy [OF this] Cons show ?case by simp
qed simp

lemma str_replace_star:
  "CHR ''*'' \<notin> set xs \<Longrightarrow>
   str_replace ''/0/*'' new (xs @ ''/0/*'' @ ys) = xs @ new @ str_replace ''/0/*'' new ys"
proof (induction xs)
  case Nil
  show ?case using str_replace_match [of "''/0/*''" new ys] by simp
next
  case (Cons x xs)
  have "take 4 ((x # xs) @ ''/0/*'' @ ys) \<noteq> ''/0/*''"
    using no_match_before_star [OF Cons.prems, of "''/0/*'' @ ys"]
    by (cases xs; cases "tl xs"; cases "tl (tl xs)") auto
  then have "take (length ''/0/*'') (x # (xs @ ''/0/*'' @ ys)) \<noteq> ''/0/*''"
    unfolding wildcard_length append_Cons .
  from str_replace_copy [OF this] Cons show ?case by simp
qed

text \<open>Every key of a comma-separated list ends in the wildcard.\<close>

lemma str_replace_join:
  assumes "ks \<noteq> []" and "\<forall>k \<in> set ks. CHR ''*'' \<notin> set k" and "CHR ''*'' \<notin> set pre"
    and "CHR ''*'' \<notin> set post"
  shows "str_replace ''/0/*'' new (pre @ join '','' (map (\<lambda>k. k @ ''/0/*'') ks) @ post) =
    pre @ join '','' (map (\<lambda>k. k @ new) ks) @ post"
  using assms(1-3)
proof (induction ks arbitrary: pre)
  case (Cons k ks)
  have pre: "CHR ''*'' \<notin> set (pre @ k)" using Cons.prems by simp
  show ?case
  proof (cases ks)
    case Nil
    then show ?thesis
      using str_replace_star [OF pre, of new post] str_replace_no_star [OF assms(4), of new] by simp
  next
    case (Cons k2 ks2)
    with Cons.IH [of "'',''"] Cons.prems str_replace_star [OF pre, of new
        "'','' @ join '','' (map (\<lambda>k. k @ ''/0/*'') ks) @ post"]
    show ?thesis by simp
  qed
qed simp

lemma takeWhile_until: "c \<notin> set xs \<Longrightarrow> takeWhile (\<lambda>d. d \<noteq> c) (xs @ c # ys) = xs"
  by (induction xs) auto

section \<open>The text of a ranged descriptor\<close>

text \<open>
  The same string with any text in the place of the wildcards and of the keys: a library that prints the
  parsed descriptor may write a key's origin in another way, hardened steps with an apostrophe, say.
\<close>

definition ranged_form :: "('x key_entry \<Rightarrow> string) \<Rightarrow> ('id, 'x) ct_builder \<Rightarrow> string \<Rightarrow> string" where
  "ranged_form key b wildcard =
     ''ct(slip77('' @ hex_encode (cb_master_blinding_key b) @ ''),elwsh(sortedmulti('' @ dec (unat (cb_threshold b))
     @ '','' @ join '','' (map (\<lambda>e. key e @ wildcard) (map snd (cb_entries b))) @ '')))''"

definition built_key :: "'x bitcoin_lib \<Rightarrow> 'x key_entry \<Rightarrow> string" where
  "built_key BL e = ''['' @ format_origin BL (ke_fingerprint e) (ke_derivation_path e) @ '']'' @ bl_show_xpub BL (ke_xpub e)"

definition ranged_text :: "'x bitcoin_lib \<Rightarrow> ('id, 'x) ct_builder \<Rightarrow> string \<Rightarrow> string" where
  "ranged_text BL = ranged_form (built_key BL)"

text \<open>A rendering of the builder's keys in which the two characters the code looks for do not occur.\<close>

definition plain_keys :: "('x key_entry \<Rightarrow> string) \<Rightarrow> ('id, 'x) ct_builder \<Rightarrow> bool" where
  "plain_keys key b \<longleftrightarrow> (\<forall>e \<in> snd ` set (cb_entries b). CHR ''*'' \<notin> set (key e) \<and> CHR ''#'' \<notin> set (key e))"

text \<open>Renderings of fingerprints and keys are hexadecimal and Base58: no star, no hash sign.\<close>

definition plain_renderings :: "'x bitcoin_lib \<Rightarrow> bool" where
  "plain_renderings BL \<longleftrightarrow>
     (\<forall>f. CHR ''*'' \<notin> set (bl_show_fingerprint BL f) \<and> CHR ''#'' \<notin> set (bl_show_fingerprint BL f))
     \<and> (\<forall>x. CHR ''*'' \<notin> set (bl_show_xpub BL x) \<and> CHR ''#'' \<notin> set (bl_show_xpub BL x))
     \<and> (\<forall>p. CHR ''*'' \<notin> set (bl_show_pubkey BL p) \<and> CHR ''#'' \<notin> set (bl_show_pubkey BL p))"

lemma desc_str_ranged: "cb_mode b = Ranged \<Longrightarrow> desc_str BL b = ranged_text BL b ''/0/*''"
  by (simp add: desc_str_def ranged_text_def ranged_form_def built_key_def format_key_def Let_def comp_def)

lemma set_join: "set (join sep xs) \<subseteq> set sep \<union> \<Union> (set ` set xs)"
  by (induction sep xs rule: join.induct) auto

lemma not_in_dec: "c \<notin> set ''0123456789'' \<Longrightarrow> c \<notin> set (dec n)"
  using set_dec by blast

lemma not_in_segment: "c \<notin> set ''0123456789h'' \<Longrightarrow> c \<notin> set (format_segment s)"
  using not_in_dec by (cases s) auto

lemma not_in_join: "c \<notin> set sep \<Longrightarrow> \<forall>x \<in> set xs. c \<notin> set x \<Longrightarrow> c \<notin> set (join sep xs)"
  using set_join [of sep xs] by blast

lemma not_in_origin:
  assumes "c \<notin> set ''0123456789h/''" and "c \<notin> set (bl_show_fingerprint BL f)"
  shows "c \<notin> set (format_origin BL f path)"
proof -
  have "c \<notin> set (join ''/'' (map format_segment path))"
    by (rule not_in_join) (use assms(1) not_in_segment [of c] in auto)
  then show ?thesis using assms by (simp add: format_origin_def Let_def)
qed

lemma not_in_hex: "c \<notin> set ''0123456789abcdef'' \<Longrightarrow> c \<notin> set (hex_encode bs)"
  using set_hex_encode [of bs] unfolding HEX_def by blast

lemma plain_built_key: "plain_renderings BL \<Longrightarrow> plain_keys (built_key BL) b"
  by (auto simp: plain_keys_def plain_renderings_def built_key_def not_in_origin)

lemma hash_not_in_ranged:
  assumes "plain_keys key b" and "CHR ''#'' \<notin> set wildcard"
  shows "CHR ''#'' \<notin> set (ranged_form key b wildcard)"
proof -
  have "CHR ''#'' \<notin> set (join '','' (map (\<lambda>e. key e @ wildcard) (map snd (cb_entries b))))"
    by (rule not_in_join) (use assms in \<open>auto simp: plain_keys_def\<close>)
  then show ?thesis by (simp add: ranged_form_def not_in_hex not_in_dec)
qed

lemma str_replace_ranged:
  assumes "plain_keys key b" and "cb_entries b \<noteq> []"
  shows "str_replace ''/0/*'' new (ranged_form key b ''/0/*'') = ranged_form key b new"
proof -
  let ?ks = "map key (map snd (cb_entries b))"
  let ?pre = "''ct(slip77('' @ hex_encode (cb_master_blinding_key b) @ ''),elwsh(sortedmulti(''
      @ dec (unat (cb_threshold b)) @ '',''"
  have shape: "ranged_form key b wc = ?pre @ join '','' (map (\<lambda>k. k @ wc) ?ks) @ '')))''" for wc
    by (simp add: ranged_form_def comp_def)
  show ?thesis unfolding shape
    by (rule str_replace_join) (use assms in \<open>auto simp: plain_keys_def not_in_hex not_in_dec\<close>)
qed

section \<open>Adding signers\<close>

text \<open>A client that adds signers one after the other and stops at the first error.\<close>

fun add_signers ::
    "('id :: linorder \<Rightarrow> string) \<Rightarrow> ('id, 'x) signer_info list
     \<Rightarrow> (('id, 'x) ct_builder, ct_descriptor_error, unit) act" where
  "add_signers show_id [] = ret ()"
| "add_signers show_id (s # ss) = bindS (add_signer show_id s) (\<lambda>_. add_signers show_id ss)"

lemma add_signers_entries:
  assumes "distinct (map sg_id ss)" and "bt_wf (cb_entries b)"
    and "sg_id ` set ss \<inter> fst ` set (cb_entries b) = {}"
  shows "\<exists>m. add_signers show_id ss b = (Inr (), b\<lparr>cb_entries := m\<rparr>) \<and> bt_wf m
    \<and> map_of m = map_of (cb_entries b) ++ map_of (map (\<lambda>s. (sg_id s, entry_of s)) ss)"
  using assms
proof (induction ss arbitrary: b)
  case (Cons s ss)
  let ?b = "b\<lparr>cb_entries := bt_insert (sg_id s) (entry_of s) (cb_entries b)\<rparr>"
  have new: "map_of (cb_entries b) (sg_id s) = None"
    using Cons.prems(3) by (auto simp: map_of_eq_None_iff)
  have "sg_id ` set ss \<inter> fst ` set (cb_entries ?b) = {}"
    using Cons.prems by (auto simp: keys_bt_insert)
  moreover have "bt_wf (cb_entries ?b)" using Cons.prems(2) by simp
  moreover have "distinct (map sg_id ss)" using Cons.prems(1) by simp
  ultimately obtain m where m: "add_signers show_id ss ?b = (Inr (), ?b\<lparr>cb_entries := m\<rparr>)" "bt_wf m"
      "map_of m = map_of (cb_entries ?b) ++ map_of (map (\<lambda>s. (sg_id s, entry_of s)) ss)"
    using Cons.IH by blast
  have "map_of (map (\<lambda>s. (sg_id s, entry_of s)) ss) (sg_id s) = None"
    using Cons.prems(1) by (auto simp: map_of_eq_None_iff)
  then have "map_of m = map_of (cb_entries b) ++ map_of (map (\<lambda>s. (sg_id s, entry_of s)) (s # ss))"
    using m(3) Cons.prems(2) by (auto simp: fun_eq_iff map_add_def split: option.split)
  moreover have "add_signers show_id (s # ss) b = (Inr (), b\<lparr>cb_entries := m\<rparr>)"
    using m(1) new by (simp add: add_signer_def Let_def)
  ultimately show ?case using m(2) by blast
next
  case Nil
  then show ?case by (intro exI [of _ "cb_entries b"]) simp
qed

lemma sorted_entries:
  assumes "distinct (map sg_id ss)"
  shows "bt_wf (map (\<lambda>s. (sg_id s, entry_of s)) (sort_key sg_id ss))"
    and "map_of (map (\<lambda>s. (sg_id s, entry_of s)) (sort_key sg_id ss)) =
      map_of (map (\<lambda>s. (sg_id s, entry_of s)) ss)"
proof -
  let ?f = "\<lambda>s. (sg_id s, entry_of s)"
  have d: "distinct (map sg_id (sort_key sg_id ss))"
    using assms by (simp add: distinct_map)
  show "bt_wf (map ?f (sort_key sg_id ss))"
    unfolding bt_wf_def strict_sorted_iff map_map comp_def fst_conv
    using d by simp
  have "distinct (map fst (map ?f (sort_key sg_id ss)))" "distinct (map fst (map ?f ss))"
    using d assms by (simp_all add: comp_def)
  then show "map_of (map ?f (sort_key sg_id ss)) = map_of (map ?f ss)"
    by (simp only: map_of_inject_set set_map set_sort)
qed

lemma add_signers_fresh:
  assumes "distinct (map sg_id ss)" and "cb_entries b = []"
  shows "add_signers show_id ss b =
    (Inr (), b\<lparr>cb_entries := map (\<lambda>s. (sg_id s, entry_of s)) (sort_key sg_id ss)\<rparr>)"
proof -
  have "bt_wf (cb_entries b)" "sg_id ` set ss \<inter> fst ` set (cb_entries b) = {}" using assms(2) by simp_all
  from add_signers_entries [OF assms(1) this, of show_id] obtain m where
    m: "add_signers show_id ss b = (Inr (), b\<lparr>cb_entries := m\<rparr>)" "bt_wf m"
    "map_of m = map_of (map (\<lambda>s. (sg_id s, entry_of s)) ss)" using assms(2) by auto
  have "m = map (\<lambda>s. (sg_id s, entry_of s)) (sort_key sg_id ss)"
    by (rule bt_eqI [OF m(2) sorted_entries(1) [OF assms(1)]]) (simp add: m(3) sorted_entries(2) [OF assms(1)])
  with m(1) show ?thesis by simp
qed

section \<open>Origins\<close>

lemma join_split:
  assumes "c \<notin> set x" and "c \<notin> set y"
    and "x @ (if xs = [] then [] else c # join [c] xs) = y @ (if ys = [] then [] else c # join [c] ys)"
  shows "x = y \<and> (xs = [] \<longleftrightarrow> ys = []) \<and> (xs \<noteq> [] \<longrightarrow> join [c] xs = join [c] ys)"
proof -
  have tw: "takeWhile (\<lambda>d. d \<noteq> c) (z @ (if zs = [] then [] else c # join [c] zs)) = z"
    if "c \<notin> set z" for z zs
    using that by (induction z) auto
  have "x = y" using tw [OF assms(1), of xs] tw [OF assms(2), of ys] assms(3) by metis
  then show ?thesis using assms(3) by (auto split: if_splits)
qed

lemma join_Cons: "join [c] (x # xs) = x @ (if xs = [] then [] else c # join [c] xs)"
  by (cases xs) simp_all

lemma join_inject:
  "\<forall>s \<in> set xs \<union> set ys. c \<notin> set s \<Longrightarrow> xs \<noteq> [] \<Longrightarrow> ys \<noteq> [] \<Longrightarrow> join [c] xs = join [c] ys \<Longrightarrow> xs = ys"
proof (induction xs arbitrary: ys)
  case (Cons x xs)
  obtain y ys' where ys: "ys = y # ys'" using Cons.prems(3) by (cases ys) auto
  from join_split [of c x y xs ys'] Cons.prems(1,4) ys
  have "x = y" "xs = [] \<longleftrightarrow> ys' = []" "xs \<noteq> [] \<longrightarrow> join [c] xs = join [c] ys'"
    by (auto simp: join_Cons)
  with Cons.IH [of ys'] Cons.prems(1) ys show ?case by (cases "xs = []") auto
qed simp

lemma format_segment_inject: "format_segment a = format_segment b \<longleftrightarrow> a = b"
proof -
  have "CHR ''h'' \<notin> set (dec n)" for n by (rule not_in_dec) simp
  then have "dec m \<noteq> dec n @ ''h''" "dec n @ ''h'' \<noteq> dec m" for m n by (metis in_set_conv_decomp)+
  then show ?thesis by (cases a; cases b) (simp_all add: word_unat_eq_iff)
qed

lemma format_origin_inject:
  assumes "format_origin BL f p = format_origin BL f q"
  shows "p = q"
proof (cases "p = [] \<or> q = []")
  case True
  then show ?thesis using assms by (auto simp: format_origin_def Let_def split: if_splits)
next
  case False
  then have "join ''/'' (map format_segment p) = join ''/'' (map format_segment q)"
    using assms by (simp add: format_origin_def Let_def)
  then have "map format_segment p = map format_segment q"
    by (rule join_inject [rotated 3]) (use False not_in_segment [of "CHR ''/''"] in auto)
  then show ?thesis using format_segment_inject by (auto simp: inj_map_eq_map inj_def)
qed

section \<open>The properties\<close>

definition ex_bitcoin :: "nat bitcoin_lib" where
  "ex_bitcoin = \<lparr>bl_show_fingerprint = (\<lambda>f. ''f'' @ dec (unat f)), bl_public_key = (\<lambda>x. PublicKey [2, word_of_nat x]),
     bl_show_pubkey = (\<lambda>p. hex_encode (pubkey_bytes p)), bl_show_xpub = (\<lambda>x. ''tpub'' @ dec x)\<rparr>"

definition ex_signer :: "nat \<Rightarrow> (nat, nat) signer_info" where
  "ex_signer n = \<lparr>sg_id = n, sg_fingerprint = word_of_nat n,
     sg_derivation_path = [ChildHardened 48, ChildHardened 1], sg_xpub = 10 * n\<rparr>"

definition ex_builder :: "(nat, nat) ct_builder" where
  "ex_builder = \<lparr>cb_threshold = 2, cb_mode = Ranged, cb_master_blinding_key = replicate 32 0xab, cb_entries = []\<rparr>"

definition ex_ct :: "string ct_lib" where
  "ex_ct = \<lparr>ct_from_str = (\<lambda>s. Inr (s @ ''#checksum'')), ct_to_string = (\<lambda>d. d)\<rparr>"

lemma ex_plain: "plain_renderings ex_bitcoin"
  by (simp add: plain_renderings_def ex_bitcoin_def not_in_dec not_in_hex)

text \<open>
  C28. A fresh builder to which signers with distinct ids are added accepts them all, and the
  string it formats names the blinding key in hexadecimal, the threshold, and the signers' keys
  in ascending order of their ids, whatever the order they came in.
\<close>

theorem builder_text:
  assumes "ct_builder_new threshold mbk = Inr b" and "distinct (map sg_id ss)"
  shows "\<exists>b'. add_signers show_id ss (key_mode mode b) = (Inr (), b') \<and>
    desc_str BL b' = ''ct(slip77('' @ hex_encode mbk @ ''),elwsh(sortedmulti('' @ dec (unat threshold) @ '',''
      @ join '','' (map (\<lambda>s. format_key BL mode (entry_of s)) (sort_key sg_id ss)) @ '')))''
    \<and> length (hex_encode mbk) = 64"
proof -
  have b: "b = \<lparr>cb_threshold = threshold, cb_mode = Fixed, cb_master_blinding_key = mbk, cb_entries = []\<rparr>"
    and len: "length mbk = 32"
    using assms(1) by (auto simp: ct_builder_new_def split: if_splits)
  have "cb_entries (key_mode mode b) = []" by (simp add: b key_mode_def)
  from add_signers_fresh [OF assms(2) this, of show_id] show ?thesis
    by (simp add: b key_mode_def desc_str_def Let_def comp_def len)
qed

theorem builder_text_witness:
  "\<exists>b'. add_signers dec [ex_signer 3, ex_signer 1] (key_mode Ranged ex_builder) = (Inr (), b')
     \<and> join '','' (map (\<lambda>s. format_key ex_bitcoin Ranged (entry_of s)) (sort_key sg_id [ex_signer 3, ex_signer 1]))
       = ''[f1/48h/1h]tpub10/0/*,[f3/48h/1h]tpub30/0/*''"
proof -
  have new: "ct_builder_new 2 (replicate 32 0xab) = Inr (key_mode Fixed ex_builder)"
    by (simp add: ct_builder_new_def ex_builder_def key_mode_def)
  have "distinct (map sg_id [ex_signer 3, ex_signer 1])" by (simp add: ex_signer_def)
  from builder_text [OF new this, of dec Ranged ex_bitcoin]
  have "\<exists>b'. add_signers dec [ex_signer 3, ex_signer 1] (key_mode Ranged ex_builder) = (Inr (), b')"
    by (auto simp: key_mode_def)
  moreover have "join '','' (map (\<lambda>s. format_key ex_bitcoin Ranged (entry_of s))
      (sort_key sg_id [ex_signer 3, ex_signer 1])) = ''[f1/48h/1h]tpub10/0/*,[f3/48h/1h]tpub30/0/*''"
    by code_simp
  ultimately show ?thesis by blast
qed

text \<open>
  Adding the same signers in another order gives the same descriptor, or the same error.
\<close>

lemma build_order_irrelevant:
  assumes "distinct (map sg_id ss)" and "mset ss = mset ss'" and "cb_entries b = []"
  shows "build BL CL (snd (add_signers show_id ss b)) = build BL CL (snd (add_signers show_id ss' b))"
proof -
  let ?e = "\<lambda>ss. map (\<lambda>s. (sg_id s, entry_of s)) (sort_key sg_id ss)"
  have d': "distinct (map sg_id ss')" using assms(1,2) by (metis mset_eq_imp_distinct_iff mset_map)
  have "map_of (map (\<lambda>s. (sg_id s, entry_of s)) ss) = map_of (map (\<lambda>s. (sg_id s, entry_of s)) ss')"
    using assms(1) d' mset_eq_setD [OF assms(2)] by (subst map_of_inject_set) (simp_all add: comp_def)
  then have "?e ss = ?e ss'"
    by (intro bt_eqI) (simp_all only: sorted_entries [OF assms(1)] sorted_entries [OF d'])
  then show ?thesis by (simp only: add_signers_fresh [OF assms(1,3)] add_signers_fresh [OF d' assms(3)])
qed

lemma build_order_irrelevant_witness:
  "build ex_bitcoin ex_ct (snd (add_signers dec [ex_signer 3, ex_signer 1] ex_builder))
   = build ex_bitcoin ex_ct (snd (add_signers dec [ex_signer 1, ex_signer 3] ex_builder))"
  by (rule build_order_irrelevant) (simp_all add: ex_signer_def ex_builder_def)

text \<open>
  Adding a signer whose id is there already returns the duplicate error, but the builder has
  by then replaced the first signer's key with the second one's.
\<close>

lemma duplicate_signer_replaces_key:
  assumes "bt_wf (cb_entries b)" and "sg_id s \<in> fst ` set (cb_entries b)"
    and "add_signer show_id s b = (r, b')"
  shows "r = Inl (Err (DuplicateKey (show_id (sg_id s))))
    \<and> map_of (cb_entries b') (sg_id s) = Some (entry_of s)"
  using assms by (force simp: add_signer_def Let_def map_of_eq_None_iff split: if_splits)

lemma duplicate_signer_replaces_key_witness:
  "fst (add_signer dec (ex_signer 1\<lparr>sg_xpub := 99\<rparr>) (snd (add_signer dec (ex_signer 1) ex_builder)))
     = Inl (Err (DuplicateKey ''1''))
   \<and> map_option ke_xpub (map_of (cb_entries (snd (add_signer dec (ex_signer 1\<lparr>sg_xpub := 99\<rparr>)
       (snd (add_signer dec (ex_signer 1) ex_builder))))) 1) = Some 99"
proof -
  let ?b = "snd (add_signer dec (ex_signer 1) ex_builder)" and ?s = "ex_signer 1\<lparr>sg_xpub := 99\<rparr>"
  have "bt_wf (cb_entries ?b)" "sg_id ?s \<in> fst ` set (cb_entries ?b)"
    by (simp_all add: add_signer_def ex_builder_def ex_signer_def bt_wf_def)
  from duplicate_signer_replaces_key [OF this surjective_pairing, of dec]
  show ?thesis by (simp add: ex_signer_def entry_of_def dec.simps digit_char_def)
qed

text \<open>The checksum goes, the wildcards are turned into their two-chain form, nothing else changes.\<close>

lemma multipath_of_printed:
  assumes "plain_keys key b" and "cb_entries b \<noteq> []"
    and "ct_to_string CL d = ranged_form key b ''/0/*'' @ ''#'' @ checksum"
  shows "to_multipath_string CL d = ranged_form key b ''/<0;1>/*''"
proof -
  have "CHR ''#'' \<notin> set (ranged_form key b ''/0/*'')" by (rule hash_not_in_ranged [OF assms(1)]) simp
  then have "takeWhile (\<lambda>c. c \<noteq> CHR ''#'') (ct_to_string CL d) = ranged_form key b ''/0/*''"
    unfolding assms(3) by (simp add: takeWhile_until)
  then show ?thesis using str_replace_ranged [OF assms(1,2)] by (simp add: to_multipath_string_def)
qed

text \<open>
  For a descriptor that renders as the built string and a checksum, the multipath string is
  the built string without the checksum and with every key's wildcard, and nothing else, turned
  into the two-chain form; in fixed mode it is the built string itself.
\<close>

lemma multipath_of_built:
  assumes "plain_renderings BL" and "cb_entries b \<noteq> []"
    and "ct_to_string CL d = desc_str BL b @ ''#'' @ checksum"
  shows "to_multipath_string CL d = (case cb_mode b of
      Ranged \<Rightarrow> ranged_text BL b ''/<0;1>/*'' | Fixed \<Rightarrow> desc_str BL b)"
proof (cases "cb_mode b")
  case Ranged
  then show ?thesis
    using multipath_of_printed [OF plain_built_key [OF assms(1)] assms(2)] assms(3) by (simp add: desc_str_ranged ranged_text_def)
next
  case Fixed
  have "c \<notin> set (desc_str BL b)" if "c = CHR ''#'' \<or> c = CHR ''*''" for c
  proof -
    have "c \<notin> set (join '','' (map (format_key BL Fixed) (map snd (cb_entries b))))"
      by (rule not_in_join)
        (use that assms(1) in \<open>auto simp: format_key_def Let_def plain_renderings_def not_in_origin\<close>)
    then show ?thesis using that by (auto simp: desc_str_def Let_def Fixed not_in_hex not_in_dec)
  qed
  from this [of "CHR ''#''"] this [of "CHR ''*''"]
  have clean: "CHR ''#'' \<notin> set (desc_str BL b)" "CHR ''*'' \<notin> set (desc_str BL b)" by simp_all
  then have "takeWhile (\<lambda>c. c \<noteq> CHR ''#'') (ct_to_string CL d) = desc_str BL b"
    unfolding assms(3) by (simp add: takeWhile_until)
  then show ?thesis using clean str_replace_no_star Fixed by (simp add: to_multipath_string_def)
qed

lemma multipath_of_built_witness:
  "to_multipath_string ex_ct (desc_str ex_bitcoin (snd (add_signer dec (ex_signer 1) ex_builder)) @ ''#abc'')
   = ''ct(slip77('' @ hex_encode (replicate 32 0xab) @ ''),elwsh(sortedmulti(2,[f1/48h/1h]tpub10/<0;1>/*)))''"
proof -
  let ?b = "snd (add_signer dec (ex_signer 1) ex_builder)"
  have "cb_entries ?b \<noteq> []" by (simp add: add_signer_def ex_builder_def)
  moreover have "ct_to_string ex_ct (desc_str ex_bitcoin ?b @ ''#abc'') = desc_str ex_bitcoin ?b @ ''#'' @ ''abc''"
    by (simp add: ex_ct_def)
  ultimately have "to_multipath_string ex_ct (desc_str ex_bitcoin ?b @ ''#abc'') =
      (case cb_mode ?b of Ranged \<Rightarrow> ranged_text ex_bitcoin ?b ''/<0;1>/*'' | Fixed \<Rightarrow> desc_str ex_bitcoin ?b)"
    by (rule multipath_of_built [OF ex_plain])
  then show ?thesis
    by (simp add: add_signer_def ex_builder_def ranged_text_def ranged_form_def built_key_def ex_signer_def entry_of_def ex_bitcoin_def
        format_origin_def dec.simps digit_char_def)
qed

text \<open>
  The key origin in a descriptor is unambiguous: two derivation paths under the same
  fingerprint have the same text only if they are the same path.
\<close>

lemma origin_unambiguous:
  "format_origin BL fp p = format_origin BL fp q \<longleftrightarrow> p = q"
  using format_origin_inject by blast

end
