(* ===== verification/Federated_Wallet.thy ===== *)
theory Federated_Wallet
  imports Descriptor Wollet
begin

text \<open>
  \<open>src/federated_wallet.rs\<close>: the stack of federation versions, each with its wallet handle, and
  the constructors of \<open>src/wollet.rs\<close> that start from a handle. The invariant of the stack is
  proved for every wallet the two constructors can produce.
\<close>

record 'c wallet_handle =
  wh_ct_descriptor :: 'c
  wh_blinding_key :: "u8 list"

definition handle_new :: "'c \<Rightarrow> u8 list \<Rightarrow> 'c wallet_handle" where
  "handle_new ct_descriptor blinding_key =
     \<lparr>wh_ct_descriptor = ct_descriptor, wh_blinding_key = blinding_key\<rparr>"

record ('id, 'x, 'c) federation_wallet =
  fw_federation :: "('id, 'x) federation"
  fw_wallet :: "'c wallet_handle"
  fw_index :: nat

record ('id, 'x, 'c) federated_wallet =
  efw_federation_wallets :: "('id, 'x, 'c) federation_wallet list"
  efw_network :: elements_network

definition federated_new ::
    "('id, 'x) federation \<Rightarrow> 'c wallet_handle \<Rightarrow> elements_network
     \<Rightarrow> (federated_wallet_error, ('id, 'x, 'c) federated_wallet) result" where
  "federated_new fed handle network =
     (if \<not> is_elements (fed_network fed) then Inl (Err NonElementsNetwork)
      else Inr \<lparr>efw_federation_wallets = [\<lparr>fw_federation = fed, fw_wallet = handle, fw_index = 0\<rparr>],
                efw_network = network\<rparr>)"

definition with_federation ::
    "('id, 'x, 'c) federated_wallet \<Rightarrow> ('id, 'x) federation \<Rightarrow> 'c wallet_handle
     \<Rightarrow> (federated_wallet_error, ('id, 'x, 'c) federated_wallet) result" where
  "with_federation w fed handle =
     (if \<not> is_elements (fed_network fed) then Inl (Err NonElementsNetwork)
      else let incoming_network = to_network_type (efw_network w) in
        if fed_network fed \<noteq> incoming_network
        then Inl (Err (NetworkMismatch incoming_network (fed_network fed)))
        else let new_index = length (efw_federation_wallets w);
                 copies = map (\<lambda>fw. \<lparr>fw_federation = fw_federation fw, fw_wallet = fw_wallet fw,
                   fw_index = fw_index fw\<rparr>) (efw_federation_wallets w)
             in Inr \<lparr>efw_federation_wallets =
                       copies @ [\<lparr>fw_federation = fed, fw_wallet = handle, fw_index = new_index\<rparr>],
                     efw_network = efw_network w\<rparr>)"

definition elements_network_of :: "('id, 'x, 'c) federated_wallet \<Rightarrow> elements_network" where
  "elements_network_of w = efw_network w"

definition ct_descriptors :: "('id, 'x, 'c) federated_wallet \<Rightarrow> 'c list" where
  "ct_descriptors w = map (\<lambda>fw. wh_ct_descriptor (fw_wallet fw)) (efw_federation_wallets w)"

definition wallet_handles :: "('id, 'x, 'c) federated_wallet \<Rightarrow> 'c wallet_handle list" where
  "wallet_handles w = map fw_wallet (efw_federation_wallets w)"

definition handle_at :: "('id, 'x, 'c) federated_wallet \<Rightarrow> nat \<Rightarrow> 'c wallet_handle option" where
  "handle_at w index = map_option fw_wallet (get_at (efw_federation_wallets w) index)"

definition federation_wallets :: "('id, 'x, 'c) federated_wallet \<Rightarrow> ('id, 'x, 'c) federation_wallet list" where
  "federation_wallets w = efw_federation_wallets w"

definition current ::
    "('id, 'x, 'c) federated_wallet \<Rightarrow> ('e, ('id, 'x, 'c) federation_wallet) result" where
  "current w = (if efw_federation_wallets w = []
     then Inl (Panic ''ElementsFederatedWallet always has at least one federation'')
     else Inr (last (efw_federation_wallets w)))"

definition wallet_at ::
    "('id, 'x, 'c) federated_wallet \<Rightarrow> nat \<Rightarrow> ('id, 'x, 'c) federation_wallet option" where
  "wallet_at w index = get_at (efw_federation_wallets w) index"

definition federation_count :: "('id, 'x, 'c) federated_wallet \<Rightarrow> nat" where
  "federation_count w = length (efw_federation_wallets w)"

definition wallet_network :: "('id, 'x, 'c) federated_wallet \<Rightarrow> network_type" where
  "wallet_network w = to_network_type (efw_network w)"

definition wallet_threshold :: "('id, 'x, 'c) federated_wallet \<Rightarrow> ('e, u32) result" where
  "wallet_threshold w = bindR (current w) (\<lambda>fw. Inr (fed_threshold (fw_federation fw)))"

definition find_by_signer ::
    "('id, 'x, 'c) federated_wallet \<Rightarrow> 'id \<Rightarrow> ('id, 'x, 'c) federation_wallet list" where
  "find_by_signer w i = filter (\<lambda>fw. fed_contains (fw_federation fw) i) (efw_federation_wallets w)"

definition signer_is_current :: "('id, 'x, 'c) federated_wallet \<Rightarrow> 'id \<Rightarrow> ('e, bool) result" where
  "signer_is_current w i = bindR (current w) (\<lambda>fw. Inr (fed_contains (fw_federation fw) i))"

definition all_signer_ids :: "('id, 'x, 'c) federated_wallet \<Rightarrow> 'id set" where
  "all_signer_ids w =
     set (concat (map (\<lambda>fw. map sg_id (fed_signers (fw_federation fw))) (efw_federation_wallets w)))"

definition current_signer_ids :: "('id, 'x, 'c) federated_wallet \<Rightarrow> ('e, 'id set) result" where
  "current_signer_ids w =
     bindR (current w) (\<lambda>fw. Inr (set (map sg_id (fed_signers (fw_federation fw)))))"

section \<open>Wollets from handles\<close>

definition from_handle_with_lwk ::
    "('d, 'k, 'w) lwk_lib \<Rightarrow> 'c ct_lib \<Rightarrow> 'c wallet_handle \<Rightarrow> elements_network \<Rightarrow> lwk_network
     \<Rightarrow> (wollet_error, ('d, 'k, 'w) elements_wollet) result" where
  "from_handle_with_lwk L CL handle network lwk_net =
     (let s = to_multipath_string CL (wh_ct_descriptor handle)
      in from_descriptor_str L s (wh_blinding_key handle) network lwk_net)"

definition from_handle ::
    "('d, 'k, 'w) lwk_lib \<Rightarrow> lwk_network \<Rightarrow> 'c ct_lib \<Rightarrow> 'c wallet_handle \<Rightarrow> elements_network
     \<Rightarrow> (wollet_error, ('d, 'k, 'w) elements_wollet) result" where
  "from_handle L default_regtest CL handle network =
     (let lwk_net = to_lwk default_regtest network
      in from_handle_with_lwk L CL handle network lwk_net)"

section \<open>The invariant of the stack\<close>

definition stack_inv :: "('id, 'x, 'c) federated_wallet \<Rightarrow> bool" where
  "stack_inv w \<longleftrightarrow> efw_federation_wallets w \<noteq> []
     \<and> map fw_index (efw_federation_wallets w) = [0 ..< length (efw_federation_wallets w)]
     \<and> (\<forall>fw \<in> set (efw_federation_wallets w). is_elements (fed_network (fw_federation fw)))
     \<and> (\<forall>fw \<in> set (tl (efw_federation_wallets w)).
          fed_network (fw_federation fw) = to_network_type (efw_network w))"

inductive wallet_built :: "('id, 'x, 'c) federated_wallet \<Rightarrow> bool" where
  first_version: "federated_new fed handle network = Inr w \<Longrightarrow> wallet_built w"
| next_version: "wallet_built w \<Longrightarrow> with_federation w fed handle = Inr w' \<Longrightarrow> wallet_built w'"

lemma with_federation_Inr:
  assumes "with_federation w fed handle = Inr w'"
  shows "fed_network fed = to_network_type (efw_network w)" "is_elements (fed_network fed)"
    "efw_network w' = efw_network w"
    "efw_federation_wallets w' = efw_federation_wallets w
       @ [\<lparr>fw_federation = fed, fw_wallet = handle, fw_index = length (efw_federation_wallets w)\<rparr>]"
  using assms by (auto simp: with_federation_def Let_def split: if_splits intro!: map_idI)

lemma stack_inv_next:
  assumes "stack_inv w" and "with_federation w fed handle = Inr w'"
  shows "stack_inv w'"
  using assms(1) with_federation_Inr [OF assms(2)] by (auto simp: stack_inv_def)

lemma wallet_built_inv: "wallet_built w \<Longrightarrow> stack_inv w"
proof (induction rule: wallet_built.induct)
  case (first_version fed handle network w)
  then show ?case by (auto simp: federated_new_def stack_inv_def split: if_splits)
next
  case (next_version w fed handle w')
  then show ?case by (blast intro: stack_inv_next)
qed

lemma current_built: "wallet_built w \<Longrightarrow> current w = Inr (last (efw_federation_wallets w))"
  using wallet_built_inv by (auto simp: current_def stack_inv_def)

section \<open>The properties\<close>

definition ex_federation :: "nat list \<Rightarrow> elements_network \<Rightarrow> (nat, nat) federation" where
  "ex_federation ids n = \<lparr>fed_network = to_network_type n, fed_threshold = 2,
     fed_signers = map ex_signer ids, fed_contains = (\<lambda>i. i \<in> set ids),
     fed_find = (\<lambda>i. if i \<in> set ids then Some (ex_signer i) else None)\<rparr>"

definition ex_handle :: "string wallet_handle" where
  "ex_handle = handle_new ''ct()'' (replicate 32 0xab)"

lemma ex_federation_ok: "federation_ok (ex_federation ids n)"
  by (auto simp: federation_ok_def ex_federation_def ex_signer_def image_iff split: if_splits)

definition ex_wallet :: "(nat, nat, string) federated_wallet" where
  "ex_wallet = \<lparr>efw_federation_wallets =
       [\<lparr>fw_federation = ex_federation [1, 2, 3] Liquid, fw_wallet = ex_handle, fw_index = 0\<rparr>],
     efw_network = Liquid\<rparr>"

lemma ex_wallet_built: "wallet_built ex_wallet"
  by (rule first_version [of "ex_federation [1, 2, 3] Liquid" ex_handle Liquid])
    (simp add: federated_new_def ex_wallet_def ex_federation_def to_network_type_def)

text \<open>
  C26. Every wallet the constructors can build has a federation, so asking for the current one
  never panics; the index stored with each version is its position; every version is on an
  Elements network, and every version after the first is on the wallet's network.
\<close>

theorem federated_wallet_invariant:
  assumes "wallet_built w"
  shows "current w = Inr (last (efw_federation_wallets w))
    \<and> (\<forall>i fw. wallet_at w i = Some fw \<longrightarrow> fw_index fw = i
         \<and> is_elements (fed_network (fw_federation fw))
         \<and> (0 < i \<longrightarrow> fed_network (fw_federation fw) = wallet_network w))"
proof (intro conjI allI impI)
  note inv = wallet_built_inv [OF assms]
  show "current w = Inr (last (efw_federation_wallets w))" by (rule current_built [OF assms])
  fix i fw
  assume "wallet_at w i = Some fw"
  then have i: "i < length (efw_federation_wallets w)" and fw: "fw = efw_federation_wallets w ! i"
    by (auto simp: wallet_at_def get_at_def split: if_splits)
  have "map fw_index (efw_federation_wallets w) ! i = i" using inv i by (simp add: stack_inv_def)
  then show "fw_index fw = i" using i fw by simp
  show "is_elements (fed_network (fw_federation fw))" using inv i fw by (simp add: stack_inv_def)
  assume "0 < i"
  then have "fw \<in> set (tl (efw_federation_wallets w))"
    using i fw by (auto simp: in_set_conv_nth nth_tl intro!: exI [of _ "i - 1"])
  then show "fed_network (fw_federation fw) = wallet_network w"
    using inv by (simp add: stack_inv_def wallet_network_def)
qed

theorem federated_wallet_invariant_witness:
  "wallet_built ex_wallet \<and> current ex_wallet = Inr (last (efw_federation_wallets ex_wallet))"
  using federated_wallet_invariant [OF ex_wallet_built] ex_wallet_built by blast

text \<open>
  C27. Adding a version succeeds exactly for federations on the wallet's own network; the new
  version becomes the current one, and every earlier version, with its handle, stays where it
  was.
\<close>

theorem with_federation_appends:
  "case with_federation w fed handle of
     Inr w' \<Rightarrow> fed_network fed = wallet_network w \<and> wallet_network w' = wallet_network w
       \<and> current w' = Inr \<lparr>fw_federation = fed, fw_wallet = handle, fw_index = federation_count w\<rparr>
       \<and> federation_count w' = Suc (federation_count w)
       \<and> (\<forall>i. wallet_at w' i = (if i < federation_count w then wallet_at w i
            else if i = federation_count w
              then Some \<lparr>fw_federation = fed, fw_wallet = handle, fw_index = federation_count w\<rparr> else None))
   | Inl e \<Rightarrow> fed_network fed \<noteq> wallet_network w \<and> e = Err (if is_elements (fed_network fed)
       then NetworkMismatch (wallet_network w) (fed_network fed) else NonElementsNetwork)"
proof (cases "with_federation w fed handle")
  case (Inl e)
  then show ?thesis
    by (auto simp: with_federation_def Let_def wallet_network_def to_network_type_def split: if_splits)
next
  case (Inr w')
  note w' = with_federation_Inr [OF Inr]
  then have "current w' = Inr \<lparr>fw_federation = fed, fw_wallet = handle, fw_index = federation_count w\<rparr>"
    by (simp add: current_def federation_count_def)
  then show ?thesis
    using Inr w' by (auto simp: wallet_network_def federation_count_def wallet_at_def get_at_def nth_append)
qed

text \<open>
  The queries by signer agree: a signer is current iff it is among the current ids, it is
  found in some version iff it is among all ids, and the versions found are those that contain
  it, oldest first.
\<close>

lemma signer_queries_agree:
  assumes "wallet_built w"
    and "\<forall>fw \<in> set (efw_federation_wallets w). federation_ok (fw_federation fw)"
  shows "(\<exists>ids. current_signer_ids w = Inr ids \<and> signer_is_current w i = Inr (i \<in> ids)
       \<and> ids \<subseteq> all_signer_ids w)
    \<and> (find_by_signer w i \<noteq> [] \<longleftrightarrow> i \<in> all_signer_ids w)
    \<and> sorted_wrt (<) (map fw_index (find_by_signer w i))"
proof (intro conjI)
  let ?ws = "efw_federation_wallets w"
  have ne: "?ws \<noteq> []" and idx: "map fw_index ?ws = [0 ..< length ?ws]"
    using wallet_built_inv [OF assms(1)] by (auto simp: stack_inv_def)
  have ok: "fed_contains (fw_federation fw) i \<longleftrightarrow> i \<in> sg_id ` set (fed_signers (fw_federation fw))"
    if "fw \<in> set ?ws" for fw using assms(2) that by (simp add: federation_ok_def)
  show "\<exists>ids. current_signer_ids w = Inr ids \<and> signer_is_current w i = Inr (i \<in> ids)
      \<and> ids \<subseteq> all_signer_ids w"
    using ok [of "last ?ws"] ne
    by (auto simp: current_signer_ids_def signer_is_current_def current_built [OF assms(1)] all_signer_ids_def
        intro!: bexI [of _ "last ?ws"])
  show "find_by_signer w i \<noteq> [] \<longleftrightarrow> i \<in> all_signer_ids w"
    using ok by (auto simp: find_by_signer_def all_signer_ids_def filter_empty_conv image_iff)
  have "sorted_wrt (<) (map fw_index ?ws)" unfolding idx by simp
  then show "sorted_wrt (<) (map fw_index (find_by_signer w i))"
    by (simp add: find_by_signer_def sorted_wrt_map sorted_wrt_filter)
qed

lemma signer_queries_agree_witness:
  "find_by_signer ex_wallet 2 \<noteq> [] \<and> 2 \<in> all_signer_ids ex_wallet \<and> 9 \<notin> all_signer_ids ex_wallet"
proof -
  have "\<forall>fw \<in> set (efw_federation_wallets ex_wallet). federation_ok (fw_federation fw)"
    by (simp add: ex_wallet_def ex_federation_ok)
  note q = signer_queries_agree [OF ex_wallet_built this]
  have "find_by_signer ex_wallet 2 \<noteq> []" "find_by_signer ex_wallet 9 = []"
    by (simp_all add: find_by_signer_def ex_wallet_def ex_federation_def)
  with q show ?thesis by blast
qed

text \<open>
  The first federation's network is not compared with the wallet's: a wallet built for
  regtest over a Liquid federation exists, reports regtest, and then refuses every further
  federation on the network its existing one is on.
\<close>

lemma first_network_unchecked:
  assumes "fed_network fed = to_network_type n" and "n \<noteq> network"
    and "fed_network next_fed = fed_network fed"
  shows "\<exists>w. federated_new fed handle network = Inr w \<and> wallet_network w \<noteq> fed_network fed
    \<and> with_federation w next_fed handle = Inl (Err (NetworkMismatch (to_network_type network) (fed_network fed)))"
  using assms
  by (auto simp: federated_new_def with_federation_def wallet_network_def to_network_type_def Let_def)
    (metis from_to_core_id)+

lemma first_network_unchecked_witness:
  "\<exists>w. federated_new (ex_federation [1] Liquid) ex_handle ElementsRegtest = Inr w
    \<and> with_federation w (ex_federation [1, 2] Liquid) ex_handle
        = Inl (Err (NetworkMismatch (to_network_type ElementsRegtest) (to_network_type Liquid)))"
proof -
  have "fed_network (ex_federation [1] Liquid) = to_network_type Liquid"
    "fed_network (ex_federation [1, 2] Liquid) = fed_network (ex_federation [1] Liquid)"
    by (simp_all add: ex_federation_def)
  from first_network_unchecked [OF this(1) _ this(2), of ElementsRegtest ex_handle]
  show ?thesis by (auto simp: ex_federation_def)
qed

text \<open>
  C30. From builder to wollet: a ranged builder formats its keys as \<open>[origin]xpub\<close> with the external
  chain's wildcard. When the handle's descriptor prints as that string with any rendering of the keys without hash
  sign and star (the library may write a hardened step with an apostrophe where the builder writes
  \<open>h\<close>) and a checksum, the wollet made from the handle hands LWK the same printed string with each
  wildcard in the two-chain form and without checksum, and the blinding key in the hexadecimal text
  that the built string carries.
\<close>

theorem wollet_from_built_descriptor:
  assumes "cb_mode b = Ranged" and "cb_entries b \<noteq> []"
    and plain: "plain_keys key b" and printed: "ct_to_string CL d = ranged_form key b ''/0/*'' @ ''#'' @ checksum"
  shows "desc_str BL b = ranged_form (built_key BL) b ''/0/*''
    \<and> from_handle L reg CL (handle_new d (cb_master_blinding_key b)) network =
    bindR (lib_err WDescriptor (lwk_parse_descriptor L (ranged_form key b ''/<0;1>/*''))) (\<lambda>wd.
    bindR (lib_err WBuild (lwk_build_wollet L (to_lwk reg network) wd)) (\<lambda>inner.
    bindR (lib_err (\<lambda>e. WDescriptor (''invalid blinding key: '' @ e))
             (lwk_parse_mbk L (hex_encode (cb_master_blinding_key b)))) (\<lambda>mbk.
    Inr \<lparr>ew_inner = inner, ew_descriptor = wd, ew_master_blinding_key = mbk, ew_network = network,
         ew_lwk_network = to_lwk reg network\<rparr>)))"
proof -
  have "to_multipath_string CL d = ranged_form key b ''/<0;1>/*''"
    by (rule multipath_of_printed [OF plain assms(2) printed])
  then show ?thesis
    using desc_str_ranged [OF assms(1), of BL]
    by (simp add: from_handle_def from_handle_with_lwk_def handle_new_def from_descriptor_str_def
        hex32_hex_encode Let_def ranged_text_def)
qed

text \<open>A library that prints hardened steps with an apostrophe.\<close>

definition apostrophe_key :: "nat key_entry \<Rightarrow> string" where
  "apostrophe_key e = ''['' @ bl_show_fingerprint ex_bitcoin (ke_fingerprint e)
     @ concat (map (\<lambda>s. ''/'' @ (case s of ChildNormal i \<Rightarrow> dec (unat i) | ChildHardened i \<Rightarrow> dec (unat i) @ [CHR 0x27]))
         (ke_derivation_path e)) @ '']'' @ bl_show_xpub ex_bitcoin (ke_xpub e)"

definition ex_strict_lwk :: "(string, string, unit) lwk_lib" where
  "ex_strict_lwk = \<lparr>lwk_parse_descriptor = Inr, lwk_build_wollet = (\<lambda>n d. Inr ()), lwk_parse_mbk = Inr,
     lwk_address = (\<lambda>d i p. Inl ''''), lwk_change = (\<lambda>d i p. Inl ''''), lwk_try_unblind = (\<lambda>t d. Inl '''')\<rparr>"

theorem wollet_from_built_descriptor_witness:
  "let b = snd (add_signer dec (ex_signer 1) ex_builder) in
   from_handle ex_strict_lwk LwkLiquid ex_ct (handle_new (ranged_form apostrophe_key b ''/0/*'' @ ''#'' @ ''abc'')
       (cb_master_blinding_key b)) Liquid
   = Inr \<lparr>ew_inner = (), ew_descriptor = ranged_form apostrophe_key b ''/<0;1>/*'',
       ew_master_blinding_key = hex_encode (cb_master_blinding_key b), ew_network = Liquid, ew_lwk_network = LwkLiquid\<rparr>"
proof -
  let ?b = "snd (add_signer dec (ex_signer 1) ex_builder)"
  have b: "cb_mode ?b = Ranged" "cb_entries ?b \<noteq> []" by (simp_all add: add_signer_def ex_builder_def)
  have "plain_keys apostrophe_key ?b"
    by (simp add: plain_keys_def add_signer_def ex_builder_def ex_signer_def entry_of_def apostrophe_key_def
        ex_bitcoin_def not_in_dec)
  moreover have "ct_to_string ex_ct (ranged_form apostrophe_key ?b ''/0/*'' @ ''#'' @ ''abc'')
      = ranged_form apostrophe_key ?b ''/0/*'' @ ''#'' @ ''abc''"
    by (simp add: ex_ct_def)
  ultimately show ?thesis
    unfolding Let_def by (subst wollet_from_built_descriptor [OF b, THEN conjunct2]) (simp_all add: ex_strict_lwk_def)
qed

end
