(* ===== verification/Pset_Properties.thy ===== *)
theory Pset_Properties
  imports Coordinator Federated_Wallet
begin

text \<open>
  The properties of the PSET pipeline: what the blinding check lets through, what is derived for
  blinding, what the coordinator counts and merges, and what finalisation produces.
\<close>

section \<open>Concrete data\<close>

text \<open>A tokeniser for one-byte opcodes and 33-byte pushes, enough for multisig scripts.\<close>

fun ex_tokens :: "u8 list \<Rightarrow> (string + instruction) list" where
  "ex_tokens [] = []"
| "ex_tokens (b # bs) =
     (if b = 0x21 then Inr (PushBytes (take 33 bs)) # ex_tokens (drop 33 bs)
      else Inr (OpCode b) # ex_tokens bs)"

definition ex_pset_lib :: "(unit, unit) pset_lib" where
  "ex_pset_lib = \<lparr>pl_instructions = (\<lambda>s. ex_tokens (script_bytes s)), pl_pubkey_from_slice = (\<lambda>d. Inr (PublicKey d)),
     pl_extract_tx = (\<lambda>ps. Inr \<lparr>tx_version = 2, tx_lock_time = 0, tx_input = [], tx_output = []\<rparr>),
     pl_blind_last = (\<lambda>s ps. Inr ps), pl_blinding_private_key = (\<lambda>k s. ()),
     pl_unblind = (\<lambda>t k. Inr \<lparr>sec_asset = AssetId 7, sec_asset_bf = 1, sec_value = 5, sec_value_bf = 2\<rparr>)\<rparr>"

definition ex_key :: "u8 \<Rightarrow> pubkey" where
  "ex_key k = PublicKey (replicate 33 k)"

definition ex_script :: "pubkey list \<Rightarrow> script" where
  "ex_script pks = Script ([0x52] @ concat (map (\<lambda>pk. 0x21 # pubkey_bytes pk) pks)
     @ [word_of_nat (0x50 + length pks), 0xae])"

definition ex_keys :: "pubkey list" where
  "ex_keys = [ex_key 1, ex_key 2, ex_key 3]"

definition ex_utxo_out :: txout where
  "ex_utxo_out = \<lparr>to_asset = AssetConfidential [1], to_value = ValueConfidential [2], to_nonce = [],
     to_script_pubkey = Script [0, 0x20], to_witness = []\<rparr>"

definition ex_input :: "(pubkey \<times> u8 list) list \<Rightarrow> pset_input" where
  "ex_input sigs = \<lparr>pi_previous_txid = Txid 1, pi_previous_output_index = 0,
     pi_witness_utxo = Some ex_utxo_out, pi_partial_sigs = sigs, pi_sighash_type = None,
     pi_redeem_script = None, pi_witness_script = Some (ex_script ex_keys),
     pi_bip32_derivation = [(ex_key 1, 1, []), (ex_key 2, 2, []), (ex_key 3, 3, [])],
     pi_final_script_witness = None\<rparr>"

definition ex_output :: pset_output where
  "ex_output = \<lparr>po_script_pubkey = Script [0, 0x20], po_amount = None, po_amount_comm = Some [8],
     po_asset = None, po_asset_comm = Some [10], po_value_rangeproof = Some [1],
     po_asset_surjection_proof = Some [2], po_blinder_index = Some 0\<rparr>"

definition ex_fee :: pset_output where
  "ex_fee = \<lparr>po_script_pubkey = Script [], po_amount = Some 100, po_amount_comm = None,
     po_asset = Some (AssetId 7), po_asset_comm = None, po_value_rangeproof = None,
     po_asset_surjection_proof = None, po_blinder_index = None\<rparr>"

definition ex_pset :: "(pubkey \<times> u8 list) list \<Rightarrow> pset" where
  "ex_pset sigs = \<lparr>ps_global = [], ps_inputs = [ex_input sigs], ps_outputs = [ex_output, ex_fee]\<rparr>"

definition ex_coordinator :: "(nat, nat) coordinator" where
  "ex_coordinator = \<lparr>co_federation = ex_federation [1, 2, 3] Liquid, co_pset = ex_pset [], co_signed = []\<rparr>"

lemma ex_multisig: "multisig_script ex_pset_lib (ex_script ex_keys) 2 ex_keys"
  by (simp add: multisig_script_def ex_script_def ex_keys_def ex_key_def ex_pset_lib_def)

lemma ex_coordinator_run: "coordinator_run (ex_federation [1, 2, 3] Liquid) ex_coordinator"
  by (rule run_new [of _ "BlindedPset (ex_pset [])"])
    (simp add: coordinator_new_def validate_blinding_def validate_blinding_raw_def ex_pset_def ex_output_def
      ex_fee_def script_is_empty_def Let_def ex_coordinator_def blinded_into_pset_def)

section \<open>The blinding check\<close>

text \<open>
  C31. A coordinator accepts exactly the PSETs whose outputs all pass the check: a fee output, or a
  range proof, a surjection proof and a blinder index, if any, below the number of inputs. It
  starts with the PSET as it is and nobody having signed; otherwise the error is a blinding error.
\<close>

theorem coordinator_accepts_iff_blinded:
  "case coordinator_new fed (BlindedPset ps) of
     Inr c \<Rightarrow> (\<forall>out \<in> set (ps_outputs ps). output_blinded (length (ps_inputs ps)) out)
       \<and> c = \<lparr>co_federation = fed, co_pset = ps, co_signed = []\<rparr>
   | Inl e \<Rightarrow> (\<exists>out \<in> set (ps_outputs ps). \<not> output_blinded (length (ps_inputs ps)) out)
       \<and> (\<exists>m. e = Err (BlindingFailed m))"
proof -
  have err: "\<exists>m. e = Err (BlindingFailed m)" if "validate_outputs n i outs = Inl e" for n i outs and e :: "'a pset_error fault"
    using that by (induction n i outs rule: validate_outputs.induct) (auto simp: Let_def split: if_splits option.splits)
  show ?thesis
    using validate_outputs_iff [of "length (ps_inputs ps)" 0 "ps_outputs ps"]
    by (auto simp: coordinator_new_def validate_blinding_def validate_blinding_raw_def blinded_into_pset_def bindR_def
        dest: err split: sum.split)
qed

theorem coordinator_accepts_iff_blinded_witness:
  "(\<exists>c. coordinator_new (ex_federation [1, 2, 3] Liquid) (BlindedPset (ex_pset [])) = Inr c \<and> co_signed c = [])
   \<and> output_blinded 1 ex_output"
proof -
  have "coordinator_new (ex_federation [1, 2, 3] Liquid) (BlindedPset (ex_pset [])) = Inr ex_coordinator"
    by (simp add: coordinator_new_def validate_blinding_def validate_blinding_raw_def ex_pset_def ex_output_def
        ex_fee_def script_is_empty_def Let_def ex_coordinator_def blinded_into_pset_def)
  with coordinator_accepts_iff_blinded [where fed = "ex_federation [1, 2, 3] Liquid" and ps = "ex_pset []"] show ?thesis
    by (simp add: ex_coordinator_def) (simp add: ex_pset_def)
qed

text \<open>
  The commitments the documentation of the check names are not looked at: removing every
  value and asset commitment changes nothing in its answer.
\<close>

lemma commitments_not_checked:
  "validate_blinding (BlindedPset (ps\<lparr>ps_outputs :=
      map (\<lambda>out. out\<lparr>po_amount_comm := None, po_asset_comm := None\<rparr>) (ps_outputs ps)\<rparr>))
   = (validate_blinding (BlindedPset ps) :: ('id pset_error, unit) result)"
proof -
  have "validate_outputs n i (map (\<lambda>out. out\<lparr>po_amount_comm := None, po_asset_comm := None\<rparr>) outs)
      = (validate_outputs n i outs :: ('id pset_error, unit) result)" for n i outs
    by (induction outs arbitrary: i) (simp_all add: Let_def split: option.split)
  then show ?thesis by (simp add: validate_blinding_def validate_blinding_raw_def)
qed

text \<open>
  C32. Deriving input secrets succeeds iff every input has a witness UTXO that is explicit or can
  be unblinded with its script's SLIP-77 key; then there is one entry for each input number, with
  the secrets of that input (zero blinding factors for an explicit one), and no other entry.
\<close>

theorem derive_input_secrets_exact:
  "case (derive_input_secrets PL ps mbk :: ('id pset_error, (nat \<times> txout_secrets) list) result) of
     Inr out \<Rightarrow> (\<forall>j < length (ps_inputs ps). \<exists>s. map_of out j = Some s \<and> input_opens PL mbk (ps_inputs ps ! j) s)
       \<and> (\<forall>k \<ge> length (ps_inputs ps). map_of out k = None)
   | Inl _ \<Rightarrow> (\<exists>inp \<in> set (ps_inputs ps). \<forall>s. \<not> input_opens PL mbk inp s)"
proof (cases "derive_input_secrets PL ps mbk :: ('id pset_error, (nat \<times> txout_secrets) list) result")
  case (Inl e)
  then show ?thesis
    using derive_secrets_loop_total [of "ps_inputs ps" PL mbk 0 "[]", where 'id = 'id]
    by (auto simp: derive_input_secrets_def)
next
  case (Inr out)
  then show ?thesis
    using derive_secrets_loop_ok [of PL mbk 0 "ps_inputs ps" "[]" out, where 'id = 'id]
    by (simp add: derive_input_secrets_def)
qed

theorem derive_input_secrets_exact_witness:
  "\<exists>out s. derive_input_secrets ex_pset_lib (ex_pset []) () = (Inr out :: (nat pset_error, _) result)
    \<and> map_of out 0 = Some s \<and> map_of out 1 = None"
proof -
  have "\<exists>out. derive_input_secrets ex_pset_lib (ex_pset []) () = (Inr out :: (nat pset_error, _) result)"
    by (simp add: derive_input_secrets_def ex_pset_def ex_input_def utxo_secrets_def ex_utxo_out_def
        unblind_input_def ex_pset_lib_def)
  then obtain out where out: "derive_input_secrets ex_pset_lib (ex_pset []) () = (Inr out :: (nat pset_error, _) result)" ..
  with derive_input_secrets_exact [where PL = ex_pset_lib and ps = "ex_pset []" and mbk = "()" and 'id = nat] show ?thesis
    by (auto simp: ex_pset_def)
qed

section \<open>Finalisation\<close>

text \<open>
  C9. When finalisation returns Ok, every input whose script is an m-of-n multisig, which holds a
  signature for at least m of the script's keys and whose signatures are all valid, carries a witness that satisfies the script: the empty
  dummy, exactly m signatures in the order of their keys, the script; and nothing of the input's
  signing data is left.
\<close>

theorem finalized_witness_satisfies_script:
  assumes "finalize_p2wsh_pset PL ps = (Inr (), ps')" and "j < length (ps_inputs ps)"
    and "pi_witness_script (ps_inputs ps ! j) = Some ws" and "multisig_script PL ws m pks"
    and "\<forall>pk sig. map_of (pi_partial_sigs (ps_inputs ps ! j)) pk = Some sig \<longrightarrow> valid pk sig"
    and "m \<le> length (filter (\<lambda>pk. map_of (pi_partial_sigs (ps_inputs ps ! j)) pk \<noteq> None) pks)"
  shows "\<exists>w. pi_final_script_witness (ps_inputs ps' ! j) = Some w \<and> satisfies_multisig valid ws m pks w
    \<and> pi_partial_sigs (ps_inputs ps' ! j) = [] \<and> pi_witness_script (ps_inputs ps' ! j) = None"
  using assms by (rule finalize_p2wsh_witness)

theorem finalized_witness_satisfies_script_witness:
  "\<exists>w. satisfies_multisig (\<lambda>pk sig. sig = take 1 (pubkey_bytes pk)) (ex_script ex_keys) 2 ex_keys w
    \<and> w = [[]] @ [[1], [2]] @ [script_bytes (ex_script ex_keys)]"
proof -
  let ?ps = "ex_pset [(ex_key 3, [3]), (ex_key 1, [1]), (ex_key 2, [2])]"
  let ?valid = "\<lambda>pk sig. sig = take 1 (pubkey_bytes pk)"
  obtain r ps' where call: "finalize_p2wsh_pset ex_pset_lib ?ps = (r :: (nat pset_error, unit) result, ps')"
    by (rule prod.exhaust)
  then have r: "r = Inr ()"
    by (simp add: finalize_p2wsh_pset_def ex_pset_def ex_input_def)
  have keys: "ex_key 1 \<noteq> ex_key 2" "ex_key 1 \<noteq> ex_key 3" "ex_key 2 \<noteq> ex_key 3" by (simp_all add: ex_key_def)
  have inp: "0 < length (ps_inputs ?ps)" "pi_witness_script (ps_inputs ?ps ! 0) = Some (ex_script ex_keys)"
    by (simp_all add: ex_pset_def ex_input_def)
  have valid: "\<forall>pk sig. map_of (pi_partial_sigs (ps_inputs ?ps ! 0)) pk = Some sig \<longrightarrow> ?valid pk sig"
    using keys by (simp add: ex_pset_def ex_input_def ex_key_def)
  have enough: "2 \<le> length (filter (\<lambda>pk. map_of (pi_partial_sigs (ps_inputs ?ps ! 0)) pk \<noteq> None) ex_keys)"
    using keys by (simp add: ex_pset_def ex_input_def ex_keys_def)
  from finalized_witness_satisfies_script [OF call [unfolded r] inp ex_multisig valid enough]
  obtain w where w: "pi_final_script_witness (ps_inputs ps' ! 0) = Some w"
    and sat: "satisfies_multisig ?valid (ex_script ex_keys) 2 ex_keys w" by blast
  have "finalize_inputs ex_pset_lib 0 (ps_inputs ?ps) = (Inr () :: (nat pset_error, unit) result, ps_inputs ps')"
    using call r by (auto simp: finalize_p2wsh_pset_def split: prod.splits)
  from finalize_inputs_ok [OF this] inp have
    "ps_inputs ps' ! 0 = finalize_input ex_pset_lib (ex_script ex_keys) (ps_inputs ?ps ! 0)" by auto
  with w have "w = [[]] @ take 2 (collect_ordered (pi_partial_sigs (ps_inputs ?ps ! 0)) ex_keys)
      @ [script_bytes (ex_script ex_keys)]"
    using finalize_input_witness [OF ex_multisig] by simp
  also have "collect_ordered (pi_partial_sigs (ps_inputs ?ps ! 0)) ex_keys = [[1], [2], [3]]"
    using keys by (simp add: ex_pset_def ex_input_def ex_keys_def)
  finally show ?thesis using sat by auto
qed

text \<open>
  C40. Finalisation returns Ok iff every input has a witness script, however few signatures there
  are: an input with fewer than m is finalised all the same, with a witness that no choice of
  keys satisfies.
\<close>

theorem undersigned_input_is_finalized:
  assumes "\<forall>inp \<in> set (ps_inputs ps). pi_witness_script inp \<noteq> None" and "j < length (ps_inputs ps)"
    and "pi_witness_script (ps_inputs ps ! j) = Some ws" and "multisig_script PL ws m pks"
    and "length (filter (\<lambda>pk. map_of (pi_partial_sigs (ps_inputs ps ! j)) pk \<noteq> None) pks) < m"
    and "finalize_p2wsh_pset PL ps = (r :: ('id pset_error, unit) result, ps')"
  shows "r = Inr () \<and> (\<exists>w. pi_final_script_witness (ps_inputs ps' ! j) = Some w
    \<and> (\<forall>valid. \<not> satisfies_multisig valid ws m pks w))"
proof -
  let ?sigs = "pi_partial_sigs (ps_inputs ps ! j)"
  obtain r' inputs' where call: "finalize_inputs PL 0 (ps_inputs ps) = (r' :: ('id pset_error, unit) result, inputs')"
    by (rule prod.exhaust)
  then have "r' = Inr ()" using finalize_inputs_returns [of PL 0 "ps_inputs ps", where 'id = 'id] assms(1) by simp
  then have r: "r = Inr ()" and ps': "ps' = ps\<lparr>ps_inputs := inputs'\<rparr>"
    using assms(6) call by (simp_all add: finalize_p2wsh_pset_def)
  have inp: "inputs' ! j = finalize_input PL ws (ps_inputs ps ! j)"
    using finalize_inputs_ok [OF call [unfolded \<open>r' = Inr ()\<close>]] assms(2,3) by auto
  let ?w = "[[]] @ take m (collect_ordered ?sigs pks) @ [script_bytes ws]"
  have "length (take m (collect_ordered ?sigs pks)) < m"
    using assms(5) by (simp add: collect_ordered_filter)
  then have "\<not> satisfies_multisig valid ws m pks ?w" for valid
    by (auto simp: satisfies_multisig_def)
  then show ?thesis using r inp ps' finalize_input_witness [OF assms(4), of "ps_inputs ps ! j"] by auto
qed

theorem undersigned_input_is_finalized_witness:
  "\<exists>ps' w. finalize_p2wsh_pset ex_pset_lib (ex_pset [(ex_key 3, [3])]) = (Inr () :: (nat pset_error, unit) result, ps')
    \<and> pi_final_script_witness (ps_inputs ps' ! 0) = Some w
    \<and> \<not> satisfies_multisig (\<lambda>_ _. True) (ex_script ex_keys) 2 ex_keys w"
proof -
  let ?ps = "ex_pset [(ex_key 3, [3])]"
  obtain r ps' where call: "finalize_p2wsh_pset ex_pset_lib ?ps = (r :: (nat pset_error, unit) result, ps')"
    by (rule prod.exhaust)
  have keys: "ex_key 1 \<noteq> ex_key 2" "ex_key 1 \<noteq> ex_key 3" "ex_key 2 \<noteq> ex_key 3" by (simp_all add: ex_key_def)
  have a: "\<forall>inp \<in> set (ps_inputs ?ps). pi_witness_script inp \<noteq> None" "0 < length (ps_inputs ?ps)"
    "pi_witness_script (ps_inputs ?ps ! 0) = Some (ex_script ex_keys)"
    by (simp_all add: ex_pset_def ex_input_def)
  have few: "length (filter (\<lambda>pk. map_of (pi_partial_sigs (ps_inputs ?ps ! 0)) pk \<noteq> None) ex_keys) < 2"
    using keys by (simp add: ex_pset_def ex_input_def ex_keys_def)
  from undersigned_input_is_finalized [OF a ex_multisig few call] call show ?thesis by blast
qed

section \<open>The signing coordinator\<close>

text \<open>
  C17. Whatever signers and received PSETs a coordinator has been given, the ids it counts are
  distinct members of its federation, so it never counts more than there are members, asking
  whether it is complete never panics, and the answer compares that count with the threshold.
\<close>

theorem coordinator_counts_members:
  assumes "coordinator_run fed c" and "federation_ok fed" and "length (fed_signers fed) < 2 ^ 32"
  shows "co_federation c = fed \<and> distinct (co_signed c) \<and> set (co_signed c) \<subseteq> sg_id ` set (fed_signers fed)
    \<and> signatures_collected c \<le> card (sg_id ` set (fed_signers fed))
    \<and> is_complete c = Inr (unat (fed_threshold fed) \<le> signatures_collected c)"
  using coordinator_run_inv [OF assms(1)] signed_bound [OF coordinator_run_inv [OF assms(1)] assms(2)]
    is_complete_ok [OF coordinator_run_inv [OF assms(1)] assms(2,3)]
  by (auto simp: coordinator_inv_def)

theorem coordinator_counts_members_witness:
  "is_complete ex_coordinator = Inr False \<and> signatures_collected ex_coordinator \<le> card {1, 2, 3 :: nat}"
proof -
  have "length (fed_signers (ex_federation [1, 2, 3] Liquid)) < 2 ^ 32" by (simp add: ex_federation_def)
  from coordinator_counts_members [OF ex_coordinator_run ex_federation_ok this] show ?thesis
    by (simp add: ex_federation_def ex_signer_def ex_coordinator_def signatures_collected_def)
qed

text \<open>
  C16. Receiving a signed PSET only ever adds signatures: whatever the outcome, no other part of
  the coordinator's PSET changes, no signature it holds is removed or replaced, and an added one
  was received for a key the received input attributes to that signer. An error value changes
  nothing at all; Ok counts the signer and only the signer.
\<close>

theorem receive_only_adds_signatures:
  assumes "receive_signature i received c = (r, c')"
  shows "ps_outputs (co_pset c') = ps_outputs (co_pset c) \<and> ps_global (co_pset c') = ps_global (co_pset c)
    \<and> length (ps_inputs (co_pset c')) = length (ps_inputs (co_pset c))
    \<and> (\<forall>j < length (ps_inputs (co_pset c)).
         (case fed_find (co_federation c) i of
            Some s \<Rightarrow> merged_input (sg_fingerprint s) (get_at (ps_inputs received) j)
              (ps_inputs (co_pset c) ! j) (ps_inputs (co_pset c') ! j)
          | None \<Rightarrow> ps_inputs (co_pset c') ! j = ps_inputs (co_pset c) ! j))
    \<and> (\<forall>e. r = Inl (Err e) \<longrightarrow> c' = c)
    \<and> (r = Inr () \<longrightarrow> fed_contains (co_federation c) i \<and> co_signed c' = List.insert i (co_signed c))"
proof (cases "fed_contains (co_federation c) i \<and> fed_find (co_federation c) i \<noteq> None")
  case False
  then have "c' = c \<and> r \<noteq> Inr ()" using assms by (auto simp: receive_signature_def split: if_splits)
  then show ?thesis by (auto simp: merged_input_refl split: option.split)
next
  case True
  then obtain s where s: "fed_contains (co_federation c) i" "fed_find (co_federation c) i = Some s" by blast
  let ?fp = "sg_fingerprint s"
  obtain q inputs where loop: "receive_inputs ?fp 0 (ps_inputs received) False (ps_inputs (co_pset c))
      = (q :: ('a pset_error, bool) result, inputs)" by (rule prod.exhaust)
  note merged = receive_inputs_merged [OF loop]
  have err: "q \<noteq> Inl (Err e)" for e
  proof -
    have "collect_new_sigs fp d own sigs \<noteq> (Inl (Err e) :: ('a pset_error, _) result)" for fp d own sigs
      by (induction fp d own sigs rule: collect_new_sigs.induct) (auto simp: Let_def bindR_def split: option.splits sum.splits)
    then have "fst (receive_inputs fp idx sis f ins) \<noteq> (Inl (Err e) :: ('a pset_error, bool) result)" for fp idx sis f ins
      by (induction fp idx sis f ins rule: receive_inputs.induct) (auto split: sum.splits)
    from this [of ?fp 0 "ps_inputs received" False "ps_inputs (co_pset c)"] show ?thesis by (simp add: loop)
  qed
  have c': "c' = c\<lparr>co_pset := (co_pset c)\<lparr>ps_inputs := inputs\<rparr>, co_signed := co_signed c'\<rparr>"
    using assms s loop by (auto simp: receive_signature_def Let_def split: sum.splits if_splits)
  have "r = Inl (Err e) \<Longrightarrow> c' = c" for e
  proof -
    assume "r = Inl (Err e)"
    then have "q = Inr False" and c'': "c' = c\<lparr>co_pset := (co_pset c)\<lparr>ps_inputs := inputs\<rparr>\<rparr>"
      using assms s loop err by (auto simp: receive_signature_def Let_def split: sum.splits if_splits)
    with receive_inputs_unchanged [of ?fp 0 "ps_inputs received" False "ps_inputs (co_pset c)" inputs, where 'a = 'a] loop
    show "c' = c" by simp
  qed
  moreover have "r = Inr () \<Longrightarrow> co_signed c' = List.insert i (co_signed c)"
    using assms s loop by (auto simp: receive_signature_def Let_def split: sum.splits if_splits)
  moreover have "co_pset c' = (co_pset c)\<lparr>ps_inputs := inputs\<rparr>"
    using arg_cong [OF c', of co_pset] by simp
  ultimately show ?thesis using merged s by auto
qed

theorem receive_only_adds_signatures_witness:
  "\<exists>c'. receive_signature 2 (ex_pset [(ex_key 2, [9])]) ex_coordinator = (Inr (), c')
    \<and> co_signed c' = [2] \<and> ps_outputs (co_pset c') = ps_outputs (co_pset ex_coordinator)"
proof -
  obtain r c' where call: "receive_signature 2 (ex_pset [(ex_key 2, [9])]) ex_coordinator = (r, c')"
    by (rule prod.exhaust)
  then have "r = Inr ()"
    by (simp add: receive_signature_def ex_coordinator_def ex_federation_def ex_pset_def ex_input_def
        ex_signer_def Let_def get_at_def)
  with receive_only_adds_signatures [OF call] call show ?thesis by (auto simp: ex_coordinator_def)
qed

text \<open>
  The same PSET received twice counts once: after a first Ok, receiving it again from the
  same signer is an invalid-signature error and changes nothing.
\<close>

lemma replay_is_rejected:
  assumes "receive_signature i received c = (Inr (), c')"
  shows "receive_signature i received c' =
    (Inl (Err (InvalidSignature i ''no new partial signature attributable to this signer'')), c')"
proof -
  from assms obtain s where s: "fed_contains (co_federation c) i" "fed_find (co_federation c) i = Some s"
    by (auto simp: receive_signature_def split: if_splits option.splits)
  obtain q inputs where loop: "receive_inputs (sg_fingerprint s) 0 (ps_inputs received) False (ps_inputs (co_pset c))
      = (q :: ('a pset_error, bool) result, inputs)" by (rule prod.exhaust)
  then have q: "q = Inr True" and c': "c' = c\<lparr>co_pset := (co_pset c)\<lparr>ps_inputs := inputs\<rparr>,
      co_signed := List.insert i (co_signed c)\<rparr>"
    using assms s by (auto simp: receive_signature_def Let_def split: sum.splits if_splits)
  have "length inputs = length (ps_inputs (co_pset c))" using receive_inputs_merged [OF loop] by simp
  then have "receive_inputs (sg_fingerprint s) 0 (ps_inputs received) False inputs
      = (Inr False :: ('a pset_error, bool) result, inputs)"
    using receive_inputs_complete [OF loop [unfolded q]] by (intro receive_inputs_nothing) fastforce
  then show ?thesis using s by (cases c) (simp add: receive_signature_def c' Let_def)
qed

lemma replay_is_rejected_witness:
  "\<exists>c'. receive_signature 2 (ex_pset [(ex_key 2, [9])]) ex_coordinator = (Inr (), c')
    \<and> fst (receive_signature 2 (ex_pset [(ex_key 2, [9])]) c')
      = Inl (Err (InvalidSignature 2 ''no new partial signature attributable to this signer''))"
proof -
  obtain r c' where call: "receive_signature 2 (ex_pset [(ex_key 2, [9])]) ex_coordinator = (r, c')"
    by (rule prod.exhaust)
  then have r: "r = Inr ()"
    by (simp add: receive_signature_def ex_coordinator_def ex_federation_def ex_pset_def ex_input_def
        ex_signer_def Let_def get_at_def)
  from replay_is_rejected [OF call [unfolded r]] call r show ?thesis by auto
qed

text \<open>
  C10. Finalising fails with the counts while fewer members than the threshold have signed; a
  transaction comes out only when the threshold is met, and then it is the one extracted from the
  coordinator's PSET with every input finalised.
\<close>

theorem finalize_needs_threshold:
  assumes "coordinator_run fed c" and "federation_ok fed" and "length (fed_signers fed) < 2 ^ 32"
  shows "case (finalize PL c :: ('id pset_error, finalized_pset) result) of
      Inr f \<Rightarrow> unat (fed_threshold fed) \<le> signatures_collected c
        \<and> finalize_p2wsh_pset PL (co_pset c) = (Inr () :: ('id pset_error, unit) result, fp_pset f)
        \<and> pl_extract_tx PL (fp_pset f) = Inr (fp_transaction f)
        \<and> (\<forall>j < length (ps_inputs (co_pset c)). \<exists>ws. pi_witness_script (ps_inputs (co_pset c) ! j) = Some ws
            \<and> ps_inputs (fp_pset f) ! j = finalize_input PL ws (ps_inputs (co_pset c) ! j))
    | Inl e \<Rightarrow> signatures_collected c < unat (fed_threshold fed) \<longrightarrow>
        e = Err (InsufficientSignatures (signatures_collected c) (unat (fed_threshold fed)))"
proof -
  note inv = coordinator_run_inv [OF assms(1)]
  have fed: "co_federation c = fed" using inv by (simp add: coordinator_inv_def)
  note complete = is_complete_ok [OF inv assms(2,3)]
  obtain q inputs where call: "finalize_inputs PL 0 (ps_inputs (co_pset c)) = (q :: ('id pset_error, unit) result, inputs)"
    by (rule prod.exhaust)
  show ?thesis
  proof (cases "q = Inr () \<and> unat (fed_threshold fed) \<le> signatures_collected c")
    case True
    with call finalize_inputs_ok [of PL 0 "ps_inputs (co_pset c)" inputs, where 'id = 'id] show ?thesis
      by (auto simp: finalize_def complete fed finalize_p2wsh_pset_def bindR_def lib_err_def split: sum.splits)
  next
    case False
    with call show ?thesis
      by (auto simp: finalize_def complete fed finalize_p2wsh_pset_def split: sum.splits)
  qed
qed

theorem finalize_needs_threshold_witness:
  "(finalize ex_pset_lib ex_coordinator :: (nat pset_error, finalized_pset) result)
     = Inl (Err (InsufficientSignatures 0 2))"
proof -
  have "length (fed_signers (ex_federation [1, 2, 3] Liquid)) < 2 ^ 32" by (simp add: ex_federation_def)
  note f = finalize_needs_threshold [OF ex_coordinator_run ex_federation_ok this, of ex_pset_lib]
  show ?thesis
  proof (cases "finalize ex_pset_lib ex_coordinator :: (nat pset_error, finalized_pset) result")
    case (Inl e)
    with f show ?thesis by (simp add: ex_coordinator_def signatures_collected_def ex_federation_def)
  next
    case (Inr x)
    with f show ?thesis by (simp add: ex_coordinator_def signatures_collected_def ex_federation_def)
  qed
qed

text \<open>
  C39. Attribution is read from the received PSET, and a signature's bytes are not looked at: for
  any member and any key the coordinator's first input has no signature for, a received PSET that
  claims the key for the member's fingerprint, with arbitrary bytes as its signature, is accepted
  and counts the member as having signed.
\<close>

theorem forged_attribution_counts:
  assumes "fed_contains (co_federation c) i" and "fed_find (co_federation c) i = Some s"
    and "ps_inputs (co_pset c) = inp # rest" and "map_of (pi_partial_sigs inp) pk = None"
    and "ps_inputs received = [inp\<lparr>pi_partial_sigs := [(pk, any_bytes)],
       pi_bip32_derivation := [(pk, (sg_fingerprint s, []))]\<rparr>]"
    and "receive_signature i received c = (r, c')"
  shows "r = Inr () \<and> i \<in> set (co_signed c')
    \<and> map_of (pi_partial_sigs (ps_inputs (co_pset c') ! 0)) pk = Some any_bytes"
  using assms by (auto simp: receive_signature_def Let_def get_at_def)

theorem forged_attribution_counts_witness:
  "\<exists>c'. receive_signature 2 (ex_pset [] \<lparr>ps_inputs := [ex_input [] \<lparr>pi_partial_sigs := [(ex_key 77, [])],
       pi_bip32_derivation := [(ex_key 77, (2, []))]\<rparr>]\<rparr>) ex_coordinator = (Inr (), c')
     \<and> 2 \<in> set (co_signed c')"
proof -
  let ?received = "ex_pset [] \<lparr>ps_inputs := [ex_input [] \<lparr>pi_partial_sigs := [(ex_key 77, [])],
       pi_bip32_derivation := [(ex_key 77, (2, []))]\<rparr>]\<rparr>"
  obtain r c' where call: "receive_signature 2 ?received ex_coordinator = (r, c')" by (rule prod.exhaust)
  have pre: "fed_contains (co_federation ex_coordinator) 2"
    "fed_find (co_federation ex_coordinator) 2 = Some (ex_signer 2)"
    "ps_inputs (co_pset ex_coordinator) = ex_input [] # []" "map_of (pi_partial_sigs (ex_input [])) (ex_key 77) = None"
    by (simp_all add: ex_coordinator_def ex_federation_def ex_pset_def ex_input_def)
  have "ps_inputs ?received = [ex_input [] \<lparr>pi_partial_sigs := [(ex_key 77, [])],
       pi_bip32_derivation := [(ex_key 77, (sg_fingerprint (ex_signer 2), []))]\<rparr>]"
    by (simp add: ex_signer_def)
  from forged_attribution_counts [OF pre this call] call show ?thesis by auto
qed

text \<open>
  A received PSET with one input more than the coordinator's, carrying a signature attributed
  to the signer there and none before, makes the coordinator panic instead of returning an error.
\<close>

lemma extra_input_panics:
  assumes "fed_contains (co_federation c) i" and "fed_find (co_federation c) i = Some s"
    and "ps_inputs received = ins @ [extra]" and "length ins = length (ps_inputs (co_pset c))"
    and "\<forall>inp \<in> set ins. pi_partial_sigs inp = []"
    and "(pk, sig) \<in> set (pi_partial_sigs extra)" and "attributed (sg_fingerprint s) extra pk"
  shows "fst (receive_signature i received c) = Inl (Panic ''index out of bounds'')"
proof -
  let ?own = "ps_inputs (co_pset c)" and ?fp = "sg_fingerprint s"
  have skip: "receive_inputs ?fp idx (xs @ ys) False ?own
      = (receive_inputs ?fp (idx + length xs) ys False ?own :: ('a pset_error, bool) result \<times> _)"
    if "\<forall>inp \<in> set xs. pi_partial_sigs inp = []" for idx xs ys
    using that by (induction xs arbitrary: idx) simp_all
  have panic: "collect_new_sigs ?fp (pi_bip32_derivation extra) None sigs
      = (Inl (Panic ''index out of bounds'') :: ('a pset_error, _) result)"
    if "(pk, sig) \<in> set sigs" for sigs
    using that assms(7)
    by (induction sigs) (auto simp: Let_def attributed_list_ex)
  have "get_at ?own (length ins) = None" using assms(4) by (simp add: get_at_def)
  then have "receive_inputs ?fp 0 (ps_inputs received) False ?own
      = (Inl (Panic ''index out of bounds'') :: ('a pset_error, bool) result, ?own)"
    using panic [OF assms(6)] unfolding assms(3) skip [OF assms(5), of 0] by simp
  then show ?thesis using assms(1,2) by (simp add: receive_signature_def)
qed

lemma extra_input_panics_witness:
  "fst (receive_signature 2 (ex_pset [] \<lparr>ps_inputs := [ex_input [], ex_input [(ex_key 2, [9])]]\<rparr>) ex_coordinator)
     = Inl (Panic ''index out of bounds'')"
proof -
  let ?received = "ex_pset [] \<lparr>ps_inputs := [ex_input [], ex_input [(ex_key 2, [9])]]\<rparr>"
  have pre: "fed_contains (co_federation ex_coordinator) 2"
    "fed_find (co_federation ex_coordinator) 2 = Some (ex_signer 2)"
    "ps_inputs ?received = [ex_input []] @ [ex_input [(ex_key 2, [9])]]"
    "length [ex_input []] = length (ps_inputs (co_pset ex_coordinator))"
    "\<forall>inp \<in> set [ex_input []]. pi_partial_sigs inp = []"
    "(ex_key 2, [9]) \<in> set (pi_partial_sigs (ex_input [(ex_key 2, [9])]))"
    "attributed (sg_fingerprint (ex_signer 2)) (ex_input [(ex_key 2, [9])]) (ex_key 2)"
    by (simp_all add: ex_coordinator_def ex_federation_def ex_pset_def ex_input_def ex_signer_def attributed_def)
  show ?thesis by (rule extra_input_panics [OF pre])
qed

text \<open>
  The hexadecimal form of a finalised transaction loses nothing: decoding it gives the
  consensus-serialised bytes back, two characters to the byte.
\<close>

lemma serialize_hex_roundtrip:
  "hex_decode (finalized_serialize_hex E f) = Some (finalized_serialize E f)
   \<and> length (finalized_serialize_hex E f) = 2 * length (finalized_serialize E f)"
  by (simp add: finalized_serialize_hex_def serialize_hex_loop_encode hex_encode_decode)

text \<open>
  A PSET counts as blinded as soon as any output has a range proof, a fee output included: a
  PSET with a single ordinary output in the clear is accepted if the fee output carries a proof.
\<close>

theorem fee_proof_counts_as_blinded:
  assumes "script_is_empty (po_script_pubkey fee)" and "po_value_rangeproof fee \<noteq> None"
    and "ps_outputs ps = outs @ [fee]" and "\<forall>out \<in> set outs. po_value_rangeproof out = None"
  shows "blinded_new ps = Inr (BlindedPset ps)"
  using assms by (simp add: blinded_new_iff)

theorem fee_proof_counts_as_blinded_witness:
  "blinded_new (ex_pset [] \<lparr>ps_outputs := [ex_output\<lparr>po_value_rangeproof := None\<rparr>,
       ex_fee\<lparr>po_value_rangeproof := Some []\<rparr>]\<rparr>)
   = (Inr (BlindedPset (ex_pset [] \<lparr>ps_outputs := [ex_output\<lparr>po_value_rangeproof := None\<rparr>,
       ex_fee\<lparr>po_value_rangeproof := Some []\<rparr>]\<rparr>)) :: (nat pset_error, blinded_pset) result)"
  by (rule fee_proof_counts_as_blinded [of "ex_fee\<lparr>po_value_rangeproof := Some []\<rparr>" _
        "[ex_output\<lparr>po_value_rangeproof := None\<rparr>]"])
    (simp_all add: ex_fee_def script_is_empty_def)

end
