(* ===== verification/Spend_Properties.thy ===== *)
theory Spend_Properties
  imports Spend Pset_Properties Sync_Properties
begin

text \<open>
  The properties of spend construction: which inputs of a built PSET are given which descriptor,
  that a migration of one wallet is a sweep of it, and that the UTXO chained from one transaction
  into the next is the one the scanner would capture.
\<close>

section \<open>From UTXOs to inputs\<close>

text \<open>
  Every input that spends one of the given UTXOs was updated with the descriptor of that UTXO's
  own owner, at the chain and index it was captured with; every other input is as LWK built it.
\<close>

definition inputs_enriched ::
    "('e \<Rightarrow> pset_input \<Rightarrow> string + pset_input) \<Rightarrow> captured_utxo list \<Rightarrow> (captured_utxo \<Rightarrow> 'e \<Rightarrow> bool)
     \<Rightarrow> pset_input list \<Rightarrow> pset_input list \<Rightarrow> bool" where
  "inputs_enriched upd utxos owns before after \<longleftrightarrow> length after = length before
     \<and> (\<forall>j < length before.
          (\<exists>u \<in> set utxos. \<exists>d. cu_outpoint u = prevout_of (before ! j) \<and> owns u d
             \<and> upd d (before ! j) = Inr (after ! j))
        \<or> (prevout_of (before ! j) \<notin> cu_outpoint ` set utxos \<and> after ! j = before ! j))"

lemma enriched_by_map:
  assumes "local_update DL upd" and "(finish_blinded DL ps en :: ('id spend_error, blinded_pset) result) = Inr b"
    and some: "\<And>op d. map_of en op = Some d \<Longrightarrow> \<exists>u \<in> set us. cu_outpoint u = op \<and> owns u d"
    and none: "\<And>op. map_of en op = None \<Longrightarrow> op \<notin> cu_outpoint ` set us"
  shows "inputs_enriched upd us owns (ps_inputs ps) (ps_inputs (bp_pset b))
    \<and> ps_outputs (bp_pset b) = ps_outputs ps \<and> (\<exists>out \<in> set (ps_outputs ps). po_value_rangeproof out \<noteq> None)"
proof -
  note fin = finish_blinded_ok [OF assms(1,2)]
  have "(\<exists>u \<in> set us. \<exists>d. cu_outpoint u = prevout_of (ps_inputs ps ! j) \<and> owns u d
         \<and> upd d (ps_inputs ps ! j) = Inr (ps_inputs (bp_pset b) ! j))
      \<or> (prevout_of (ps_inputs ps ! j) \<notin> cu_outpoint ` set us
         \<and> ps_inputs (bp_pset b) ! j = ps_inputs ps ! j)" if "j < length (ps_inputs ps)" for j
  proof -
    have enriched: "enriched_input upd en (ps_inputs ps ! j) (ps_inputs (bp_pset b) ! j)" using fin that by blast
    show ?thesis
    proof (cases "map_of en (prevout_of (ps_inputs ps ! j))")
      case None
      with enriched none [OF None] show ?thesis by (simp add: enriched_input_def)
    next
      case (Some d)
      with enriched some [OF Some] show ?thesis unfolding enriched_input_def by fastforce
    qed
  qed
  then show ?thesis using fin by (simp add: inputs_enriched_def)
qed

lemma prepared_spend:
  assumes "local_update DL upd"
    and "(prepare_inputs DL us singles :: ('id spend_error, _) result) = Inr (ext, en)"
    and "(finish_blinded DL ps en :: ('id spend_error, blinded_pset) result) = Inr b"
  shows "(\<exists>mw. ext = map (\<lambda>u. external_utxo_of u mw) us)
    \<and> inputs_enriched upd us (owner_descriptor DL singles) (ps_inputs ps) (ps_inputs (bp_pset b))
    \<and> ps_outputs (bp_pset b) = ps_outputs ps \<and> (\<exists>out \<in> set (ps_outputs ps). po_value_rangeproof out \<noteq> None)"
  using prepare_inputs_ok(1) [OF assms(2)]
    enriched_by_map [OF assms(1,3), of us "owner_descriptor DL singles"]
    prepare_inputs_ok(2,3) [OF assms(2)] by blast

section \<open>Migration\<close>

text \<open>The loop of a migration without its cache: every owner's descriptor is split afresh.\<close>

fun migration_uncached ::
    "('d, 's, 'e) desc_lib \<Rightarrow> (captured_utxo \<times> ('d, 'k, 'w) elements_wollet) list
     \<Rightarrow> external_utxo list \<Rightarrow> (outpoint \<times> 'e) list
     \<Rightarrow> ('id spend_error, external_utxo list \<times> (outpoint \<times> 'e) list) result" where
  "migration_uncached DL [] ext en = Inr (ext, en)"
| "migration_uncached DL ((u, owner) # inputs) ext en =
     bindR (singles_of DL owner) (\<lambda>singles.
     bindR (max_weight_of DL singles) (\<lambda>mw.
     bindR (definite_at DL singles (chain_usize (cu_chain u)) (cu_wildcard_index u)) (\<lambda>d.
     migration_uncached DL inputs (ext @ [external_utxo_of u mw]) (AList.update (cu_outpoint u) d en))))"

text \<open>Owners whose descriptors have the same text split into the same single-path descriptors.\<close>

definition text_determines ::
    "('d, 's, 'e) desc_lib \<Rightarrow> (captured_utxo \<times> ('d, 'k, 'w) elements_wollet) list \<Rightarrow> bool" where
  "text_determines DL inputs \<longleftrightarrow> (\<forall>p \<in> set inputs. \<forall>q \<in> set inputs.
     dl_to_string DL (ew_descriptor (snd p)) = dl_to_string DL (ew_descriptor (snd q)) \<longrightarrow>
     dl_into_single_descriptors DL (ew_descriptor (snd p)) = dl_into_single_descriptors DL (ew_descriptor (snd q)))"

definition cache_right ::
    "('d, 's, 'e) desc_lib \<Rightarrow> (captured_utxo \<times> ('d, 'k, 'w) elements_wollet) list \<Rightarrow> (string \<times> 's list) list \<Rightarrow> bool" where
  "cache_right DL inputs cache \<longleftrightarrow> (\<forall>p \<in> set inputs. \<forall>s.
     map_of cache (dl_to_string DL (ew_descriptor (snd p))) = Some s \<longrightarrow>
     dl_into_single_descriptors DL (ew_descriptor (snd p)) = Inr s)"

lemma migration_cache:
  assumes "text_determines DL all" and "set inputs \<subseteq> set all" and "cache_right DL all cache"
  shows "migration_loop DL inputs cache ext en
    = (migration_uncached DL inputs ext en
        :: ('id spend_error, external_utxo list \<times> (outpoint \<times> 'e) list) result)"
  using assms(2,3)
proof (induction inputs arbitrary: cache ext en)
  case (Cons p inputs)
  obtain u owner where p: "p = (u, owner)" by (rule prod.exhaust)
  let ?key = "dl_to_string DL (ew_descriptor owner)"
  have mem: "(u, owner) \<in> set all" using Cons.prems(1) p by simp
  show ?case
  proof (cases "map_of cache ?key")
    case None
    show ?thesis
    proof (cases "dl_into_single_descriptors DL (ew_descriptor owner)")
      case (Inl m)
      then show ?thesis using None by (simp add: p Let_def singles_of_def)
    next
      case (Inr s)
      have "cache_right DL all (AList.update ?key s cache)"
        unfolding cache_right_def
      proof (intro ballI allI impI)
        fix q t
        assume q: "q \<in> set all"
          and t: "map_of (AList.update ?key s cache) (dl_to_string DL (ew_descriptor (snd q))) = Some t"
        show "dl_into_single_descriptors DL (ew_descriptor (snd q)) = Inr t"
        proof (cases "dl_to_string DL (ew_descriptor (snd q)) = ?key")
          case True
          with assms(1) q mem have "dl_into_single_descriptors DL (ew_descriptor (snd q))
              = dl_into_single_descriptors DL (ew_descriptor owner)"
            unfolding text_determines_def by fastforce
          with Inr t True show ?thesis by simp
        next
          case False
          with t q Cons.prems(2) show ?thesis by (simp add: cache_right_def)
        qed
      qed
      with None Inr Cons.prems(1) Cons.IH show ?thesis
        by (simp add: p Let_def singles_of_def)
    qed
  next
    case (Some s)
    with Cons.prems(2) mem have "dl_into_single_descriptors DL (ew_descriptor owner) = Inr s"
      unfolding cache_right_def by fastforce
    with Some Cons.prems Cons.IH show ?thesis by (simp add: p Let_def singles_of_def)
  qed
qed simp

text \<open>The definite descriptor of a UTXO under its own owner.\<close>

definition owned_by ::
    "('d, 's, 'e) desc_lib \<Rightarrow> (captured_utxo \<times> ('d, 'k, 'w) elements_wollet) list \<Rightarrow> captured_utxo \<Rightarrow> 'e \<Rightarrow> bool" where
  "owned_by DL inputs u d \<longleftrightarrow> (\<exists>owner singles. (u, owner) \<in> set inputs
     \<and> dl_into_single_descriptors DL (ew_descriptor owner) = Inr singles \<and> owner_descriptor DL singles u d)"

lemma owned_by_mono: "owned_by DL inputs u d \<Longrightarrow> owned_by DL (p # inputs) u d"
  unfolding owned_by_def by fastforce

lemma migration_uncached_ok:
  assumes "(migration_uncached DL inputs ext en
      :: ('id spend_error, external_utxo list \<times> (outpoint \<times> 'e) list) result) = Inr (ext', en')"
  shows "map eu_outpoint ext' = map eu_outpoint ext @ map (cu_outpoint \<circ> fst) inputs
    \<and> (\<forall>op. case map_of en' op of
         Some d \<Rightarrow> (\<exists>u \<in> fst ` set inputs. cu_outpoint u = op \<and> owned_by DL inputs u d)
           \<or> (map_of en op = Some d \<and> op \<notin> cu_outpoint ` fst ` set inputs)
       | None \<Rightarrow> map_of en op = None \<and> op \<notin> cu_outpoint ` fst ` set inputs)"
  using assms
proof (induction inputs arbitrary: ext en)
  case Nil
  then show ?case by (auto split: option.split)
next
  case (Cons p inputs)
  obtain u owner where p: "p = (u, owner)" by (rule prod.exhaust)
  from Cons.prems obtain singles mw d where
    "dl_into_single_descriptors DL (ew_descriptor owner) = Inr singles" and "owner_descriptor DL singles u d"
    and rest: "(migration_uncached DL inputs (ext @ [external_utxo_of u mw]) (AList.update (cu_outpoint u) d en)
      :: ('id spend_error, external_utxo list \<times> (outpoint \<times> 'e) list) result) = Inr (ext', en')"
    by (auto simp: p bindR_Inr definite_at_Inr singles_of_def)
  then have owned: "owned_by DL (p # inputs) u d" unfolding owned_by_def p by auto
  note IH = Cons.IH [OF rest]
  show ?case
  proof (intro conjI allI)
    show "map eu_outpoint ext' = map eu_outpoint ext @ map (cu_outpoint \<circ> fst) (p # inputs)"
      using IH by (simp add: p external_utxo_of_def)
    fix op
    have "case map_of en' op of
         Some d' \<Rightarrow> (\<exists>u \<in> fst ` set inputs. cu_outpoint u = op \<and> owned_by DL inputs u d')
           \<or> (((map_of en)(cu_outpoint u \<mapsto> d)) op = Some d' \<and> op \<notin> cu_outpoint ` fst ` set inputs)
       | None \<Rightarrow> ((map_of en)(cu_outpoint u \<mapsto> d)) op = None \<and> op \<notin> cu_outpoint ` fst ` set inputs"
      using IH [THEN conjunct2, THEN spec, of op] unfolding map_of_update .
    then show "case map_of en' op of
         Some d' \<Rightarrow> (\<exists>u \<in> fst ` set (p # inputs). cu_outpoint u = op \<and> owned_by DL (p # inputs) u d')
           \<or> (map_of en op = Some d' \<and> op \<notin> cu_outpoint ` fst ` set (p # inputs))
       | None \<Rightarrow> map_of en op = None \<and> op \<notin> cu_outpoint ` fst ` set (p # inputs)"
      using owned by (auto simp: p split: option.splits if_splits dest: owned_by_mono)
  qed
qed

lemma prepared_migration:
  assumes "local_update DL upd" and "text_determines DL inputs"
    and loop: "(migration_loop DL inputs [] [] [] :: ('id spend_error, _) result) = Inr (ext, en)"
    and fin: "(finish_blinded DL ps en :: ('id spend_error, _) result) = Inr b"
  shows "map eu_outpoint ext = map (cu_outpoint \<circ> fst) inputs
    \<and> inputs_enriched upd (map fst inputs) (owned_by DL inputs) (ps_inputs ps) (ps_inputs (bp_pset b))
    \<and> ps_outputs (bp_pset b) = ps_outputs ps"
proof -
  have "(migration_uncached DL inputs [] [] :: ('id spend_error, _) result) = Inr (ext, en)"
    using loop migration_cache [OF assms(2) subset_refl, of "[]" "[]" "[]", where 'id = 'id]
    by (simp add: cache_right_def)
  note ok = migration_uncached_ok [OF this]
  have "\<exists>u \<in> set (map fst inputs). cu_outpoint u = op \<and> owned_by DL inputs u d" if "map_of en op = Some d" for op d
    using ok [THEN conjunct2, THEN spec, of op] that by auto
  moreover have "op \<notin> cu_outpoint ` set (map fst inputs)" if "map_of en op = None" for op
    using ok [THEN conjunct2, THEN spec, of op] that by simp
  ultimately have "inputs_enriched upd (map fst inputs) (owned_by DL inputs) (ps_inputs ps) (ps_inputs (bp_pset b))
      \<and> ps_outputs (bp_pset b) = ps_outputs ps"
    using enriched_by_map [OF assms(1) fin, of "map fst inputs" "owned_by DL inputs"] by blast
  then show ?thesis using ok by simp
qed

lemma one_owner_cached:
  assumes "map_of cache (dl_to_string DL (ew_descriptor w)) = Some singles"
    and "max_weight_of DL singles = (Inr mw :: ('id spend_error, nat) result)"
  shows "migration_loop DL (map (\<lambda>u. (u, w)) us) cache ext en
    = (prepare_loop DL singles mw us ext en
        :: ('id spend_error, external_utxo list \<times> (outpoint \<times> 'e) list) result)"
  using assms by (induction us arbitrary: ext en) (simp_all add: Let_def)

lemma one_owner:
  assumes "us \<noteq> []"
  shows "migration_loop DL (map (\<lambda>u. (u, w)) us) [] [] []
    = (bindR (singles_of DL w) (prepare_inputs DL us)
        :: ('id spend_error, external_utxo list \<times> (outpoint \<times> 'e) list) result)"
proof (cases "singles_of DL w :: ('id spend_error, _) result")
  case (Inl f)
  with assms show ?thesis by (cases us) (simp_all add: Let_def)
next
  case singles: (Inr singles)
  show ?thesis
  proof (cases "max_weight_of DL singles :: ('id spend_error, nat) result")
    case (Inl f)
    with assms singles show ?thesis by (cases us) (simp_all add: Let_def prepare_inputs_def)
  next
    case (Inr mw)
    with assms singles show ?thesis
      by (cases us) (simp_all add: Let_def prepare_inputs_def one_owner_cached [OF _ Inr])
  qed
qed

section \<open>Concrete libraries\<close>

text \<open>
  A descriptor is a number, a single-path one adds its chain, a definite one its index; updating an
  input records them as its witness script. The builder collects UTXOs; finishing it makes one
  input for each, a foreign one, and a blinded output.
\<close>

definition ex_update :: "nat \<times> nat \<times> u32 \<Rightarrow> pset_input \<Rightarrow> string + pset_input" where
  "ex_update d inp = (case d of (n, ch, i) \<Rightarrow>
     Inr (inp\<lparr>pi_witness_script := Some (Script [word_of_nat n, word_of_nat ch, ucast i])\<rparr>))"

definition ex_desc :: "(nat, nat \<times> nat, nat \<times> nat \<times> u32) desc_lib" where
  "ex_desc = \<lparr>dl_to_string = dec, dl_into_single_descriptors = (\<lambda>n. Inr [(n, 0), (n, 1)]),
     dl_at_derivation_index = (\<lambda>(n, ch) i. Inr (n, ch, i)), dl_max_weight_to_satisfy = (\<lambda>d. Inr 100),
     dl_update_input = (\<lambda>ps idx d. if idx < length (ps_inputs ps)
        then (case ex_update d (ps_inputs ps ! idx) of Inl e \<Rightarrow> Inl e
              | Inr inp \<Rightarrow> Inr (ps\<lparr>ps_inputs := (ps_inputs ps)[idx := inp]\<rparr>))
        else Inl ''input index out of range'')\<rparr>"

definition ex_input_at :: "outpoint \<Rightarrow> pset_input" where
  "ex_input_at p = (ex_input [])\<lparr>pi_previous_txid := op_txid p, pi_previous_output_index := op_vout p,
     pi_witness_script := None\<rparr>"

definition ex_builder_lib :: "(outpoint list, unit, unit, unit) tx_lib" where
  "ex_builder_lib = \<lparr>tb_new = (\<lambda>n. []), tb_add_external_utxos = (\<lambda>us b. Inr (b @ map eu_outpoint us)),
     tb_add_lbtc_recipient = (\<lambda>a v b. Inr b), tb_drain_lbtc_wallet = (\<lambda>b. b), tb_drain_lbtc_to = (\<lambda>a b. b),
     tb_fee_rate = (\<lambda>f b. b),
     tb_finish = (\<lambda>w b. Inr \<lparr>ps_global = [], ps_inputs = map ex_input_at (b @ [OutPoint (Txid 99) 7]),
       ps_outputs = [ex_output, ex_fee]\<rparr>)\<rparr>"

definition ex_owner :: "nat \<Rightarrow> (nat, unit, unit) elements_wollet" where
  "ex_owner n = \<lparr>ew_inner = (), ew_descriptor = n, ew_master_blinding_key = (),
     ew_network = Liquid, ew_lwk_network = LwkLiquid\<rparr>"

definition ex_coin :: "256 word \<Rightarrow> chain \<Rightarrow> u32 \<Rightarrow> captured_utxo" where
  "ex_coin t ch i = ex_utxo\<lparr>cu_outpoint := OutPoint (Txid t) 0, cu_chain := ch, cu_wildcard_index := i\<rparr>"

lemma ex_local_update: "local_update ex_desc ex_update"
  by (auto simp: local_update_def ex_desc_def ex_update_def prevout_of_def)

section \<open>The properties\<close>

text \<open>
  C21. A spend that is built was built by LWK from exactly the given UTXOs and the given payment;
  then every input spending one of them was updated with the wallet's descriptor at that UTXO's
  own chain and index, every other input and all outputs are as LWK made them, and at least one
  output carries a range proof.
\<close>

theorem spend_inputs_enriched:
  assumes "local_update DL upd"
    and "(build_spend_pset DL TB wollet utxos recipient amount_sat fee_rate :: ('id spend_error, _) result) = Inr b"
  shows "\<exists>singles mw b1 b2 ps. dl_into_single_descriptors DL (ew_descriptor wollet) = Inr singles
    \<and> tb_add_external_utxos TB (map (\<lambda>u. external_utxo_of u mw) utxos) (tb_new TB (ew_lwk_network wollet)) = Inr b1
    \<and> tb_add_lbtc_recipient TB recipient amount_sat b1 = Inr b2
    \<and> tb_finish TB (ew_inner wollet) (tb_fee_rate TB (Some fee_rate) b2) = Inr ps
    \<and> inputs_enriched upd utxos (owner_descriptor DL singles) (ps_inputs ps) (ps_inputs (bp_pset b))
    \<and> ps_outputs (bp_pset b) = ps_outputs ps \<and> (\<exists>out \<in> set (ps_outputs ps). po_value_rangeproof out \<noteq> None)"
proof -
  from assms(2) obtain singles ext en b1 b2 ps where
    "dl_into_single_descriptors DL (ew_descriptor wollet) = Inr singles"
    and prep: "(prepare_inputs DL utxos singles :: ('id spend_error, _) result) = Inr (ext, en)"
    and "tb_add_external_utxos TB ext (tb_new TB (ew_lwk_network wollet)) = Inr b1"
    and "tb_add_lbtc_recipient TB recipient amount_sat b1 = Inr b2"
    and "tb_finish TB (ew_inner wollet) (tb_fee_rate TB (Some fee_rate) b2) = Inr ps"
    and fin: "(finish_blinded DL ps en :: ('id spend_error, _) result) = Inr b"
    by (auto simp: build_spend_pset_def singles_of_def bindR_Inr)
  then show ?thesis using prepared_spend [OF assms(1) prep fin] by blast
qed

theorem spend_inputs_enriched_witness:
  "\<exists>b. (build_spend_pset ex_desc ex_builder_lib (ex_owner 5) [ex_coin 1 External 3, ex_coin 2 Internal 4] () 10 ()
        :: (nat spend_error, _) result) = Inr b
    \<and> map pi_witness_script (ps_inputs (bp_pset b)) = [Some (Script [5, 0, 3]), Some (Script [5, 1, 4]), None]
    \<and> (\<exists>before. inputs_enriched ex_update [ex_coin 1 External 3, ex_coin 2 Internal 4]
          (owner_descriptor ex_desc [(5, 0), (5, 1)]) before (ps_inputs (bp_pset b)))"
proof -
  have run: "(case build_spend_pset ex_desc ex_builder_lib (ex_owner 5) [ex_coin 1 External 3, ex_coin 2 Internal 4] () 10 ()
        :: (nat spend_error, _) result of Inl _ \<Rightarrow> [] | Inr b \<Rightarrow> map pi_witness_script (ps_inputs (bp_pset b)))
    = [Some (Script [5, 0, 3]), Some (Script [5, 1, 4]), None]" by code_simp
  then obtain b where b: "(build_spend_pset ex_desc ex_builder_lib (ex_owner 5)
        [ex_coin 1 External 3, ex_coin 2 Internal 4] () 10 () :: (nat spend_error, _) result) = Inr b"
    by (auto split: sum.splits)
  have "dl_into_single_descriptors ex_desc (ew_descriptor (ex_owner 5)) = Inr [(5, 0), (5, 1)]"
    by (simp add: ex_desc_def ex_owner_def)
  with spend_inputs_enriched [OF ex_local_update b] b run show ?thesis by auto
qed

text \<open>
  C22. When owners with the same descriptor text have the same descriptors, the cache of a migration
  changes nothing: LWK is given every input once and in order, the exact payments in order and the
  fee account as drain, and each of its inputs that spends a given UTXO is updated with the
  descriptor of a wallet that owns that UTXO, at the UTXO's chain and index.
\<close>

theorem migration_inputs_enriched:
  assumes "local_update DL upd" and "text_determines DL inputs"
    and "(build_migration_pset DL TB fee_wollet inputs recipients fee_dest fee_rate :: ('id spend_error, _) result) = Inr b"
  shows "\<exists>ext b1 b2 ps. map eu_outpoint ext = map (cu_outpoint \<circ> fst) inputs
    \<and> tb_add_external_utxos TB ext (tb_new TB (ew_lwk_network fee_wollet)) = Inr b1
    \<and> (add_recipients TB recipients b1 :: ('id spend_error, _) result) = Inr b2
    \<and> tb_finish TB (ew_inner fee_wollet) (tb_fee_rate TB (Some fee_rate)
         (tb_drain_lbtc_to TB fee_dest (tb_drain_lbtc_wallet TB b2))) = Inr ps
    \<and> inputs_enriched upd (map fst inputs) (owned_by DL inputs) (ps_inputs ps) (ps_inputs (bp_pset b))
    \<and> ps_outputs (bp_pset b) = ps_outputs ps"
proof -
  from assms(3) obtain ext en b1 b2 ps where
    loop: "(migration_loop DL inputs [] [] [] :: ('id spend_error, _) result) = Inr (ext, en)"
    and lwk: "tb_add_external_utxos TB ext (tb_new TB (ew_lwk_network fee_wollet)) = Inr b1"
      "(add_recipients TB recipients b1 :: ('id spend_error, _) result) = Inr b2"
      "tb_finish TB (ew_inner fee_wollet) (tb_fee_rate TB (Some fee_rate)
         (tb_drain_lbtc_to TB fee_dest (tb_drain_lbtc_wallet TB b2))) = Inr ps"
    and fin: "(finish_blinded DL ps en :: ('id spend_error, _) result) = Inr b"
    by (auto simp: build_migration_pset_def bindR_Inr)
  from prepared_migration [OF assms(1,2) loop fin] lwk show ?thesis by blast
qed

theorem migration_inputs_enriched_witness:
  "\<exists>b before. (build_migration_pset ex_desc ex_builder_lib (ex_owner 9)
       [(ex_coin 1 External 3, ex_owner 5), (ex_coin 2 Internal 4, ex_owner 6)] [((), 10)] () ()
        :: (nat spend_error, _) result) = Inr b
    \<and> inputs_enriched ex_update [ex_coin 1 External 3, ex_coin 2 Internal 4]
         (owned_by ex_desc [(ex_coin 1 External 3, ex_owner 5), (ex_coin 2 Internal 4, ex_owner 6)])
         before (ps_inputs (bp_pset b))
    \<and> map pi_witness_script (ps_inputs (bp_pset b)) = [Some (Script [5, 0, 3]), Some (Script [6, 1, 4]), None]"
proof -
  let ?inputs = "[(ex_coin 1 External 3, ex_owner 5), (ex_coin 2 Internal 4, ex_owner 6)]"
  have run: "(case build_migration_pset ex_desc ex_builder_lib (ex_owner 9) ?inputs [((), 10)] () ()
        :: (nat spend_error, _) result of Inl _ \<Rightarrow> [] | Inr b \<Rightarrow> map pi_witness_script (ps_inputs (bp_pset b)))
    = [Some (Script [5, 0, 3]), Some (Script [6, 1, 4]), None]" by code_simp
  then obtain b where b: "(build_migration_pset ex_desc ex_builder_lib (ex_owner 9) ?inputs [((), 10)] () ()
        :: (nat spend_error, _) result) = Inr b"
    by (auto split: sum.splits)
  have "text_determines ex_desc ?inputs"
    by (simp add: text_determines_def ex_desc_def)
  from migration_inputs_enriched [OF ex_local_update this b] b run show ?thesis by auto
qed

text \<open>
  C23. A migration of UTXOs of one wallet, with no payments, is a sweep of them by that wallet: the
  two builders give the same PSET or the same error.
\<close>

theorem migration_of_one_wallet_is_sweep:
  assumes "us \<noteq> []"
  shows "build_migration_pset DL TB w (map (\<lambda>u. (u, w)) us) [] dest fee_rate
    = (build_sweep_pset DL TB w us dest fee_rate :: ('id spend_error, blinded_pset) result)"
  unfolding build_migration_pset_def one_owner [OF assms]
  by (simp add: build_sweep_pset_def bindR_def split: sum.split)

theorem migration_of_one_wallet_is_sweep_witness:
  "build_migration_pset ex_desc ex_builder_lib (ex_owner 5) (map (\<lambda>u. (u, ex_owner 5)) [ex_coin 1 External 3]) [] () ()
    = (build_sweep_pset ex_desc ex_builder_lib (ex_owner 5) [ex_coin 1 External 3] () () :: (nat spend_error, _) result)"
  by (rule migration_of_one_wallet_is_sweep) simp

text \<open>
  A UTXO chained from an unconfirmed transaction is the one the scanner would capture from the
  same output, for the same wallet and index, up to the height and the chain: the scanner records
  the chain the script belongs to, the chained UTXO is always recorded as external. Where the
  chained one is refused, the scanner captures nothing.
\<close>

lemma chained_capture_agrees:
  assumes "map_of (eng_index eng) (to_script_pubkey t) = Some e"
    and "eng_wollets eng ! se_wollet_idx e = wollet"
  shows "case captured_from_output L wollet tid (word_of_nat v) t (se_wallet_id e) (se_wildcard_index e) of
      Inr u \<Rightarrow> cu_chain u = External
        \<and> capture_of L eng h tid v t = Some (u\<lparr>cu_height := h, cu_chain := se_chain e\<rparr>)
    | Inl f \<Rightarrow> capture_of L eng h tid v t = None \<and> (\<exists>m. f = Err (SUnblind m))"
  using assms
  by (auto simp: captured_from_output_def capture_of_def unblind_def map_fault_def lib_err_def bindR_def
      split: sum.split)

lemma chained_capture_agrees_witness:
  "\<exists>u. captured_from_output ex_lwk ex_wollet (Txid 8) 0 (ex_out [0, 1] 7) (WalletId [1]) 1 = Inr u
    \<and> capture_of ex_lwk ex_engine 12 (Txid 8) 0 (ex_out [0, 1] 7) = Some (u\<lparr>cu_height := 12, cu_chain := External\<rparr>)"
proof -
  have index: "map_of (eng_index ex_engine) (Script [0, 1])
      = Some \<lparr>se_wallet_id = WalletId [1], se_chain = External, se_wildcard_index = 1, se_wollet_idx = 0\<rparr>"
    by code_simp
  have out: "to_script_pubkey (ex_out [0, 1] 7) = Script [0, 1]" by (simp add: ex_out_def)
  have wollets: "eng_wollets ex_engine ! 0 = ex_wollet" by code_simp
  show ?thesis
    using chained_capture_agrees [where eng = ex_engine and t = "ex_out [0, 1] 7" and L = ex_lwk and h = 12
        and tid = "Txid 8" and v = 0 and wollet = ex_wollet, unfolded out, OF index]
    by (simp add: wollets captured_from_output_def unblind_def ex_lwk_def ex_out_def)
qed

end
