(* ===== verification/Scan_To_Spend.thy ===== *)
theory Scan_To_Spend
  imports Spend_Properties
begin

text \<open>
  From the scanner to a spend: the outputs a wallet lists after any passes are handed to the
  transaction builder. The theorem composes the scan pipeline, the registration of wallets and the
  spend builder: every listed output that the built transaction spends is on the chain and unspent
  there, and its input is enriched with a descriptor that has the output's own script.
\<close>

text \<open>Every indexed script of wallet \<open>i\<close> was registered with the given wollet.\<close>

definition registered_as ::
    "('d, 'k, 'w) scan_engine \<Rightarrow> wallet_id \<Rightarrow> ('d, 'k, 'w) elements_wollet \<Rightarrow> bool" where
  "registered_as eng i wollet \<longleftrightarrow> (\<forall>s e. map_of (eng_index eng) s = Some e \<longrightarrow> se_wallet_id e = i \<longrightarrow>
     eng_wollets eng ! se_wollet_idx e = wollet)"

text \<open>
  LWK and \<open>elements-miniscript\<close> agree on a descriptor: the definite descriptor of a chain and index
  has, by its \<open>script_pubkey\<close>, the script of the address for that chain and index.
\<close>

definition derives_addresses ::
    "('d, 'k, 'w) lwk_lib \<Rightarrow> ('d, 's, 'e) desc_lib \<Rightarrow> ('e \<Rightarrow> script) \<Rightarrow> ('d, 'k, 'w) elements_wollet \<Rightarrow> bool" where
  "derives_addresses L DL spk wollet \<longleftrightarrow> (\<forall>singles u d a.
     dl_into_single_descriptors DL (ew_descriptor wollet) = Inr singles \<longrightarrow> owner_descriptor DL singles u d \<longrightarrow>
     address L wollet (cu_chain u) (cu_wildcard_index u) = Inr a \<longrightarrow> spk d = ad_script_pubkey a)"

text \<open>The output an outpoint refers to.\<close>

definition output_at :: "elements_lib \<Rightarrow> block list \<Rightarrow> outpoint \<Rightarrow> txout \<Rightarrow> bool" where
  "output_at E chain op t \<longleftrightarrow> (\<exists>b \<in> set chain. \<exists>tx \<in> set (blk_txdata b). lib_txid E tx = op_txid op
     \<and> unat (op_vout op) < length (tx_output tx) \<and> tx_output tx ! unat (op_vout op) = t)"

lemma captured_output_at:
  assumes "wf_chain E chain" and "u \<in> captured_in E L eng chain"
  shows "output_at E chain (cu_outpoint u) (cu_txout u)"
proof -
  from assms(2) obtain i t v where i: "i < length chain" and t: "t \<in> set (blk_txdata (chain ! i))"
    and v: "v < length (tx_output t)"
    and u: "capture_of L eng (word_of_nat i) (lib_txid E t) v (tx_output t ! v) = Some u"
    by (auto simp: captured_in_def)
  have "t \<in> set (all_txs chain)" using i t by (auto simp: all_txs_def)
  then have "length (tx_output t) \<le> 2 ^ 32" using wf_txs_outputs assms(1) by (auto simp: wf_chain_def)
  then have "unat (word_of_nat v :: u32) = v" using v by (intro unat_word_of_nat_u32) simp
  moreover have "cu_txout u = tx_output t ! v" using u by (auto simp: capture_of_def split: option.splits sum.splits)
  ultimately show ?thesis
    unfolding output_at_def using capture_of_fields [OF u] i t v
    by (intro bexI [of _ "chain ! i"] bexI [of _ t]) auto
qed

lemma captured_for:
  assumes "index_sound L eng" and "registered_as eng i wollet"
    and "u \<in> captured_in E L eng chain" and "cu_wallet_id u = i"
  shows "\<exists>a. address L wollet (cu_chain u) (cu_wildcard_index u) = Inr a
    \<and> ad_script_pubkey a = to_script_pubkey (cu_txout u)"
proof -
  from assms(3) obtain h tid v t where "capture_of L eng h tid v t = Some u" by (auto simp: captured_in_def)
  then obtain e where e: "map_of (eng_index eng) (to_script_pubkey t) = Some e" "se_wallet_id e = i"
      "cu_chain u = se_chain e" "cu_wildcard_index u = se_wildcard_index e" "cu_txout u = t"
    using assms(4) by (auto simp: capture_of_def split: option.splits sum.splits)
  then have "eng_wollets eng ! se_wollet_idx e = wollet" using assms(2) by (auto simp: registered_as_def)
  with assms(1) e show ?thesis by (fastforce simp: index_sound_def)
qed

text \<open>Every listed UTXO is a coin of the chain whose descriptor has its script.\<close>

lemma listed_coin:
  assumes run: "sync_run E L eng w chain" and built: "engine_built L eng" and reg: "registered_as eng i wollet"
    and list: "mem_list_unspent i (w_utxos w) = (Inr us, s)" and u: "u \<in> set us"
    and law: "derives_addresses L DL spk wollet"
    and singles: "dl_into_single_descriptors DL (ew_descriptor wollet) = Inr singles" "owner_descriptor DL singles u d"
  shows "output_at E chain (cu_outpoint u) (cu_txout u)" and "cu_outpoint u \<notin> spent_in chain"
    and "spk d = to_script_pubkey (cu_txout u)"
proof -
  have eng: "index_sound L eng" "engine_wf eng" using engine_built_sound [OF built] by auto
  note synced = sync_run_synced [OF run eng(2)]
  then have wf: "wf_chain E chain" by (simp add: synced_def)
  have listed: "u \<in> captured_in E L eng chain \<and> cu_wallet_id u = i \<and> cu_outpoint u \<notin> spent_in chain"
    using u synced_lists [OF synced list] by blast
  then show "output_at E chain (cu_outpoint u) (cu_txout u)" "cu_outpoint u \<notin> spent_in chain"
    using captured_output_at [OF wf] by blast+
  obtain a where "address L wollet (cu_chain u) (cu_wildcard_index u) = Inr a"
      "ad_script_pubkey a = to_script_pubkey (cu_txout u)"
    using captured_for [OF eng(1) reg] listed by blast
  then show "spk d = to_script_pubkey (cu_txout u)" using law singles unfolding derives_addresses_def by metis
qed

section \<open>A concrete wallet\<close>

text \<open>
  Descriptor functions that agree with the addresses of \<open>ex_lwk\<close>: a single-path descriptor is the
  number of its chain, and a definite one has the script made of the chain and the index.
\<close>

definition unit_spk :: "nat \<times> u32 \<Rightarrow> script" where
  "unit_spk d = (case d of (ch, i) \<Rightarrow> Script [word_of_nat ch, ucast i])"

definition unit_update :: "nat \<times> u32 \<Rightarrow> pset_input \<Rightarrow> string + pset_input" where
  "unit_update d inp = Inr (inp\<lparr>pi_witness_script := Some (unit_spk d)\<rparr>)"

definition unit_desc :: "(unit, nat, nat \<times> u32) desc_lib" where
  "unit_desc = \<lparr>dl_to_string = (\<lambda>d. ''''), dl_into_single_descriptors = (\<lambda>d. Inr [0, 1]),
     dl_at_derivation_index = (\<lambda>ch i. Inr (ch, i)), dl_max_weight_to_satisfy = (\<lambda>d. Inr 100),
     dl_update_input = (\<lambda>ps idx d. if idx < length (ps_inputs ps)
        then Inr (ps\<lparr>ps_inputs := (ps_inputs ps)[idx := (ps_inputs ps ! idx)\<lparr>pi_witness_script := Some (unit_spk d)\<rparr>]\<rparr>)
        else Inl ''input index out of range'')\<rparr>"

definition scanned_world :: mem_world where
  "scanned_world = snd (mem_sync ex_lib ex_lwk ex_engine (ex_world ex_old))"

definition scanned_coin :: captured_utxo where
  "scanned_coin = \<lparr>cu_wallet_id = WalletId [1], cu_outpoint = OutPoint (Txid 2) 0, cu_txout = ex_out [1, 1] 60,
     cu_secrets = \<lparr>sec_asset = AssetId 7, sec_asset_bf = 0, sec_value = 60, sec_value_bf = 0\<rparr>,
     cu_chain = Internal, cu_wildcard_index = 1, cu_height = 1, cu_is_spent = False\<rparr>"

lemma scanned_run: "sync_run ex_lib ex_lwk ex_engine scanned_world ex_old"
proof -
  have chain: "mcs_chain (w_chain (ex_world ex_old)) = ex_old" by (simp add: ex_world_def)
  have start: "sync_run ex_lib ex_lwk ex_engine (ex_world ex_old) []"
    unfolding ex_world_def by (rule run_start)
  have "\<not> isl (fst (mem_sync ex_lib ex_lwk ex_engine (ex_world ex_old)))" by code_simp
  then obtain x where "fst (mem_sync ex_lib ex_lwk ex_engine (ex_world ex_old)) = Inr x"
    using sum.collapse(2) by metis
  then have "mem_sync ex_lib ex_lwk ex_engine (ex_world ex_old) = (Inr x, scanned_world)"
    unfolding scanned_world_def by (metis prod.collapse)
  then show ?thesis by (rule run_pass [OF start chain ex_wf(1) ex_inj(1) linked_Nil])
qed

lemma scanned_list: "mem_list_unspent (WalletId [1]) (w_utxos scanned_world) = (Inr [scanned_coin], w_utxos scanned_world)"
proof -
  have "fst (mem_list_unspent (WalletId [1]) (w_utxos scanned_world)) = Inr [scanned_coin]" by code_simp
  moreover have "snd (mem_list_unspent (WalletId [1]) (w_utxos scanned_world)) = w_utxos scanned_world"
    by (simp add: mem_list_unspent_def)
  ultimately show ?thesis by (metis prod.collapse)
qed

lemma unit_laws: "local_update unit_desc unit_update" "derives_addresses ex_lwk unit_desc unit_spk ex_wollet"
proof -
  show "local_update unit_desc unit_update"
    by (auto simp: local_update_def unit_desc_def unit_update_def prevout_of_def)
  have "unit_spk d = ad_script_pubkey a"
    if "owner_descriptor unit_desc [0, 1] u d" "address ex_lwk ex_wollet (cu_chain u) (cu_wildcard_index u) = Inr a"
    for u d a
    using that by (cases "cu_chain u")
      (auto simp: owner_descriptor_def unit_desc_def unit_spk_def address_def ex_lwk_def get_at_def)
  then show "derives_addresses ex_lwk unit_desc unit_spk ex_wollet"
    by (auto simp: derives_addresses_def unit_desc_def)
qed

lemma ex_registered: "registered_as ex_engine (WalletId [1]) ex_wollet"
proof -
  have "list_all (\<lambda>p. eng_wollets ex_engine ! se_wollet_idx (snd p) = ex_wollet) (eng_index ex_engine)"
    by code_simp
  then show ?thesis by (fastforce simp: registered_as_def list_all_iff dest: map_of_SomeD)
qed

section \<open>The property\<close>

text \<open>
  After any passes and reorgs, build a spend from UTXOs a wallet lists: every input LWK made for
  one of them spends an output that is on the scanned chain, pays a script of the wallet and is
  spent by no input of the chain, and that input was updated with a definite descriptor whose
  script is the output's.
\<close>

lemma listed_utxos_spendable:
  assumes "sync_run E L eng w chain" and "engine_built L eng" and "registered_as eng i wollet"
    and "mem_list_unspent i (w_utxos w) = (Inr us, s)" and "set utxos \<subseteq> set us"
    and "local_update DL upd" and "derives_addresses L DL spk wollet"
    and "(build_spend_pset DL TB wollet utxos recipient amount_sat fee_rate :: ('id spend_error, _) result) = Inr b"
  shows "\<exists>ps tx. tb_finish TB (ew_inner wollet) tx = Inr ps \<and> length (ps_inputs (bp_pset b)) = length (ps_inputs ps)
    \<and> (\<forall>j < length (ps_inputs ps). prevout_of (ps_inputs ps ! j) \<in> cu_outpoint ` set utxos \<longrightarrow>
        (\<exists>t d. output_at E chain (prevout_of (ps_inputs ps ! j)) t
           \<and> prevout_of (ps_inputs ps ! j) \<notin> spent_in chain \<and> spk d = to_script_pubkey t
           \<and> upd d (ps_inputs ps ! j) = Inr (ps_inputs (bp_pset b) ! j)))"
proof -
  from assms(8) obtain singles ext en b1 b2 ps where
    singles: "dl_into_single_descriptors DL (ew_descriptor wollet) = Inr singles"
    and prep: "(prepare_inputs DL utxos singles :: ('id spend_error, _) result) = Inr (ext, en)"
    and ps: "tb_finish TB (ew_inner wollet) (tb_fee_rate TB (Some fee_rate) b2) = Inr ps"
    and fin: "(finish_blinded DL ps en :: ('id spend_error, _) result) = Inr b"
    by (auto simp: build_spend_pset_def singles_of_def bindR_Inr)
  have enriched: "inputs_enriched upd utxos (owner_descriptor DL singles) (ps_inputs ps) (ps_inputs (bp_pset b))"
    using prepared_spend [OF assms(6) prep fin] by blast
  have "\<exists>t d. output_at E chain (prevout_of (ps_inputs ps ! j)) t
      \<and> prevout_of (ps_inputs ps ! j) \<notin> spent_in chain \<and> spk d = to_script_pubkey t
      \<and> upd d (ps_inputs ps ! j) = Inr (ps_inputs (bp_pset b) ! j)"
    if j: "j < length (ps_inputs ps)" "prevout_of (ps_inputs ps ! j) \<in> cu_outpoint ` set utxos" for j
  proof -
    from j enriched obtain u d where u: "u \<in> set utxos" "cu_outpoint u = prevout_of (ps_inputs ps ! j)"
        "owner_descriptor DL singles u d" "upd d (ps_inputs ps ! j) = Inr (ps_inputs (bp_pset b) ! j)"
      unfolding inputs_enriched_def by blast
    with listed_coin [OF assms(1-4) subsetD [OF assms(5) u(1)] assms(7) singles u(3)] show ?thesis by metis
  qed
  then show ?thesis using ps enriched unfolding inputs_enriched_def by blast
qed

lemma listed_utxos_spendable_witness:
  "\<exists>b ps tx. (build_spend_pset unit_desc ex_builder_lib ex_wollet [scanned_coin] () 10 ()
        :: (nat spend_error, _) result) = Inr b
    \<and> map pi_witness_script (ps_inputs (bp_pset b)) = [Some (Script [1, 1]), None]
    \<and> tb_finish ex_builder_lib () tx = Inr ps \<and> length (ps_inputs ps) = 2"
proof -
  have run: "(case build_spend_pset unit_desc ex_builder_lib ex_wollet [scanned_coin] () 10 ()
        :: (nat spend_error, _) result of Inl _ \<Rightarrow> [] | Inr b \<Rightarrow> map pi_witness_script (ps_inputs (bp_pset b)))
    = [Some (Script [1, 1]), None]" by code_simp
  then obtain b where b: "(build_spend_pset unit_desc ex_builder_lib ex_wollet [scanned_coin] () 10 ()
        :: (nat spend_error, _) result) = Inr b"
    by (auto split: sum.splits)
  then have inputs: "map pi_witness_script (ps_inputs (bp_pset b)) = [Some (Script [1, 1]), None]" using run by simp
  have "set [scanned_coin] \<subseteq> set [scanned_coin]" by simp
  from listed_utxos_spendable [OF scanned_run ex_engine_built ex_registered scanned_list this unit_laws b]
  obtain ps tx where "tb_finish ex_builder_lib () tx = Inr ps" "length (ps_inputs (bp_pset b)) = length (ps_inputs ps)"
    by (auto simp: ex_wollet_def)
  moreover have "length (ps_inputs (bp_pset b)) = 2" using inputs by (metis length_map length_Cons list.size(3) numeral_2_eq_2)
  ultimately show ?thesis using b inputs by metis
qed

end
