(* ===== verification/Testkit.thy ===== *)
theory Testkit
  imports Coordinator
begin

text \<open>
  \<open>SoftwareSigner\<close> of \<open>src/testkit.rs\<close>: the in-process signer that implements both signer traits,
  and with it the behaviour a hardware signer is to have. Key derivation, ECDSA and the sighash are
  functions of other crates, parameters in \<open>key_lib\<close>; \<open>'xp\<close> is an extended private key.
\<close>

datatype sighash = EcdsaSighash "u8 list" | TapSighash "u8 list"

record ('id, 'xp, 'x) key_lib =
  kl_new_master :: "u8 list \<Rightarrow> string + 'xp"
  kl_parse_path :: "string \<Rightarrow> string + child_number list"
  kl_derive_priv :: "'xp \<Rightarrow> child_number list \<Rightarrow> string + 'xp"
  kl_xpub :: "'xp \<Rightarrow> 'x"
  kl_fingerprint :: "'xp \<Rightarrow> fingerprint"
  kl_id_of_fingerprint :: "fingerprint \<Rightarrow> 'id"
  kl_genesis_hash :: "lwk_network \<Rightarrow> block_hash"
  kl_extract_tx :: "pset \<Rightarrow> string + transaction"
  kl_sighash_msg :: "pset \<Rightarrow> nat \<Rightarrow> transaction \<Rightarrow> block_hash \<Rightarrow> string + sighash"
  kl_sign_der :: "u8 list \<Rightarrow> 'xp \<Rightarrow> u8 list"

record ('id, 'xp, 'x) software_signer =
  ss_master :: 'xp
  ss_path :: "child_number list"
  ss_xpub :: 'x
  ss_fingerprint :: fingerprint
  ss_id :: 'id
  ss_genesis :: block_hash

section \<open>Construction\<close>

text \<open>The literal \<open>m/48'/1'/0'/2'\<close>.\<close>

definition signer_path :: string where
  "signer_path = concat (map (\<lambda>s. s @ [CHR 0x27]) [''m/48'', ''/1'', ''/0'', ''/2''])"

definition new_with_seed_bytes ::
    "('id, 'xp, 'x) key_lib \<Rightarrow> u8 list \<Rightarrow> lwk_network \<Rightarrow> ('e, ('id, 'xp, 'x) software_signer) result" where
  "new_with_seed_bytes K seed_bytes lwk_net =
     (case kl_new_master K seed_bytes of
        Inl _ \<Rightarrow> Inl (Panic ''valid master'')
      | Inr master \<Rightarrow>
          (case kl_parse_path K signer_path of
             Inl _ \<Rightarrow> Inl (Panic ''valid path'')
           | Inr path \<Rightarrow>
               (case kl_derive_priv K master path of
                  Inl _ \<Rightarrow> Inl (Panic ''derive'')
                | Inr derived \<Rightarrow> Inr
                    \<lparr>ss_master = master, ss_path = path, ss_xpub = kl_xpub K derived,
                     ss_fingerprint = kl_fingerprint K master,
                     ss_id = kl_id_of_fingerprint K (kl_fingerprint K master),
                     ss_genesis = kl_genesis_hash K lwk_net\<rparr>)))"

definition new_with_lwk ::
    "('id, 'xp, 'x) key_lib \<Rightarrow> u8 \<Rightarrow> lwk_network \<Rightarrow> ('e, ('id, 'xp, 'x) software_signer) result" where
  "new_with_lwk K seed lwk_net = new_with_seed_bytes K ((replicate 32 0)[0 := seed, 1 := 0x5a]) lwk_net"

definition software_new ::
    "('id, 'xp, 'x) key_lib \<Rightarrow> lwk_network \<Rightarrow> u8 \<Rightarrow> elements_network \<Rightarrow> ('e, ('id, 'xp, 'x) software_signer) result" where
  "software_new K default_regtest seed network = new_with_lwk K seed (to_lwk default_regtest network)"

text \<open>The methods of \<open>Signer\<close> that this crate calls, and the networks the signer claims.\<close>

definition software_signer_info :: "('id, 'xp, 'x) software_signer \<Rightarrow> ('id, 'x) signer_info" where
  "software_signer_info s = \<lparr>sg_id = ss_id s, sg_fingerprint = ss_fingerprint s,
     sg_derivation_path = ss_path s, sg_xpub = ss_xpub s\<rparr>"

definition software_label :: "('id, 'xp, 'x) software_signer \<Rightarrow> string option" where
  "software_label s = None"

definition software_supported_networks :: "('id, 'xp, 'x) software_signer \<Rightarrow> network_type list" where
  "software_supported_networks s = [NT_Elements IdElementsRegtest]"

text \<open>
  The constants of the \<open>Signer\<close> trait. Their types belong to \<open>emvault-core\<close>: the constructors the
  source names, and the smart constructor \<open>p2wsh_only\<close> and the type of times as parameters.
\<close>

datatype signer_type = ExternalSigner

datatype transport_type = Usb

record 't signer_health =
  sh_reachable :: bool
  sh_firmware_version :: "string option"
  sh_last_seen :: "'t option"

definition software_signer_type :: "('id, 'xp, 'x) software_signer \<Rightarrow> signer_type" where
  "software_signer_type s = ExternalSigner"

definition software_capabilities ::
    "(transport_type list \<Rightarrow> 'caps) \<Rightarrow> ('id, 'xp, 'x) software_signer \<Rightarrow> 'caps" where
  "software_capabilities p2wsh_only s = p2wsh_only [Usb]"

definition software_health_check :: "('id, 'xp, 'x) software_signer \<Rightarrow> ('e, 't signer_health) result" where
  "software_health_check s = Inr \<lparr>sh_reachable = True, sh_firmware_version = None, sh_last_seen = None\<rparr>"

section \<open>Signing\<close>

definition insert_partial_sig :: "nat \<Rightarrow> pubkey \<Rightarrow> u8 list \<Rightarrow> pset \<Rightarrow> pset" where
  "insert_partial_sig idx pk ser ps = ps\<lparr>ps_inputs := (ps_inputs ps)[idx :=
     (ps_inputs ps ! idx)\<lparr>pi_partial_sigs := AList.update pk ser (pi_partial_sigs (ps_inputs ps ! idx))\<rparr>]\<rparr>"

text \<open>The keys of an input whose origin names this signer, with their full paths.\<close>

definition own_keys :: "('id, 'xp, 'x) software_signer \<Rightarrow> pset_input \<Rightarrow> (pubkey \<times> child_number list) list" where
  "own_keys s inp = map (\<lambda>(pk, (fp, path)). (pk, path))
     (filter (\<lambda>(pk, (fp, path)). fp = ss_fingerprint s) (pi_bip32_derivation inp))"

fun sign_keys ::
    "('id, 'xp, 'x) key_lib \<Rightarrow> ('id, 'xp, 'x) software_signer \<Rightarrow> u8 list \<Rightarrow> nat
     \<Rightarrow> (pubkey \<times> child_number list) list \<Rightarrow> pset \<Rightarrow> nat \<Rightarrow> ('i pset_error, nat) result \<times> pset" where
  "sign_keys K s message idx [] ps signed_count = (Inr signed_count, ps)"
| "sign_keys K s message idx ((pk, full_path) # mine) ps signed_count =
     (case kl_derive_priv K (ss_master s) full_path of
        Inl e \<Rightarrow> (Inl (Err (SignerBackend e)), ps)
      | Inr child \<Rightarrow>
          sign_keys K s message idx mine
            (insert_partial_sig idx pk (kl_sign_der K message child @ [1]) ps) (signed_count + 1))"

text \<open>The loop over the input numbers still to do; \<open>tx\<close> is what the sighash cache was made of.\<close>

fun sign_inputs ::
    "('id, 'xp, 'x) key_lib \<Rightarrow> ('id, 'xp, 'x) software_signer \<Rightarrow> transaction \<Rightarrow> nat list \<Rightarrow> pset \<Rightarrow> nat
     \<Rightarrow> ('i pset_error, nat) result \<times> pset" where
  "sign_inputs K s tx [] ps signed_count = (Inr signed_count, ps)"
| "sign_inputs K s tx (idx # rest) ps signed_count =
     (case kl_sighash_msg K ps idx tx (ss_genesis s) of
        Inl e \<Rightarrow> (Inl (Err (Elements e)), ps)
      | Inr (TapSighash _) \<Rightarrow> sign_inputs K s tx rest ps signed_count
      | Inr (EcdsaSighash message) \<Rightarrow>
          (case sign_keys K s message idx (own_keys s (ps_inputs ps ! idx)) ps signed_count of
             (Inl e, ps') \<Rightarrow> (Inl e, ps')
           | (Inr signed_count', ps') \<Rightarrow> sign_inputs K s tx rest ps' signed_count'))"

definition sign_pset ::
    "('id, 'xp, 'x) key_lib \<Rightarrow> ('id, 'xp, 'x) software_signer \<Rightarrow> (pset, 'i pset_error, nat) act" where
  "sign_pset K s ps =
     (case kl_extract_tx K ps of
        Inl e \<Rightarrow> (Inl (Err (Elements e)), ps)
      | Inr tx \<Rightarrow> sign_inputs K s tx [0 ..< length (ps_inputs ps)] ps 0)"

section \<open>What signing does\<close>

definition without_sigs :: "pset \<Rightarrow> pset" where
  "without_sigs ps = ps\<lparr>ps_inputs := map (\<lambda>i. i\<lparr>pi_partial_sigs := []\<rparr>) (ps_inputs ps)\<rparr>"

text \<open>
  What the Elements sighash documents: it is made of the transaction, the previous outputs and the
  scripts, not of signatures. Neither is the extracted transaction.
\<close>

definition sighash_ignores_sigs :: "('id, 'xp, 'x) key_lib \<Rightarrow> bool" where
  "sighash_ignores_sigs K \<longleftrightarrow>
     (\<forall>ps i tx g. kl_sighash_msg K (without_sigs ps) i tx g = kl_sighash_msg K ps i tx g)
     \<and> (\<forall>ps. kl_extract_tx K (without_sigs ps) = kl_extract_tx K ps)"

definition sig_of :: "('id, 'xp, 'x) key_lib \<Rightarrow> ('id, 'xp, 'x) software_signer \<Rightarrow> u8 list \<Rightarrow> child_number list \<Rightarrow> u8 list" where
  "sig_of K s message path = (case kl_derive_priv K (ss_master s) path of
     Inl _ \<Rightarrow> [] | Inr child \<Rightarrow> kl_sign_der K message child @ [1])"

fun add_sigs ::
    "('id, 'xp, 'x) key_lib \<Rightarrow> ('id, 'xp, 'x) software_signer \<Rightarrow> u8 list
     \<Rightarrow> (pubkey \<times> child_number list) list \<Rightarrow> pset_input \<Rightarrow> pset_input" where
  "add_sigs K s message [] inp = inp"
| "add_sigs K s message ((pk, path) # mine) inp = add_sigs K s message mine
     (inp\<lparr>pi_partial_sigs := AList.update pk (sig_of K s message path) (pi_partial_sigs inp)\<rparr>)"

text \<open>An input after this signer has been over it.\<close>

definition signed_input ::
    "('id, 'xp, 'x) key_lib \<Rightarrow> ('id, 'xp, 'x) software_signer \<Rightarrow> transaction \<Rightarrow> pset \<Rightarrow> nat \<Rightarrow> pset_input" where
  "signed_input K s tx ps j = (case kl_sighash_msg K ps j tx (ss_genesis s) of
     Inr (EcdsaSighash message) \<Rightarrow> add_sigs K s message (own_keys s (ps_inputs ps ! j)) (ps_inputs ps ! j)
   | _ \<Rightarrow> ps_inputs ps ! j)"

definition signature_count ::
    "('id, 'xp, 'x) key_lib \<Rightarrow> ('id, 'xp, 'x) software_signer \<Rightarrow> transaction \<Rightarrow> pset \<Rightarrow> nat \<Rightarrow> nat" where
  "signature_count K s tx ps j = (case kl_sighash_msg K ps j tx (ss_genesis s) of
     Inr (EcdsaSighash message) \<Rightarrow> length (own_keys s (ps_inputs ps ! j)) | _ \<Rightarrow> 0)"

lemma add_sigs_rest: "\<exists>sigs. add_sigs K s m mine inp = inp\<lparr>pi_partial_sigs := sigs\<rparr>"
proof (induction mine arbitrary: inp)
  case Nil
  have "inp = inp\<lparr>pi_partial_sigs := pi_partial_sigs inp\<rparr>" by simp
  then show ?case by (metis add_sigs.simps(1))
next
  case (Cons p mine)
  obtain pk path where "p = (pk, path)" by (rule prod.exhaust)
  with Cons [of "inp\<lparr>pi_partial_sigs := AList.update pk (sig_of K s m path) (pi_partial_sigs inp)\<rparr>"]
  show ?case by auto
qed

lemma without_add_sigs [simp]:
  "(add_sigs K s m mine inp)\<lparr>pi_partial_sigs := []\<rparr> = inp\<lparr>pi_partial_sigs := []\<rparr>"
  using add_sigs_rest [of K s m mine inp] by auto

lemma add_sigs_map:
  assumes "distinct (map fst mine)"
  shows "map_of (pi_partial_sigs (add_sigs K s m mine inp)) pk =
    (case map_of mine pk of Some path \<Rightarrow> Some (sig_of K s m path) | None \<Rightarrow> map_of (pi_partial_sigs inp) pk)"
  using assms
proof (induction mine arbitrary: inp)
  case (Cons p mine)
  obtain pk' path where p: "p = (pk', path)" by (rule prod.exhaust)
  with Cons.prems have "map_of mine pk' = None" by (simp add: map_of_eq_None_iff)
  with p Cons show ?case by (auto split: option.split)
qed simp

lemma without_update:
  "i < length (ps_inputs ps) \<Longrightarrow> inp\<lparr>pi_partial_sigs := []\<rparr> = (ps_inputs ps ! i)\<lparr>pi_partial_sigs := []\<rparr> \<Longrightarrow>
   without_sigs (ps\<lparr>ps_inputs := (ps_inputs ps)[i := inp]\<rparr>) = without_sigs ps"
  by (simp add: without_sigs_def map_update list_update_same_conv)

lemma sign_keys_ok:
  assumes "(sign_keys K s m i mine ps n :: ('i pset_error, nat) result \<times> pset) = (Inr n', ps')"
    and "i < length (ps_inputs ps)"
  shows "n' = n + length mine
    \<and> ps' = ps\<lparr>ps_inputs := (ps_inputs ps)[i := add_sigs K s m mine (ps_inputs ps ! i)]\<rparr>"
  using assms
proof (induction mine arbitrary: ps n)
  case (Cons p mine)
  obtain pk path where p: "p = (pk, path)" by (rule prod.exhaust)
  from Cons.prems p obtain child where child: "kl_derive_priv K (ss_master s) path = Inr child"
    and rest: "(sign_keys K s m i mine (insert_partial_sig i pk (kl_sign_der K m child @ [1]) ps) (n + 1)
      :: ('i pset_error, nat) result \<times> pset) = (Inr n', ps')"
    by (auto split: sum.splits)
  from Cons.IH [OF rest] Cons.prems(2) child p show ?case
    by (simp add: insert_partial_sig_def sig_of_def)
qed simp

lemma sign_keys_returns:
  assumes "\<forall>(pk, path) \<in> set mine. \<exists>child. kl_derive_priv K (ss_master s) path = Inr child"
  shows "\<exists>n' ps'. (sign_keys K s m i mine ps n :: ('i pset_error, nat) result \<times> pset) = (Inr n', ps')"
  using assms by (induction mine arbitrary: ps n) (auto split: sum.split)

lemma own_keys_without [simp]: "own_keys s (inp\<lparr>pi_partial_sigs := x\<rparr>) = own_keys s inp"
  by (simp add: own_keys_def)

lemma sighash_without:
  "sighash_ignores_sigs K \<Longrightarrow> without_sigs ps = without_sigs ps' \<Longrightarrow>
   kl_sighash_msg K ps i tx g = kl_sighash_msg K ps' i tx g"
  unfolding sighash_ignores_sigs_def by metis

lemma length_without: "without_sigs ps = without_sigs ps' \<Longrightarrow> length (ps_inputs ps) = length (ps_inputs ps')"
  unfolding without_sigs_def by (metis (no_types, lifting) length_map pset.ext_inject pset.surjective pset.update_convs(2))

lemma signed_input_stable:
  assumes "sighash_ignores_sigs K" and "without_sigs ps = without_sigs ps'" and "ps_inputs ps ! j = ps_inputs ps' ! j"
  shows "signed_input K s tx ps j = signed_input K s tx ps' j"
    and "signature_count K s tx ps j = signature_count K s tx ps' j"
  unfolding signed_input_def signature_count_def sighash_without [OF assms(1,2)] assms(3) by (rule refl)+

text \<open>One step of the loop, whatever the sighash kind.\<close>

lemma sign_inputs_step:
  assumes "(sign_inputs K s tx (i # is) ps n :: ('i pset_error, nat) result \<times> pset) = (Inr n', ps')"
    and "i < length (ps_inputs ps)"
  obtains ps1 where "(sign_inputs K s tx is ps1 (n + signature_count K s tx ps i)
      :: ('i pset_error, nat) result \<times> pset) = (Inr n', ps')"
    and "ps1 = ps\<lparr>ps_inputs := (ps_inputs ps)[i := signed_input K s tx ps i]\<rparr>"
    and "without_sigs ps1 = without_sigs ps"
proof -
  from assms(1) obtain sh where sh: "kl_sighash_msg K ps i tx (ss_genesis s) = Inr sh"
    by (auto split: sum.splits)
  show ?thesis
  proof (cases sh)
    case (TapSighash x)
    with assms(1) sh show ?thesis
      by (intro that [of ps]) (simp_all add: signature_count_def signed_input_def)
  next
    case (EcdsaSighash m)
    from assms(1) sh EcdsaSighash obtain n1 ps1 where
      keys: "(sign_keys K s m i (own_keys s (ps_inputs ps ! i)) ps n :: ('i pset_error, nat) result \<times> pset) = (Inr n1, ps1)"
      and rest: "(sign_inputs K s tx is ps1 n1 :: ('i pset_error, nat) result \<times> pset) = (Inr n', ps')"
      by (auto split: prod.splits sum.splits)
    note ok = sign_keys_ok [OF keys assms(2)]
    show ?thesis
    proof (rule that [of ps1])
      show "(sign_inputs K s tx is ps1 (n + signature_count K s tx ps i)
          :: ('i pset_error, nat) result \<times> pset) = (Inr n', ps')"
        using ok rest sh EcdsaSighash by (simp add: signature_count_def)
      show ps1: "ps1 = ps\<lparr>ps_inputs := (ps_inputs ps)[i := signed_input K s tx ps i]\<rparr>"
        using ok sh EcdsaSighash by (simp add: signed_input_def)
      show "without_sigs ps1 = without_sigs ps"
        unfolding ps1 using assms(2) sh EcdsaSighash
        by (intro without_update) (simp_all add: signed_input_def)
    qed
  qed
qed

lemma sign_inputs_ok:
  assumes K: "sighash_ignores_sigs K"
    and "(sign_inputs K s tx idxs ps n :: ('i pset_error, nat) result \<times> pset) = (Inr n', ps')"
    and "distinct idxs" and "\<forall>i \<in> set idxs. i < length (ps_inputs ps)"
  shows "n' = n + sum_list (map (signature_count K s tx ps) idxs) \<and> without_sigs ps' = without_sigs ps
    \<and> (\<forall>j < length (ps_inputs ps). ps_inputs ps' ! j =
         (if j \<in> set idxs then signed_input K s tx ps j else ps_inputs ps ! j))"
  using assms(2-)
proof (induction idxs arbitrary: ps n)
  case (Cons i idxs)
  from Cons.prems(3) have i: "i < length (ps_inputs ps)" by simp
  from sign_inputs_step [OF Cons.prems(1) i] obtain ps1 where
    rest: "(sign_inputs K s tx idxs ps1 (n + signature_count K s tx ps i)
      :: ('i pset_error, nat) result \<times> pset) = (Inr n', ps')"
    and ps1: "ps1 = ps\<lparr>ps_inputs := (ps_inputs ps)[i := signed_input K s tx ps i]\<rparr>"
    and without: "without_sigs ps1 = without_sigs ps" .
  have len: "length (ps_inputs ps1) = length (ps_inputs ps)" using ps1 by simp
  have same: "ps_inputs ps1 ! j = ps_inputs ps ! j" if "j \<noteq> i" for j using ps1 that by simp
  have other: "j \<noteq> i" if "j \<in> set idxs" for j using Cons.prems(2) that by auto
  note stable = signed_input_stable [OF K without same]
  have IH: "n' = n + signature_count K s tx ps i + sum_list (map (signature_count K s tx ps1) idxs)
      \<and> without_sigs ps' = without_sigs ps1
      \<and> (\<forall>j < length (ps_inputs ps). ps_inputs ps' ! j =
           (if j \<in> set idxs then signed_input K s tx ps1 j else ps_inputs ps1 ! j))"
    using Cons.IH [OF rest] Cons.prems(2,3) len by simp
  have counts: "map (signature_count K s tx ps1) idxs = map (signature_count K s tx ps) idxs"
    using stable(2) other by simp
  have "n' = n + sum_list (map (signature_count K s tx ps) (i # idxs))"
    using IH [THEN conjunct1] unfolding counts by simp
  moreover have "ps_inputs ps' ! j = (if j \<in> set (i # idxs) then signed_input K s tx ps j else ps_inputs ps ! j)"
    if j: "j < length (ps_inputs ps)" for j
  proof (cases "j \<in> set idxs")
    case True
    then show ?thesis using IH j stable(1) other by simp
  next
    case False
    then have "ps_inputs ps' ! j = ps_inputs ps1 ! j" using IH j by simp
    then show ?thesis using False i ps1 by (cases "j = i") simp_all
  qed
  ultimately show ?case using IH without by simp
qed simp

lemma sign_pset_ok:
  assumes "sighash_ignores_sigs K" and "sign_pset K s ps = (Inr n :: ('i pset_error, nat) result, ps')"
  obtains tx where "kl_extract_tx K ps = Inr tx"
    and "n = sum_list (map (signature_count K s tx ps) [0 ..< length (ps_inputs ps)])"
    and "without_sigs ps' = without_sigs ps"
    and "\<And>j. j < length (ps_inputs ps) \<Longrightarrow> ps_inputs ps' ! j = signed_input K s tx ps j"
proof -
  from assms(2) obtain tx where tx: "kl_extract_tx K ps = Inr tx"
    and loop: "(sign_inputs K s tx [0 ..< length (ps_inputs ps)] ps 0 :: ('i pset_error, nat) result \<times> pset) = (Inr n, ps')"
    by (auto simp: sign_pset_def split: sum.splits)
  from sign_inputs_ok [OF assms(1) loop] tx show ?thesis by (intro that) simp_all
qed

lemma input_without:
  assumes "without_sigs ps = without_sigs ps'" and "j < length (ps_inputs ps)"
  shows "(ps_inputs ps ! j)\<lparr>pi_partial_sigs := []\<rparr> = (ps_inputs ps' ! j)\<lparr>pi_partial_sigs := []\<rparr>"
proof -
  have "map (\<lambda>i. i\<lparr>pi_partial_sigs := []\<rparr>) (ps_inputs ps) = map (\<lambda>i. i\<lparr>pi_partial_sigs := []\<rparr>) (ps_inputs ps')"
    using arg_cong [OF assms(1), of ps_inputs] by (simp add: without_sigs_def)
  from arg_cong [OF this, of "\<lambda>l. l ! j"] length_without [OF assms(1)] assms(2) show ?thesis by simp
qed

lemma own_keys_stable:
  "without_sigs ps = without_sigs ps' \<Longrightarrow> j < length (ps_inputs ps) \<Longrightarrow>
   own_keys s (ps_inputs ps ! j) = own_keys s (ps_inputs ps' ! j)"
  by (metis input_without own_keys_without)

section \<open>A signer that can sign every input\<close>

text \<open>
  Nothing the signer needs is missing: every input is to be signed with ECDSA by at least one of
  its keys, the keys derive, and what it signs is valid (\<open>valid\<close>, for an input number, a key and
  a signature, is the verification the network will do).
\<close>

definition signer_ready ::
    "('id, 'xp, 'x) key_lib \<Rightarrow> (nat \<Rightarrow> pubkey \<Rightarrow> u8 list \<Rightarrow> bool) \<Rightarrow> pset \<Rightarrow> ('id, 'xp, 'x) software_signer \<Rightarrow> bool" where
  "signer_ready K valid ps s \<longleftrightarrow> (\<exists>tx. kl_extract_tx K ps = Inr tx \<and> (\<forall>i < length (ps_inputs ps).
     \<exists>message. kl_sighash_msg K ps i tx (ss_genesis s) = Inr (EcdsaSighash message)
       \<and> own_keys s (ps_inputs ps ! i) \<noteq> [] \<and> distinct (map fst (own_keys s (ps_inputs ps ! i)))
       \<and> (\<forall>(pk, path) \<in> set (own_keys s (ps_inputs ps ! i)). \<exists>child. kl_derive_priv K (ss_master s) path = Inr child
            \<and> valid i pk (kl_sign_der K message child @ [1]))))"

text \<open>Less than that: there may be inputs the signer has no key for.\<close>

definition signer_able ::
    "('id, 'xp, 'x) key_lib \<Rightarrow> (nat \<Rightarrow> pubkey \<Rightarrow> u8 list \<Rightarrow> bool) \<Rightarrow> pset \<Rightarrow> ('id, 'xp, 'x) software_signer \<Rightarrow> bool" where
  "signer_able K valid ps s \<longleftrightarrow> (\<exists>tx. kl_extract_tx K ps = Inr tx \<and> (\<forall>i < length (ps_inputs ps).
     \<exists>message. kl_sighash_msg K ps i tx (ss_genesis s) = Inr (EcdsaSighash message)
       \<and> distinct (map fst (own_keys s (ps_inputs ps ! i)))
       \<and> (\<forall>(pk, path) \<in> set (own_keys s (ps_inputs ps ! i)). \<exists>child. kl_derive_priv K (ss_master s) path = Inr child
            \<and> valid i pk (kl_sign_der K message child @ [1]))))"

lemma signer_ready_iff:
  "signer_ready K valid ps s \<longleftrightarrow> signer_able K valid ps s \<and> (\<forall>inp \<in> set (ps_inputs ps). own_keys s inp \<noteq> [])"
  unfolding signer_ready_def signer_able_def all_set_conv_all_nth by blast

lemma signer_able_stable:
  assumes K: "sighash_ignores_sigs K" and same: "without_sigs ps = without_sigs ps'" and "signer_able K valid ps s"
  shows "signer_able K valid ps' s"
proof -
  have "kl_extract_tx K ps' = kl_extract_tx K ps" using K same unfolding sighash_ignores_sigs_def by metis
  moreover have "own_keys s (ps_inputs ps' ! i) = own_keys s (ps_inputs ps ! i)" if "i < length (ps_inputs ps')" for i
    using length_without [OF same] that by (intro own_keys_stable [OF same, symmetric]) simp
  ultimately show ?thesis
    using assms(3) sighash_without [OF K same] length_without [OF same] unfolding signer_able_def by simp
qed

lemma signer_ready_stable:
  assumes "sighash_ignores_sigs K" and same: "without_sigs ps = without_sigs ps'" and "signer_ready K valid ps s"
  shows "signer_ready K valid ps' s"
proof -
  have "own_keys s (ps_inputs ps' ! i) = own_keys s (ps_inputs ps ! i)" if "i < length (ps_inputs ps')" for i
    using length_without [OF same] that by (intro own_keys_stable [OF same, symmetric]) simp
  then show ?thesis
    using assms(3) signer_able_stable [OF assms(1) same] length_without [OF same]
    by (simp add: signer_ready_iff all_set_conv_all_nth)
qed

lemma sign_inputs_returns:
  assumes K: "sighash_ignores_sigs K" and "\<forall>i \<in> set idxs. i < length (ps_inputs ps)
    \<and> (\<exists>message. kl_sighash_msg K ps i tx (ss_genesis s) = Inr (EcdsaSighash message))
    \<and> (\<forall>(pk, path) \<in> set (own_keys s (ps_inputs ps ! i)). \<exists>child. kl_derive_priv K (ss_master s) path = Inr child)"
  shows "\<exists>n' ps'. (sign_inputs K s tx idxs ps n :: ('i pset_error, nat) result \<times> pset) = (Inr n', ps')"
  using assms(2)
proof (induction idxs arbitrary: ps n)
  case (Cons i idxs)
  then obtain message where m: "kl_sighash_msg K ps i tx (ss_genesis s) = Inr (EcdsaSighash message)"
    and i: "i < length (ps_inputs ps)"
    and derive: "\<forall>(pk, path) \<in> set (own_keys s (ps_inputs ps ! i)). \<exists>child. kl_derive_priv K (ss_master s) path = Inr child"
    by auto
  from sign_keys_returns [OF derive] obtain n1 ps1 where
    keys: "(sign_keys K s message i (own_keys s (ps_inputs ps ! i)) ps n :: ('i pset_error, nat) result \<times> pset) = (Inr n1, ps1)"
    by blast
  have same: "without_sigs ps1 = without_sigs ps"
    using sign_keys_ok [OF keys i] without_update [OF i] by simp
  have "\<exists>n' ps'. (sign_inputs K s tx idxs ps1 n1 :: ('i pset_error, nat) result \<times> pset) = (Inr n', ps')"
  proof (rule Cons.IH, intro ballI)
    fix k assume k: "k \<in> set idxs"
    then have len: "k < length (ps_inputs ps1)" using Cons.prems length_without [OF same] by simp
    show "k < length (ps_inputs ps1)
      \<and> (\<exists>message. kl_sighash_msg K ps1 k tx (ss_genesis s) = Inr (EcdsaSighash message))
      \<and> (\<forall>(pk, path) \<in> set (own_keys s (ps_inputs ps1 ! k)). \<exists>child. kl_derive_priv K (ss_master s) path = Inr child)"
      unfolding own_keys_stable [OF same len] sighash_without [OF K same] using Cons.prems k len by simp
  qed
  then show ?case using m keys by simp
qed simp

text \<open>One call to such a signer.\<close>

lemma able_signs:
  assumes K: "sighash_ignores_sigs K" and able: "signer_able K valid ps s"
    and old: "\<forall>j < length (ps_inputs ps). \<forall>pk sig. map_of (pi_partial_sigs (ps_inputs ps ! j)) pk = Some sig \<longrightarrow> valid j pk sig"
  obtains n ps' where "sign_pset K s ps = (Inr n :: ('i pset_error, nat) result, ps')"
    and "without_sigs ps' = without_sigs ps"
    and "\<forall>j < length (ps_inputs ps). \<forall>pk sig. map_of (pi_partial_sigs (ps_inputs ps' ! j)) pk = Some sig \<longrightarrow> valid j pk sig"
    and "\<forall>j < length (ps_inputs ps). \<forall>pk. map_of (pi_partial_sigs (ps_inputs ps' ! j)) pk \<noteq> None \<longleftrightarrow>
      map_of (pi_partial_sigs (ps_inputs ps ! j)) pk \<noteq> None \<or> pk \<in> fst ` set (own_keys s (ps_inputs ps ! j))"
proof -
  let ?n = "length (ps_inputs ps)"
  from able obtain tx where tx: "kl_extract_tx K ps = Inr tx"
    and inputs: "\<And>i. i < ?n \<Longrightarrow> \<exists>message. kl_sighash_msg K ps i tx (ss_genesis s) = Inr (EcdsaSighash message)
       \<and> distinct (map fst (own_keys s (ps_inputs ps ! i)))
       \<and> (\<forall>(pk, path) \<in> set (own_keys s (ps_inputs ps ! i)). \<exists>child. kl_derive_priv K (ss_master s) path = Inr child
            \<and> valid i pk (kl_sign_der K message child @ [1]))"
    unfolding signer_able_def by blast
  have "\<exists>n ps'. (sign_inputs K s tx [0 ..< ?n] ps 0 :: ('i pset_error, nat) result \<times> pset) = (Inr n, ps')"
    using inputs by (intro sign_inputs_returns [OF K]) fastforce
  then obtain n ps' where run: "sign_pset K s ps = (Inr n :: ('i pset_error, nat) result, ps')"
    by (auto simp: sign_pset_def tx)
  from sign_pset_ok [OF K run] tx have same: "without_sigs ps' = without_sigs ps"
    and new: "\<And>j. j < ?n \<Longrightarrow> ps_inputs ps' ! j = signed_input K s tx ps j" by auto
  have sigs: "(\<forall>sig. map_of (pi_partial_sigs (ps_inputs ps' ! j)) pk = Some sig \<longrightarrow> valid j pk sig)
      \<and> (map_of (pi_partial_sigs (ps_inputs ps' ! j)) pk \<noteq> None \<longleftrightarrow>
         map_of (pi_partial_sigs (ps_inputs ps ! j)) pk \<noteq> None \<or> pk \<in> fst ` set (own_keys s (ps_inputs ps ! j)))"
    if j: "j < ?n" for j pk
  proof -
    let ?own = "own_keys s (ps_inputs ps ! j)"
    from inputs [OF j] obtain message where
      m: "kl_sighash_msg K ps j tx (ss_genesis s) = Inr (EcdsaSighash message)" and dist: "distinct (map fst ?own)"
      and good: "\<And>pk path. (pk, path) \<in> set ?own \<Longrightarrow> \<exists>child. kl_derive_priv K (ss_master s) path = Inr child
            \<and> valid j pk (kl_sign_der K message child @ [1])" by fastforce
    have map: "map_of (pi_partial_sigs (ps_inputs ps' ! j)) pk = (case map_of ?own pk of
        Some path \<Rightarrow> Some (sig_of K s message path) | None \<Rightarrow> map_of (pi_partial_sigs (ps_inputs ps ! j)) pk)"
      using new [OF j] m add_sigs_map [OF dist] by (simp add: signed_input_def)
    show ?thesis
    proof (cases "map_of ?own pk")
      case None
      then have "map_of (pi_partial_sigs (ps_inputs ps' ! j)) pk = map_of (pi_partial_sigs (ps_inputs ps ! j)) pk"
        using map by simp
      moreover have "pk \<notin> fst ` set ?own" using None by (simp add: map_of_eq_None_iff)
      ultimately show ?thesis using old j by metis
    next
      case (Some path)
      then have mem: "(pk, path) \<in> set ?own" by (rule map_of_SomeD)
      then have "pk \<in> fst ` set ?own" by force
      then show ?thesis using map Some good [OF mem] by (auto simp: sig_of_def)
    qed
  qed
  show ?thesis by (rule that [OF run same]) (use sigs in blast)+
qed

lemma ready_signs:
  assumes K: "sighash_ignores_sigs K" and ready: "signer_ready K valid ps s" and ne: "ps_inputs ps \<noteq> []"
    and old: "\<forall>j < length (ps_inputs ps). \<forall>pk sig. map_of (pi_partial_sigs (ps_inputs ps ! j)) pk = Some sig \<longrightarrow> valid j pk sig"
  obtains n ps' where "sign_pset K s ps = (Inr n :: ('i pset_error, nat) result, ps')" and "n > 0"
    and "without_sigs ps' = without_sigs ps"
    and "\<forall>j < length (ps_inputs ps). \<forall>pk sig. map_of (pi_partial_sigs (ps_inputs ps' ! j)) pk = Some sig \<longrightarrow> valid j pk sig"
    and "\<forall>j < length (ps_inputs ps). \<forall>pk. map_of (pi_partial_sigs (ps_inputs ps' ! j)) pk \<noteq> None \<longleftrightarrow>
      map_of (pi_partial_sigs (ps_inputs ps ! j)) pk \<noteq> None \<or> pk \<in> fst ` set (own_keys s (ps_inputs ps ! j))"
proof (rule able_signs [OF K _ old])
  show "signer_able K valid ps s" using ready by (simp add: signer_ready_iff)
  fix n ps'
  assume run: "sign_pset K s ps = (Inr n :: ('i pset_error, nat) result, ps')" and same: "without_sigs ps' = without_sigs ps"
    and rest: "\<forall>j < length (ps_inputs ps). \<forall>pk sig. map_of (pi_partial_sigs (ps_inputs ps' ! j)) pk = Some sig \<longrightarrow> valid j pk sig"
      "\<forall>j < length (ps_inputs ps). \<forall>pk. map_of (pi_partial_sigs (ps_inputs ps' ! j)) pk \<noteq> None \<longleftrightarrow>
        map_of (pi_partial_sigs (ps_inputs ps ! j)) pk \<noteq> None \<or> pk \<in> fst ` set (own_keys s (ps_inputs ps ! j))"
  obtain tx where tx: "kl_extract_tx K ps = Inr tx"
    and n: "n = sum_list (map (signature_count K s tx ps) [0 ..< length (ps_inputs ps)])"
    by (rule sign_pset_ok [OF K run])
  have "0 < signature_count K s tx ps 0"
    using ready tx ne by (auto simp: signer_ready_def signature_count_def)
  moreover have "0 \<in> set [0 ..< length (ps_inputs ps)]" using ne by simp
  ultimately have "n > 0"
    unfolding n by (metis (no_types, lifting) gr0I image_eqI list.set_map sum_list_eq_0_iff)
  then show ?thesis by (rule that [OF run _ same rest])
qed

end
