(* ===== verification/Signing.thy ===== *)
theory Signing
  imports Testkit Pset_Properties
begin

text \<open>
  The signing flow as a whole: software signers of a federation, one after the other, over the PSET
  of a coordinator, and the finalisation of what they leave. Nothing here models code of its own;
  \<open>sign_all\<close> is the caller's loop over \<open>sign_with\<close>.
\<close>

fun sign_all ::
    "('id, 'xp, 'x) key_lib \<Rightarrow> ('id, 'xp, 'x) software_signer list
     \<Rightarrow> (('id, 'y) coordinator, 'id pset_error, unit) act" where
  "sign_all K [] c = (Inr (), c)"
| "sign_all K (s # ss) c =
     (case sign_with (sign_pset K s) (ss_id s) c of
        (Inl e, c') \<Rightarrow> (Inl e, c')
      | (Inr _, c') \<Rightarrow> sign_all K ss c')"

definition sigs_valid :: "(nat \<Rightarrow> pubkey \<Rightarrow> u8 list \<Rightarrow> bool) \<Rightarrow> pset \<Rightarrow> bool" where
  "sigs_valid valid ps \<longleftrightarrow> (\<forall>j < length (ps_inputs ps). \<forall>pk sig.
     map_of (pi_partial_sigs (ps_inputs ps ! j)) pk = Some sig \<longrightarrow> valid j pk sig)"

definition has_sig :: "pset \<Rightarrow> nat \<Rightarrow> pubkey \<Rightarrow> bool" where
  "has_sig ps j pk \<longleftrightarrow> map_of (pi_partial_sigs (ps_inputs ps ! j)) pk \<noteq> None"

lemma sign_all_ok:
  assumes K: "sighash_ignores_sigs (K :: ('id, 'xp, 'x) key_lib)"
    and "\<forall>s \<in> set ss. fed_contains (co_federation c) (ss_id s) \<and> signer_ready K valid (co_pset c) s"
    and "ps_inputs (co_pset c) \<noteq> []" and "sigs_valid valid (co_pset c)"
    and "coordinator_inv fed c"
  shows "\<exists>c'. sign_all K ss c = (Inr (), c') \<and> coordinator_inv fed c'
    \<and> set (co_signed c') = set (co_signed c) \<union> ss_id ` set ss
    \<and> without_sigs (co_pset c') = without_sigs (co_pset c) \<and> sigs_valid valid (co_pset c')
    \<and> (\<forall>j < length (ps_inputs (co_pset c)). \<forall>pk. has_sig (co_pset c') j pk \<longleftrightarrow> has_sig (co_pset c) j pk
         \<or> (\<exists>s \<in> set ss. pk \<in> fst ` set (own_keys s (ps_inputs (co_pset c) ! j))))"
  using assms(2-)
proof (induction ss arbitrary: c)
  case (Cons s ss)
  let ?ps = "co_pset c"
  from Cons.prems obtain n ps' where
    call: "sign_pset K s ?ps = (Inr n :: ('id pset_error, nat) result, ps')" and n: "n > 0"
    and same: "without_sigs ps' = without_sigs ?ps"
    and valid: "\<forall>j < length (ps_inputs ?ps). \<forall>pk sig. map_of (pi_partial_sigs (ps_inputs ps' ! j)) pk = Some sig \<longrightarrow> valid j pk sig"
    and keys: "\<forall>j < length (ps_inputs ?ps). \<forall>pk. has_sig ps' j pk \<longleftrightarrow>
      has_sig ?ps j pk \<or> pk \<in> fst ` set (own_keys s (ps_inputs ?ps ! j))"
    using ready_signs [OF K, where s = s and ps = ?ps and valid = valid and 'i = 'id]
    unfolding sigs_valid_def has_sig_def by (metis list.set_intros(1))
  define c1 where "c1 = c\<lparr>co_pset := ps', co_signed := List.insert (ss_id s) (co_signed c)\<rparr>"
  have step: "sign_with (sign_pset K s) (ss_id s) c = (Inr n, c1)"
    using Cons.prems(1) call n by (simp add: sign_with_def c1_def)
  have len: "length (ps_inputs ps') = length (ps_inputs ?ps)" by (rule length_without [OF same])
  have ready: "\<forall>t \<in> set ss. fed_contains (co_federation c1) (ss_id t) \<and> signer_ready K valid (co_pset c1) t"
    using Cons.prems(1) signer_ready_stable [OF K same [symmetric]] by (simp add: c1_def)
  have ne: "ps_inputs (co_pset c1) \<noteq> []" using Cons.prems(2) len by (auto simp: c1_def)
  have val: "sigs_valid valid (co_pset c1)" using valid len by (simp add: c1_def sigs_valid_def)
  have inv1: "coordinator_inv fed c1" by (rule sign_with_inv [OF Cons.prems(4) step])
  from Cons.IH [OF ready ne val inv1] obtain c' where rest: "sign_all K ss c1 = (Inr (), c')" and inv: "coordinator_inv fed c'"
    and ids: "set (co_signed c') = set (co_signed c1) \<union> ss_id ` set ss"
    and same': "without_sigs (co_pset c') = without_sigs (co_pset c1)" and valid': "sigs_valid valid (co_pset c')"
    and sigs: "\<And>j pk. j < length (ps_inputs (co_pset c1)) \<Longrightarrow> has_sig (co_pset c') j pk \<longleftrightarrow> has_sig (co_pset c1) j pk
         \<or> (\<exists>s \<in> set ss. pk \<in> fst ` set (own_keys s (ps_inputs (co_pset c1) ! j)))"
    by (elim exE conjE) simp
  have sigs': "has_sig (co_pset c') j pk \<longleftrightarrow> has_sig ?ps j pk
      \<or> (\<exists>t \<in> set (s # ss). pk \<in> fst ` set (own_keys t (ps_inputs ?ps ! j)))" if j: "j < length (ps_inputs ?ps)" for j pk
  proof -
    have "own_keys t (ps_inputs ps' ! j) = own_keys t (ps_inputs ?ps ! j)" for t :: "('id, 'xp, 'x) software_signer"
      by (rule own_keys_stable [OF same]) (simp add: len j)
    then show ?thesis using sigs [of j pk] keys j len by (simp add: c1_def disj_assoc)
  qed
  have "sign_all K (s # ss) c = (Inr (), c')" using step rest by simp
  moreover have "set (co_signed c') = set (co_signed c) \<union> ss_id ` set (s # ss)" using ids by (simp add: c1_def)
  moreover have "without_sigs (co_pset c') = without_sigs ?ps" using same same' by (simp add: c1_def)
  ultimately show ?case using inv valid' sigs' by blast
qed (auto simp: has_sig_def)

section \<open>Enough keys\<close>

lemma own_key_fingerprint:
  "pk \<in> fst ` set (own_keys s inp) \<Longrightarrow> \<exists>path. (pk, (ss_fingerprint s, path)) \<in> set (pi_bip32_derivation inp)"
  by (force simp: own_keys_def)

text \<open>Signers with different fingerprints have different keys, so each adds a key of its own.\<close>

lemma enough_keys:
  assumes "distinct (map fst (pi_bip32_derivation inp))" and "distinct (map ss_fingerprint (ss :: ('id, 'xp, 'x) software_signer list))"
    and keys: "\<forall>s \<in> set ss. own_keys s inp \<noteq> [] \<and> fst ` set (own_keys s inp) \<subseteq> set pks"
    and P: "\<forall>s \<in> set ss. \<forall>pk \<in> fst ` set (own_keys s inp). P pk"
  shows "length ss \<le> length (filter P pks)"
proof -
  define k where "k s = fst (hd (own_keys s inp))" for s :: "('id, 'xp, 'x) software_signer"
  have mem: "k s \<in> fst ` set (own_keys s inp)" if "s \<in> set ss" for s
    unfolding k_def using keys that by (intro imageI hd_in_set) blast
  have "inj_on k (set ss)"
  proof (rule inj_onI)
    fix s t assume s: "s \<in> set ss" and t: "t \<in> set ss" and eq: "k s = k t"
    obtain p q where "(k s, (ss_fingerprint s, p)) \<in> set (pi_bip32_derivation inp)"
      and "(k s, (ss_fingerprint t, q)) \<in> set (pi_bip32_derivation inp)"
      using own_key_fingerprint [OF mem [OF s]] own_key_fingerprint [OF mem [OF t]] eq by auto
    with assms(1) have "ss_fingerprint s = ss_fingerprint t"
      by (metis eq_key_imp_eq_value prod.inject)
    then show "s = t" using assms(2) s t by (auto simp: distinct_map dest: inj_onD)
  qed
  then have "card (k ` set ss) = length ss"
    using assms(2) by (simp add: card_image distinct_card distinct_map)
  moreover have "k s \<in> set (filter P pks)" if "s \<in> set ss" for s
    using mem [OF that] keys P that unfolding set_filter by blast
  then have "k ` set ss \<subseteq> set (filter P pks)" by blast
  then have "card (k ` set ss) \<le> card (set (filter P pks))" by (intro card_mono) simp_all
  then have "card (k ` set ss) \<le> length (filter P pks)" using card_length [of "filter P pks"] by linarith
  ultimately show ?thesis by simp
qed

text \<open>An input that the signers of a federation with threshold \<open>m\<close> are to sign.\<close>

definition multisig_input ::
    "('mbk, 'sk) pset_lib \<Rightarrow> nat \<Rightarrow> ('id, 'xp, 'x) software_signer list \<Rightarrow> pset_input \<Rightarrow> bool" where
  "multisig_input PL m ss inp \<longleftrightarrow> pi_partial_sigs inp = [] \<and> distinct (map fst (pi_bip32_derivation inp))
     \<and> (\<exists>ws pks. pi_witness_script inp = Some ws \<and> multisig_script PL ws m pks
         \<and> (\<forall>s \<in> set ss. fst ` set (own_keys s inp) \<subseteq> set pks))"

lemma finalize_p2wsh_returns:
  assumes "\<forall>inp \<in> set (ps_inputs ps). pi_witness_script inp \<noteq> None"
  obtains ps' where "finalize_p2wsh_pset PL ps = (Inr () :: ('id pset_error, unit) result, ps')"
proof -
  obtain r inputs where loop: "finalize_inputs PL 0 (ps_inputs ps) = (r :: ('id pset_error, unit) result, inputs)"
    by (rule prod.exhaust)
  with finalize_inputs_returns [of PL 0 "ps_inputs ps", where 'id = 'id] assms have "r = Inr ()" by simp
  with loop show ?thesis by (intro that [of "ps\<lparr>ps_inputs := inputs\<rparr>"]) (simp add: finalize_p2wsh_pset_def)
qed

text \<open>
  What finalisation makes of the PSET it has finalised: the library extracts the transaction, and an
  error of that call is the only one left.
\<close>

definition extracted :: "('mbk, 'sk) pset_lib \<Rightarrow> pset \<Rightarrow> ('id pset_error, finalized_pset) result" where
  "extracted PL ps = (case pl_extract_tx PL ps of
     Inl msg \<Rightarrow> Inl (Err (FinalizationFailed msg))
   | Inr tx \<Rightarrow> Inr \<lparr>fp_pset = ps, fp_transaction = tx\<rparr>)"

lemma finalize_complete:
  assumes "coordinator_inv fed (c :: ('id, 'y) coordinator)" and "federation_ok fed" and "length (fed_signers fed) < 2 ^ 32"
    and "unat (fed_threshold fed) \<le> card (set (co_signed c))"
    and "\<forall>inp \<in> set (ps_inputs (co_pset c)). pi_witness_script inp \<noteq> None"
  obtains ps' where "finalize PL c = extracted PL ps'"
    and "finalize_p2wsh_pset PL (co_pset c) = (Inr () :: ('id pset_error, unit) result, ps')"
proof -
  have "signatures_collected c = card (set (co_signed c))"
    using assms(1) by (simp add: coordinator_inv_def signatures_collected_def distinct_card)
  then have complete: "is_complete c = (Inr True :: ('id pset_error, bool) result)"
    using is_complete_ok [OF assms(1-3)] assms(4) by simp
  from assms(5) obtain ps' where fin: "finalize_p2wsh_pset PL (co_pset c) = (Inr () :: ('id pset_error, unit) result, ps')"
    by (rule finalize_p2wsh_returns)
  from fin complete show ?thesis
    by (intro that [of ps']) (simp_all add: finalize_def extracted_def split: sum.split)
qed

section \<open>Signing to the end\<close>

text \<open>Signing and finalisation leave alone which output an input spends.\<close>

definition same_outpoint :: "pset_input \<Rightarrow> pset_input \<Rightarrow> bool" where
  "same_outpoint a b \<longleftrightarrow> pi_previous_txid a = pi_previous_txid b
     \<and> pi_previous_output_index a = pi_previous_output_index b"

lemma finalize_p2wsh_outpoints:
  assumes "finalize_p2wsh_pset PL ps = (Inr () :: ('id pset_error, unit) result, ps')"
  shows "length (ps_inputs ps') = length (ps_inputs ps)
    \<and> (\<forall>j < length (ps_inputs ps). same_outpoint (ps_inputs ps' ! j) (ps_inputs ps ! j))"
proof -
  obtain inputs where loop: "finalize_inputs PL 0 (ps_inputs ps) = (Inr () :: ('id pset_error, unit) result, inputs)"
    and ps': "ps' = ps\<lparr>ps_inputs := inputs\<rparr>"
    using assms by (auto simp: finalize_p2wsh_pset_def split: prod.splits)
  have "same_outpoint (inputs ! j) (ps_inputs ps ! j)" if "j < length (ps_inputs ps)" for j
    using finalize_inputs_ok [OF loop] that by (auto simp: same_outpoint_def finalize_input_def Let_def)
  then show ?thesis using finalize_inputs_ok [OF loop] ps' by simp
qed

text \<open>An input that enough signers have signed gets a witness that satisfies its script.\<close>

lemma signed_input_witness:
  assumes p2wsh: "finalize_p2wsh_pset PL ps = (Inr () :: ('id pset_error, unit) result, ps')" and j: "j < length (ps_inputs ps)"
    and input: "multisig_input PL m (signers :: ('id, 'xp, 'x) software_signer list) inp"
    and script: "pi_witness_script (ps_inputs ps ! j) = pi_witness_script inp" and valid: "sigs_valid valid ps"
    and sigs: "\<And>pk. has_sig ps j pk \<longleftrightarrow> (\<exists>s \<in> set signers. pk \<in> fst ` set (own_keys s inp))"
    and signers: "distinct (map ss_fingerprint signers)" "m \<le> length signers" "\<forall>s \<in> set signers. own_keys s inp \<noteq> []"
  shows "\<exists>ws pks w. pi_witness_script inp = Some ws \<and> multisig_script PL ws m pks
    \<and> pi_final_script_witness (ps_inputs ps' ! j) = Some w \<and> satisfies_multisig (valid j) ws m pks w"
proof -
  from input obtain ws pks where ws: "pi_witness_script inp = Some ws" and ms: "multisig_script PL ws m pks"
    and dist: "distinct (map fst (pi_bip32_derivation inp))"
    and sub: "\<forall>s \<in> set signers. fst ` set (own_keys s inp) \<subseteq> set pks"
    unfolding multisig_input_def by blast
  have "length signers \<le> length (filter (has_sig ps j) pks)"
    using signers(3) sub sigs by (intro enough_keys [OF dist signers(1)]) auto
  with signers(2) have "m \<le> length (filter (has_sig ps j) pks)" by linarith
  with finalize_p2wsh_witness [OF p2wsh _ _ ms, of j "valid j"] valid j ws script show ?thesis
    using ms unfolding has_sig_def sigs_valid_def by auto
qed

lemma software_signers_finalize:
  assumes "sighash_ignores_sigs K" and "federation_ok fed" and "length (fed_signers fed) < 2 ^ 32"
    and "coordinator_new fed (BlindedPset ps) = Inr c" and "ps_inputs ps \<noteq> []"
    and "distinct (map ss_id signers)" and "distinct (map ss_fingerprint signers)"
    and "unat (fed_threshold fed) \<le> length signers"
    and "\<forall>s \<in> set signers. fed_contains fed (ss_id s) \<and> signer_ready K valid ps s"
    and "\<forall>inp \<in> set (ps_inputs ps). multisig_input PL (unat (fed_threshold fed)) signers inp"
  shows "\<exists>c' ps'. sign_all K signers c = (Inr (), c') \<and> finalize PL c' = extracted PL ps'
    \<and> length (ps_inputs ps') = length (ps_inputs ps)
    \<and> (\<forall>j < length (ps_inputs ps). same_outpoint (ps_inputs ps' ! j) (ps_inputs ps ! j)
         \<and> (\<exists>ws pks w. pi_witness_script (ps_inputs ps ! j) = Some ws
              \<and> multisig_script PL ws (unat (fed_threshold fed)) pks
              \<and> pi_final_script_witness (ps_inputs ps' ! j) = Some w
              \<and> satisfies_multisig (valid j) ws (unat (fed_threshold fed)) pks w))"
proof -
  let ?m = "unat (fed_threshold fed)"
  have c: "co_pset c = ps" "co_signed c = []" "co_federation c = fed"
    using assms(4) by (auto simp: coordinator_new_def bindR_Inr blinded_into_pset_def)
  have inv: "coordinator_inv fed c" by (rule coordinator_run_inv [OF run_new [OF assms(4)]])
  have no_sigs: "\<not> has_sig ps j pk" and input: "multisig_input PL ?m signers (ps_inputs ps ! j)"
    if "j < length (ps_inputs ps)" for j pk
    using assms(10) that by (auto simp: has_sig_def multisig_input_def)
  then have none: "sigs_valid valid (co_pset c)" by (auto simp: sigs_valid_def has_sig_def c)
  have ready: "\<forall>s \<in> set signers. fed_contains (co_federation c) (ss_id s) \<and> signer_ready K valid (co_pset c) s"
    using assms(9) by (simp add: c)
  have ne: "ps_inputs (co_pset c) \<noteq> []" using assms(5) by (simp add: c)
  from sign_all_ok [OF assms(1) ready ne none inv] obtain c' where
    run: "sign_all K signers c = (Inr (), c')" and inv': "coordinator_inv fed c'"
    and ids: "set (co_signed c') = ss_id ` set signers"
    and same: "without_sigs (co_pset c') = without_sigs ps" and valid: "sigs_valid valid (co_pset c')"
    and sigs: "\<And>j pk. j < length (ps_inputs ps) \<Longrightarrow> has_sig (co_pset c') j pk \<longleftrightarrow>
      (\<exists>s \<in> set signers. pk \<in> fst ` set (own_keys s (ps_inputs ps ! j)))"
    using no_sigs by (auto simp: c)
  have len: "length (ps_inputs (co_pset c')) = length (ps_inputs ps)" by (rule length_without [OF same])
  have script: "pi_witness_script (ps_inputs (co_pset c') ! j) = pi_witness_script (ps_inputs ps ! j)"
    if "j < length (ps_inputs ps)" for j
    using arg_cong [OF input_without [OF same], of j pi_witness_script] len that by simp
  have "card (set (co_signed c')) = length signers"
    unfolding ids using assms(6) by (metis distinct_card length_map list.set_map)
  moreover have "\<forall>inp \<in> set (ps_inputs (co_pset c')). pi_witness_script inp \<noteq> None"
    using input script len by (fastforce simp: in_set_conv_nth multisig_input_def)
  ultimately obtain ps' where fin: "finalize PL c' = extracted PL ps'"
    and p2wsh: "finalize_p2wsh_pset PL (co_pset c') = (Inr () :: ('a pset_error, unit) result, ps')"
    using finalize_complete [OF inv' assms(2,3), of PL] assms(8) by auto
  have "\<exists>ws pks w. pi_witness_script (ps_inputs ps ! j) = Some ws \<and> multisig_script PL ws ?m pks
         \<and> pi_final_script_witness (ps_inputs ps' ! j) = Some w
         \<and> satisfies_multisig (valid j) ws ?m pks w" if j: "j < length (ps_inputs ps)" for j
    using assms(9) j by (intro signed_input_witness [OF p2wsh _ input [OF j] script [OF j] valid sigs [OF j] assms(7,8)])
      (auto simp: len signer_ready_def)
  moreover have "same_outpoint (ps_inputs ps' ! j) (ps_inputs ps ! j)" if j: "j < length (ps_inputs ps)" for j
    using finalize_p2wsh_outpoints [OF p2wsh] input_without [OF same, of j] len j
    by (auto simp: same_outpoint_def dest: arg_cong [of _ _ pi_previous_txid] arg_cong [of _ _ pi_previous_output_index])
  moreover have "length (ps_inputs ps') = length (ps_inputs ps)"
    using finalize_p2wsh_outpoints [OF p2wsh] len by simp
  ultimately show ?thesis using run fin by blast
qed

section \<open>A concrete federation at work\<close>

text \<open>Private keys are numbers, derivation keeps them, a signature is the message and the number.\<close>

definition ex_key_lib :: "(nat, nat, nat) key_lib" where
  "ex_key_lib = \<lparr>kl_new_master = (\<lambda>s. Inr (unat (hd s))), kl_parse_path = (\<lambda>s. Inr []),
     kl_derive_priv = (\<lambda>x p. Inr x), kl_xpub = (\<lambda>x. x), kl_fingerprint = word_of_nat,
     kl_id_of_fingerprint = unat, kl_genesis_hash = (\<lambda>n. BlockHash 0),
     kl_extract_tx = (\<lambda>ps. Inr \<lparr>tx_version = 2, tx_lock_time = 0, tx_input = [], tx_output = []\<rparr>),
     kl_sighash_msg = (\<lambda>ps i tx g. Inr (EcdsaSighash [7])), kl_sign_der = (\<lambda>m x. m @ [word_of_nat x])\<rparr>"

definition ex_software :: "u8 \<Rightarrow> (nat, nat, nat) software_signer" where
  "ex_software seed = (case (software_new ex_key_lib LwkLiquid seed ElementsRegtest :: (unit, _) result) of
     Inr s \<Rightarrow> s | Inl _ \<Rightarrow> undefined)"

definition ex_valid :: "nat \<Rightarrow> pubkey \<Rightarrow> u8 list \<Rightarrow> bool" where
  "ex_valid j pk sig \<longleftrightarrow> sig = [7, hd (pubkey_bytes pk), 1]"

lemma ex_software_eq: "ex_software seed = \<lparr>ss_master = unat seed, ss_path = [], ss_xpub = unat seed,
    ss_fingerprint = word_of_nat (unat seed), ss_id = unat (word_of_nat (unat seed) :: u32), ss_genesis = BlockHash 0\<rparr>"
  by (simp add: ex_software_def software_new_def new_with_lwk_def new_with_seed_bytes_def ex_key_lib_def numeral_nat)

lemma ex_key_lib_ignores: "sighash_ignores_sigs ex_key_lib"
  by (simp add: sighash_ignores_sigs_def ex_key_lib_def)

lemma ex_own_keys:
  "own_keys (ex_software 1) (ex_input sigs) = [(ex_key 1, [])]"
  "own_keys (ex_software 2) (ex_input sigs) = [(ex_key 2, [])]"
  by (simp_all add: own_keys_def ex_software_eq ex_input_def)

lemma ex_ready: "signer_ready ex_key_lib ex_valid (ex_pset []) (ex_software 1)"
  "signer_ready ex_key_lib ex_valid (ex_pset []) (ex_software 2)"
  unfolding signer_ready_def
  by (simp_all add: ex_key_lib_def ex_valid_def ex_software_eq ex_own_keys [unfolded ex_software_eq, simplified] ex_pset_def ex_key_def)

lemma ex_multisig_input: "multisig_input ex_pset_lib 2 [ex_software 1, ex_software 2] (ex_input [])"
proof -
  have "distinct (map fst (pi_bip32_derivation (ex_input [])))" by (simp add: ex_input_def ex_key_def)
  moreover have "pi_witness_script (ex_input []) = Some (ex_script ex_keys)" "pi_partial_sigs (ex_input []) = []"
    by (simp_all add: ex_input_def)
  ultimately show ?thesis
    using ex_multisig by (auto simp: multisig_input_def ex_own_keys ex_keys_def)
qed

section \<open>The properties\<close>

text \<open>
  C15. A software signer that returns Ok has changed nothing but signatures: on every input whose
  sighash is an ECDSA one it has set, for each key whose origin names its fingerprint, the
  signature of that input's sighash with the key derived along that origin and the sighash type
  byte, keeping all others; it returns the number of signatures it set.
\<close>

theorem software_signer_exact:
  assumes "sighash_ignores_sigs K" and "sign_pset K s ps = (Inr n :: ('i pset_error, nat) result, ps')"
    and "\<forall>inp \<in> set (ps_inputs ps). distinct (map fst (own_keys s inp))"
  shows "without_sigs ps' = without_sigs ps \<and> (\<exists>tx. kl_extract_tx K ps = Inr tx
    \<and> n = (\<Sum>j \<leftarrow> [0 ..< length (ps_inputs ps)]. signature_count K s tx ps j)
    \<and> (\<forall>j < length (ps_inputs ps). \<forall>pk. map_of (pi_partial_sigs (ps_inputs ps' ! j)) pk =
         (case kl_sighash_msg K ps j tx (ss_genesis s) of
            Inr (EcdsaSighash message) \<Rightarrow> (case map_of (own_keys s (ps_inputs ps ! j)) pk of
                Some path \<Rightarrow> Some (sig_of K s message path)
              | None \<Rightarrow> map_of (pi_partial_sigs (ps_inputs ps ! j)) pk)
          | _ \<Rightarrow> map_of (pi_partial_sigs (ps_inputs ps ! j)) pk)))"
proof -
  from sign_pset_ok [OF assms(1,2)] obtain tx where tx: "kl_extract_tx K ps = Inr tx"
    and n: "n = (\<Sum>j \<leftarrow> [0 ..< length (ps_inputs ps)]. signature_count K s tx ps j)"
    and same: "without_sigs ps' = without_sigs ps"
    and inputs: "\<And>j. j < length (ps_inputs ps) \<Longrightarrow> ps_inputs ps' ! j = signed_input K s tx ps j" by auto
  have "map_of (pi_partial_sigs (ps_inputs ps' ! j)) pk =
         (case kl_sighash_msg K ps j tx (ss_genesis s) of
            Inr (EcdsaSighash message) \<Rightarrow> (case map_of (own_keys s (ps_inputs ps ! j)) pk of
                Some path \<Rightarrow> Some (sig_of K s message path)
              | None \<Rightarrow> map_of (pi_partial_sigs (ps_inputs ps ! j)) pk)
          | _ \<Rightarrow> map_of (pi_partial_sigs (ps_inputs ps ! j)) pk)" if j: "j < length (ps_inputs ps)" for j pk
  proof -
    have "distinct (map fst (own_keys s (ps_inputs ps ! j)))" using assms(3) j by simp
    then show ?thesis unfolding inputs [OF j] signed_input_def
      by (auto simp: add_sigs_map split: sum.split sighash.split)
  qed
  then show ?thesis using same tx n by blast
qed

theorem software_signer_exact_witness:
  "\<exists>ps'. sign_pset ex_key_lib (ex_software 1) (ex_pset []) = (Inr 1 :: (nat pset_error, nat) result, ps')
    \<and> map_of (pi_partial_sigs (ps_inputs ps' ! 0)) (ex_key 1) = Some [7, 1, 1]"
proof -
  obtain r ps' where run: "sign_pset ex_key_lib (ex_software 1) (ex_pset []) = (r :: (nat pset_error, nat) result, ps')"
    by (rule prod.exhaust)
  have r: "r = Inr 1"
    using arg_cong [OF run, of fst]
    by (simp add: sign_pset_def ex_key_lib_def ex_pset_def ex_own_keys split: prod.splits)
  have tx: "kl_extract_tx ex_key_lib (ex_pset [])
      = Inr \<lparr>tx_version = 2, tx_lock_time = 0, tx_input = [], tx_output = []\<rparr>" by (simp add: ex_key_lib_def)
  have msg: "kl_sighash_msg ex_key_lib ps j tx g = Inr (EcdsaSighash [7])" for ps j tx g by (simp add: ex_key_lib_def)
  have sig: "sig_of ex_key_lib (ex_software 1) [7] [] = [7, 1, 1]"
    by (simp add: sig_of_def ex_key_lib_def ex_software_eq)
  have inputs: "ps_inputs (ex_pset []) = [ex_input []]" by (simp add: ex_pset_def)
  from software_signer_exact [OF ex_key_lib_ignores run [unfolded r]] run r show ?thesis
    by (auto simp: inputs ex_own_keys msg sig dest!: spec [of _ "ex_key 1"])
qed

text \<open>
  From a blinded PSET to a transaction: when at least as many members as the threshold demands
  sign through the coordinator, with software signers that have a key in every input's multisig
  script, every call returns Ok, finalisation extracts from a PSET every input of which carries a
  witness that satisfies the input's script, and returns what the extraction does.
\<close>

lemma threshold_signers_finalize:
  assumes "sighash_ignores_sigs K" and "federation_ok fed" and "length (fed_signers fed) < 2 ^ 32"
    and "coordinator_new fed (BlindedPset ps) = Inr c" and "ps_inputs ps \<noteq> []"
    and "distinct (map ss_id signers)" and "distinct (map ss_fingerprint signers)"
    and "unat (fed_threshold fed) \<le> length signers"
    and "\<forall>s \<in> set signers. fed_contains fed (ss_id s) \<and> signer_ready K valid ps s"
    and "\<forall>inp \<in> set (ps_inputs ps). multisig_input PL (unat (fed_threshold fed)) signers inp"
  shows "\<exists>c' ps'. sign_all K signers c = (Inr (), c') \<and> finalize PL c' = extracted PL ps'
    \<and> (\<forall>j < length (ps_inputs ps). \<exists>ws pks w. pi_witness_script (ps_inputs ps ! j) = Some ws
         \<and> multisig_script PL ws (unat (fed_threshold fed)) pks
         \<and> pi_final_script_witness (ps_inputs ps' ! j) = Some w
         \<and> satisfies_multisig (valid j) ws (unat (fed_threshold fed)) pks w)"
  using software_signers_finalize [OF assms] by blast

lemma threshold_signers_finalize_witness:
  "\<exists>c' f w. sign_all ex_key_lib [ex_software 1, ex_software 2] ex_coordinator = (Inr (), c')
    \<and> finalize ex_pset_lib c' = Inr f \<and> pi_final_script_witness (ps_inputs (fp_pset f) ! 0) = Some w
    \<and> satisfies_multisig (ex_valid 0) (ex_script ex_keys) 2 ex_keys w"
proof -
  have new: "coordinator_new (ex_federation [1, 2, 3] Liquid) (BlindedPset (ex_pset [])) = Inr ex_coordinator"
    by (simp add: coordinator_new_def validate_blinding_def validate_blinding_raw_def ex_pset_def ex_output_def
        ex_fee_def script_is_empty_def Let_def ex_coordinator_def blinded_into_pset_def)
  have inputs: "ps_inputs (ex_pset []) = [ex_input []]" by (simp add: ex_pset_def)
  let ?fed = "ex_federation [1, 2, 3] Liquid"
  have threshold: "unat (fed_threshold ?fed) = 2" by (simp add: ex_federation_def)
  have members: "length (fed_signers ?fed) < 2 ^ 32" by (simp add: ex_federation_def)
  let ?ss = "[ex_software 1, ex_software 2]"
  have ne: "ps_inputs (ex_pset []) \<noteq> []" by (simp add: inputs)
  have ids: "distinct (map ss_id ?ss)" and fps: "distinct (map ss_fingerprint ?ss)" by (simp_all add: ex_software_eq)
  have enough: "unat (fed_threshold ?fed) \<le> length ?ss" unfolding threshold by simp
  have fed: "\<forall>s \<in> set ?ss. fed_contains ?fed (ss_id s) \<and> signer_ready ex_key_lib ex_valid (ex_pset []) s"
    using ex_ready by (simp add: ex_federation_def ex_software_eq)
  have scripts: "\<forall>inp \<in> set (ps_inputs (ex_pset [])). multisig_input ex_pset_lib (unat (fed_threshold ?fed)) ?ss inp"
    unfolding threshold inputs using ex_multisig_input by simp
  have tx_ok: "extracted ex_pset_lib ps = Inr \<lparr>fp_pset = ps,
      fp_transaction = \<lparr>tx_version = 2, tx_lock_time = 0, tx_input = [], tx_output = []\<rparr>\<rparr>" for ps
    by (simp add: extracted_def ex_pset_lib_def)
  have ws: "pi_witness_script (ex_input []) = Some (ex_script ex_keys)" by (simp add: ex_input_def)
  note threshold_signers_finalize [OF ex_key_lib_ignores ex_federation_ok members new ne ids fps enough fed scripts,
    unfolded threshold inputs]
  then obtain c' ps' pks w where "sign_all ex_key_lib ?ss ex_coordinator = (Inr (), c')"
    and "finalize ex_pset_lib c' = extracted ex_pset_lib ps'"
    and "multisig_script ex_pset_lib (ex_script ex_keys) 2 pks"
    and "pi_final_script_witness (ps_inputs ps' ! 0) = Some w"
    and "satisfies_multisig (ex_valid 0) (ex_script ex_keys) 2 pks w"
    by (auto simp: inputs threshold ws)
  moreover have "pks = ex_keys"
    using extract_pubkeys_multisig [OF calculation(3)] extract_pubkeys_multisig [OF ex_multisig] by simp
  ultimately show ?thesis unfolding tx_ok by fastforce
qed

end
