(* ===== verification/Vault_Spend.thy ===== *)
theory Vault_Spend
  imports Scan_To_Spend Signing Sync_Wallets
begin

text \<open>
  The whole way of a coin: scanned into the stores, listed for its wallet, spent by a transaction
  that one of the three builders makes, signed by members of the federation and finalised. The
  theorem composes the scan pipeline with wallets that change between passes, spend construction,
  the coordinator, the software signer and the finaliser.
\<close>

section \<open>Coins and their owners\<close>

text \<open>A UTXO the store lists for its wallet, and a wollet that has its script at the recorded place.\<close>

definition listed :: "mem_world \<Rightarrow> captured_utxo \<Rightarrow> bool" where
  "listed w u \<longleftrightarrow> (\<exists>us. fst (mem_list_unspent (cu_wallet_id u) (w_utxos w)) = Inr us \<and> u \<in> set us)"

definition owner_of :: "('d, 'k, 'w) lwk_lib \<Rightarrow> ('d, 'k, 'w) elements_wollet \<Rightarrow> captured_utxo \<Rightarrow> bool" where
  "owner_of L owner u \<longleftrightarrow> (\<exists>a. address L owner (cu_chain u) (cu_wildcard_index u) = Inr a
     \<and> ad_script_pubkey a = to_script_pubkey (cu_txout u))"

text \<open>
  The descriptor of a vault, as \<open>elements-miniscript\<close> documents its update of an input: an input
  without signatures gets the witness script of the definite descriptor, an \<open>m\<close>-of-\<open>n\<close> multisig
  with the signers' keys among its own, and the descriptor's output script is the P2WSH
  program of that witness script (\<open>p2wsh\<close>).
\<close>

definition vault_descriptor ::
    "('mbk, 'sk) pset_lib \<Rightarrow> ('d, 's, 'e) desc_lib \<Rightarrow> ('e \<Rightarrow> pset_input \<Rightarrow> string + pset_input)
     \<Rightarrow> ('e \<Rightarrow> script) \<Rightarrow> (script \<Rightarrow> script) \<Rightarrow> nat \<Rightarrow> ('id, 'xp, 'x) software_signer list
     \<Rightarrow> ('d, 'k, 'w) elements_wollet \<Rightarrow> bool" where
  "vault_descriptor PL DL upd spk p2wsh m signers wollet \<longleftrightarrow>
     (\<forall>singles u d inp inp'. dl_into_single_descriptors DL (ew_descriptor wollet) = Inr singles \<longrightarrow>
        owner_descriptor DL singles u d \<longrightarrow> pi_partial_sigs inp = [] \<longrightarrow> upd d inp = Inr inp' \<longrightarrow>
        multisig_input PL m signers inp' \<and> map_option p2wsh (pi_witness_script inp') = Some (spk d))"

text \<open>What LWK's builder makes is unsigned.\<close>

definition builds_unsigned :: "('b, 'w, 'a, 'f) tx_lib \<Rightarrow> bool" where
  "builds_unsigned TB \<longleftrightarrow> (\<forall>w b ps. tb_finish TB w b = Inr ps \<longrightarrow>
     (\<forall>inp \<in> set (ps_inputs ps). pi_partial_sigs inp = []))"

text \<open>
  An input of a finished transaction that takes a coin of the vault from the chain: the output is
  there, no input of the chain spends it, and the witness satisfies the multisig script that the
  output commits to.
\<close>

definition spends_vault_coin ::
    "elements_lib \<Rightarrow> ('mbk, 'sk) pset_lib \<Rightarrow> block list \<Rightarrow> (script \<Rightarrow> script) \<Rightarrow> nat
     \<Rightarrow> (pubkey \<Rightarrow> u8 list \<Rightarrow> bool) \<Rightarrow> pset_input \<Rightarrow> bool" where
  "spends_vault_coin E PL chain p2wsh m valid inp \<longleftrightarrow> prevout_of inp \<notin> spent_in chain
     \<and> (\<exists>t ws pks w. output_at E chain (prevout_of inp) t \<and> to_script_pubkey t = p2wsh ws
          \<and> multisig_script PL ws m pks \<and> pi_final_script_witness inp = Some w
          \<and> satisfies_multisig valid ws m pks w)"

lemma listed_on_chain:
  assumes "wallet_run E L regs eng w chain" and "listed w u"
  shows "output_at E chain (cu_outpoint u) (cu_txout u)" and "cu_outpoint u \<notin> spent_in chain"
proof -
  have synced: "mem_synced E L eng chain w" using wallet_run_synced [OF assms(1)] by blast
  then have wf: "wf_chain E chain" by (simp add: synced_def)
  from assms(2) obtain us where "mem_list_unspent (cu_wallet_id u) (w_utxos w)
      = (Inr us, snd (mem_list_unspent (cu_wallet_id u) (w_utxos w)))" "u \<in> set us"
    unfolding listed_def by (metis prod.collapse)
  with synced_lists [OF synced this(1)] have "u \<in> captured_in E L eng chain \<and> cu_outpoint u \<notin> spent_in chain" by blast
  then show "output_at E chain (cu_outpoint u) (cu_txout u)" "cu_outpoint u \<notin> spent_in chain"
    using captured_output_at [OF wf] by blast+
qed

section \<open>The inputs of the three builders\<close>

text \<open>An input made for one of the coins, enriched by the descriptor of the coin's owner.\<close>

definition made_for ::
    "('d, 's, 'e) desc_lib \<Rightarrow> ('e \<Rightarrow> pset_input \<Rightarrow> string + pset_input)
     \<Rightarrow> (captured_utxo \<times> ('d, 'k, 'w) elements_wollet) list \<Rightarrow> pset_input \<Rightarrow> bool" where
  "made_for DL upd pairs inp' \<longleftrightarrow> (\<exists>u d inp. owned_by DL pairs u d \<and> cu_outpoint u = prevout_of inp'
     \<and> pi_partial_sigs inp = [] \<and> upd d inp = Inr inp')"

lemma enriched_made_for:
  assumes upd: "local_update DL upd" and enriched: "inputs_enriched upd us owns before after"
    and unsigned: "\<forall>inp \<in> set before. pi_partial_sigs inp = []"
    and owns: "\<And>u d. u \<in> set us \<Longrightarrow> owns u d \<Longrightarrow> owned_by DL pairs u d"
    and inp': "inp' \<in> set after" "prevout_of inp' \<in> cu_outpoint ` set us"
  shows "made_for DL upd pairs inp'"
proof -
  obtain j where j: "j < length after" "inp' = after ! j" using inp'(1) by (auto simp: in_set_conv_nth)
  have len: "length after = length before" using enriched by (simp add: inputs_enriched_def)
  have same: "prevout_of (before ! j) = prevout_of (after ! j)"
    using enriched j upd len unfolding inputs_enriched_def local_update_def by metis
  with enriched inp'(2) j len obtain u d where "u \<in> set us" "cu_outpoint u = prevout_of inp'" "owns u d"
      "upd d (before ! j) = Inr inp'"
    unfolding inputs_enriched_def by metis
  moreover have "pi_partial_sigs (before ! j) = []" using unsigned j(1) len by simp
  ultimately show ?thesis using owns unfolding made_for_def by blast
qed

lemma prepared_made_for:
  assumes upd: "local_update DL upd" and unsigned: "builds_unsigned TB" "tb_finish TB w tx = Inr ps"
    and singles: "dl_into_single_descriptors DL (ew_descriptor wollet) = Inr singles"
    and prep: "(prepare_inputs DL us singles :: ('id spend_error, _) result) = Inr (ext, en)"
    and fin: "(finish_blinded DL ps en :: ('id spend_error, _) result) = Inr b"
    and inp': "inp' \<in> set (ps_inputs (bp_pset b))" "prevout_of inp' \<in> cu_outpoint ` set us"
  shows "made_for DL upd (map (\<lambda>u. (u, wollet)) us) inp'"
proof (rule enriched_made_for [OF upd _ _ _ inp'])
  show "inputs_enriched upd us (owner_descriptor DL singles) (ps_inputs ps) (ps_inputs (bp_pset b))"
    using prepared_spend [OF upd prep fin] by blast
  show "\<forall>inp \<in> set (ps_inputs ps). pi_partial_sigs inp = []" using unsigned unfolding builds_unsigned_def by blast
  show "owned_by DL (map (\<lambda>u. (u, wollet)) us) u d" if "u \<in> set us" "owner_descriptor DL singles u d" for u d
    using that singles unfolding owned_by_def by auto
qed

lemma spend_made_for:
  assumes "local_update DL upd" and "builds_unsigned TB"
    and "(build_spend_pset DL TB wollet us recipient amount fee :: ('id spend_error, _) result) = Inr b"
    and "inp' \<in> set (ps_inputs (bp_pset b))" and "prevout_of inp' \<in> cu_outpoint ` set us"
  shows "made_for DL upd (map (\<lambda>u. (u, wollet)) us) inp'"
  using assms(3) prepared_made_for [OF assms(1,2) _ _ _ _ assms(4,5), where 'id = 'id]
  by (auto simp: build_spend_pset_def singles_of_def bindR_Inr)

lemma sweep_made_for:
  assumes "local_update DL upd" and "builds_unsigned TB"
    and "(build_sweep_pset DL TB wollet us recipient fee :: ('id spend_error, _) result) = Inr b"
    and "inp' \<in> set (ps_inputs (bp_pset b))" and "prevout_of inp' \<in> cu_outpoint ` set us"
  shows "made_for DL upd (map (\<lambda>u. (u, wollet)) us) inp'"
  using assms(3) prepared_made_for [OF assms(1,2) _ _ _ _ assms(4,5), where 'id = 'id]
  by (auto simp: build_sweep_pset_def singles_of_def bindR_Inr)

lemma migration_made_for:
  assumes upd: "local_update DL upd" and unsigned: "builds_unsigned TB" and det: "text_determines DL pairs"
    and build: "(build_migration_pset DL TB wollet pairs recipients dest fee :: ('id spend_error, _) result) = Inr b"
    and inp': "inp' \<in> set (ps_inputs (bp_pset b))" "prevout_of inp' \<in> cu_outpoint ` fst ` set pairs"
  shows "made_for DL upd pairs inp'"
proof -
  from build obtain ext en tx ps where
    loop: "(migration_loop DL pairs [] [] [] :: ('id spend_error, _) result) = Inr (ext, en)"
    and ps: "tb_finish TB (ew_inner wollet) tx = Inr ps"
    and fin: "(finish_blinded DL ps en :: ('id spend_error, _) result) = Inr b"
    by (auto simp: build_migration_pset_def bindR_Inr)
  have "inputs_enriched upd (map fst pairs) (owned_by DL pairs) (ps_inputs ps) (ps_inputs (bp_pset b))"
    using prepared_migration [OF upd det loop fin] by blast
  moreover have "\<forall>inp \<in> set (ps_inputs ps). pi_partial_sigs inp = []"
    using unsigned ps unfolding builds_unsigned_def by blast
  ultimately show ?thesis by (rule enriched_made_for [OF upd]) (use inp' in simp_all)
qed

section \<open>A coin of the vault\<close>

lemma built_made_for:
  assumes laws: "local_update DL upd" "builds_unsigned TB" "text_determines DL pairs"
    and build: "pairs = map (\<lambda>u. (u, wollet)) us
        \<and> build_spend_pset DL TB wollet us recipient amount fee = (Inr b :: ('id spend_error, _) result)
      \<or> pairs = map (\<lambda>u. (u, wollet)) us
        \<and> build_sweep_pset DL TB wollet us recipient fee = (Inr b :: ('id spend_error, _) result)
      \<or> build_migration_pset DL TB wollet pairs recipients dest fee = (Inr b :: ('id spend_error, _) result)"
    and inp: "inp \<in> set (ps_inputs (bp_pset b))" and drawn: "prevout_of inp \<in> cu_outpoint ` fst ` set pairs"
  shows "made_for DL upd pairs inp"
proof -
  from drawn have from_us: "prevout_of inp \<in> cu_outpoint ` set us" if "pairs = map (\<lambda>u. (u, wollet)) us"
    using that by (simp add: image_image)
  from build show ?thesis
    using spend_made_for [OF laws(1,2) _ inp from_us, where 'id = 'id]
      sweep_made_for [OF laws(1,2) _ inp from_us, where 'id = 'id]
      migration_made_for [OF laws(1-3) _ inp drawn, where 'id = 'id] by blast
qed

text \<open>What such an input takes from the chain, and what it is to be signed with.\<close>

definition vault_input ::
    "elements_lib \<Rightarrow> ('mbk, 'sk) pset_lib \<Rightarrow> block list \<Rightarrow> (script \<Rightarrow> script) \<Rightarrow> nat
     \<Rightarrow> ('id, 'xp, 'x) software_signer list \<Rightarrow> pset_input \<Rightarrow> bool" where
  "vault_input E PL chain p2wsh m signers inp \<longleftrightarrow> multisig_input PL m signers inp \<and> prevout_of inp \<notin> spent_in chain
     \<and> (\<exists>t. output_at E chain (prevout_of inp) t \<and> map_option p2wsh (pi_witness_script inp) = Some (to_script_pubkey t))"

text \<open>The coin an input was made for, each owner with a threshold of its own.\<close>

lemma made_coin:
  assumes made: "made_for DL upd pairs inp"
    and coins: "\<And>u owner. (u, owner) \<in> set pairs \<Longrightarrow> owner_of L owner u
      \<and> derives_addresses L DL spk owner \<and> vault_descriptor PL DL upd spk p2wsh (m owner) signers owner"
  obtains u owner where "(u, owner) \<in> set pairs" "cu_outpoint u = prevout_of inp" "multisig_input PL (m owner) signers inp"
    "map_option p2wsh (pi_witness_script inp) = Some (to_script_pubkey (cu_txout u))"
proof -
  from made obtain u owner singles d before where pair: "(u, owner) \<in> set pairs"
    and d: "dl_into_single_descriptors DL (ew_descriptor owner) = Inr singles" "owner_descriptor DL singles u d"
    and made: "cu_outpoint u = prevout_of inp" "pi_partial_sigs before = []" "upd d before = Inr inp"
    unfolding made_for_def owned_by_def by blast
  note u = coins [OF pair]
  have "spk d = to_script_pubkey (cu_txout u)" using u d unfolding owner_of_def derives_addresses_def by metis
  moreover have "multisig_input PL (m owner) signers inp" "map_option p2wsh (pi_witness_script inp) = Some (spk d)"
    using u d made unfolding vault_descriptor_def by blast+
  ultimately show ?thesis using that [OF pair made(1)] by simp
qed

lemma made_vault_input:
  assumes run: "wallet_run E L regs eng w chain" and made: "made_for DL upd pairs inp"
    and coins: "\<And>u owner. (u, owner) \<in> set pairs \<Longrightarrow> listed w u \<and> owner_of L owner u
      \<and> derives_addresses L DL spk owner \<and> vault_descriptor PL DL upd spk p2wsh m signers owner"
  shows "vault_input E PL chain p2wsh m signers inp"
proof -
  obtain u owner where pair: "(u, owner) \<in> set pairs" and u: "cu_outpoint u = prevout_of inp"
      "multisig_input PL m signers inp" "map_option p2wsh (pi_witness_script inp) = Some (to_script_pubkey (cu_txout u))"
    using made_coin [OF made, where m = "\<lambda>_. m"] coins by metis
  have "output_at E chain (prevout_of inp) (cu_txout u)" "prevout_of inp \<notin> spent_in chain"
    using listed_on_chain [OF run conjunct1 [OF coins [OF pair]]] u(1) by simp_all
  then show ?thesis using u unfolding vault_input_def by blast
qed

section \<open>The property\<close>

text \<open>
  C5. A coin's whole way: after any passes that returned Ok and reorgs between them, with an engine
  built afresh for each, take UTXOs the store lists, each with a wollet that derives its script, and
  a blinded PSET that the spend, sweep or migration builder made of them alone, and that the
  coordinator accepts. When at least as many members as the threshold demands sign it with software
  signers, every signing call returns Ok and finalisation comes to the extraction of the transaction,
  from a PSET with the same inputs, each of which takes an output that is on the scanned chain and
  unspent there, with a witness that satisfies the multisig script the output commits to; it returns
  the extracted transaction and fails only if the library's extraction does.
\<close>

theorem listed_coins_leave_vault:
  assumes run: "wallet_run E L regs eng w chain"
    and coins: "\<And>u owner. (u, owner) \<in> set pairs \<Longrightarrow> listed w u \<and> owner_of L owner u
      \<and> derives_addresses L DL spk owner
      \<and> vault_descriptor PL DL upd spk p2wsh (unat (fed_threshold fed)) signers owner"
    and laws: "local_update DL upd" "builds_unsigned TB" "text_determines DL pairs"
    and build: "pairs = map (\<lambda>u. (u, wollet)) us
        \<and> build_spend_pset DL TB wollet us recipient amount fee = (Inr b :: ('id spend_error, _) result)
      \<or> pairs = map (\<lambda>u. (u, wollet)) us
        \<and> build_sweep_pset DL TB wollet us recipient fee = (Inr b :: ('id spend_error, _) result)
      \<or> build_migration_pset DL TB wollet pairs recipients dest fee = (Inr b :: ('id spend_error, _) result)"
    and drawn: "ps_inputs (bp_pset b) \<noteq> []" "prevout_of ` set (ps_inputs (bp_pset b)) \<subseteq> cu_outpoint ` fst ` set pairs"
    and fed: "federation_ok fed" "length (fed_signers fed) < 2 ^ 32" "coordinator_new fed b = Inr c"
    and signers: "distinct (map ss_id signers)" "distinct (map ss_fingerprint signers)"
      "unat (fed_threshold fed) \<le> length signers" "sighash_ignores_sigs K"
      "\<forall>sg \<in> set signers. fed_contains fed (ss_id sg) \<and> signer_ready K valid (bp_pset b) sg"
  shows "\<exists>c' ps'. sign_all K signers c = (Inr (), c') \<and> finalize PL c' = extracted PL ps'
    \<and> length (ps_inputs ps') = length (ps_inputs (bp_pset b))
    \<and> (\<forall>j < length (ps_inputs ps'). prevout_of (ps_inputs ps' ! j) = prevout_of (ps_inputs (bp_pset b) ! j)
         \<and> spends_vault_coin E PL chain p2wsh (unat (fed_threshold fed)) (valid j) (ps_inputs ps' ! j))"
proof -
  let ?ps = "bp_pset b" and ?m = "unat (fed_threshold fed)"
  have coin: "vault_input E PL chain p2wsh ?m signers inp" if inp: "inp \<in> set (ps_inputs ?ps)" for inp
    using made_vault_input [OF run built_made_for [OF laws build inp] coins] inp drawn(2) by blast
  then have scripts: "\<forall>inp \<in> set (ps_inputs ?ps). multisig_input PL ?m signers inp" by (simp add: vault_input_def)
  have "coordinator_new fed (BlindedPset ?ps) = Inr c" using fed(3) by (cases b) simp
  from software_signers_finalize [OF signers(4) fed(1,2) this drawn(1) signers(1-3,5) scripts]
  obtain c' ps' where signed: "sign_all K signers c = (Inr (), c')" "finalize PL c' = extracted PL ps'"
    and len: "length (ps_inputs ps') = length (ps_inputs ?ps)"
    and out: "\<And>j. j < length (ps_inputs ?ps) \<Longrightarrow> same_outpoint (ps_inputs ps' ! j) (ps_inputs ?ps ! j)
      \<and> (\<exists>ws pks w. pi_witness_script (ps_inputs ?ps ! j) = Some ws \<and> multisig_script PL ws ?m pks
           \<and> pi_final_script_witness (ps_inputs ps' ! j) = Some w \<and> satisfies_multisig (valid j) ws ?m pks w)"
    by blast
  have "prevout_of (ps_inputs ps' ! j) = prevout_of (ps_inputs ?ps ! j)
      \<and> spends_vault_coin E PL chain p2wsh ?m (valid j) (ps_inputs ps' ! j)" if j: "j < length (ps_inputs ?ps)" for j
  proof -
    have same: "prevout_of (ps_inputs ps' ! j) = prevout_of (ps_inputs ?ps ! j)"
      using out [OF j] by (simp add: same_outpoint_def prevout_of_def)
    obtain t ws pks w where "output_at E chain (prevout_of (ps_inputs ?ps ! j)) t" "p2wsh ws = to_script_pubkey t"
        "multisig_script PL ws ?m pks" "pi_final_script_witness (ps_inputs ps' ! j) = Some w"
        "satisfies_multisig (valid j) ws ?m pks w"
      using coin [OF nth_mem [OF j]] out [OF j] by (auto simp: vault_input_def)
    then show ?thesis unfolding spends_vault_coin_def
      using same coin [OF nth_mem [OF j]] by (metis vault_input_def)
  qed
  then show ?thesis using signed len by auto
qed

section \<open>A concrete vault\<close>

text \<open>
  The coin that moved to the second version of the example wallet. A definite descriptor is a chain
  code (\<open>2\<close> and \<open>3\<close> for the second version) and an index; its keys are made of both, the update
  writes their 2-of-3 script, and the output script is a digest of the witness script, the two
  bytes in which these scripts differ.
\<close>

definition vault_coin :: captured_utxo where
  "vault_coin = \<lparr>cu_wallet_id = WalletId [1], cu_outpoint = OutPoint (Txid 2) 0, cu_txout = ex_out [3, 1] 60,
     cu_secrets = \<lparr>sec_asset = AssetId 7, sec_asset_bf = 0, sec_value = 60, sec_value_bf = 0\<rparr>,
     cu_chain = Internal, cu_wildcard_index = 1, cu_height = 1, cu_is_spent = False\<rparr>"

definition vault_key :: "u8 \<times> u32 \<Rightarrow> u8 \<Rightarrow> pubkey" where
  "vault_key d k = PublicKey (k # fst d # ucast (snd d) # replicate 30 0)"

definition vault_keys :: "u8 \<times> u32 \<Rightarrow> pubkey list" where
  "vault_keys d = [vault_key d 1, vault_key d 2, vault_key d 3]"

definition vault_spk :: "u8 \<times> u32 \<Rightarrow> script" where
  "vault_spk d = Script [fst d, ucast (snd d)]"

definition vault_program :: "script \<Rightarrow> script" where
  "vault_program ws = Script [script_bytes ws ! 3, script_bytes ws ! 4]"

definition vault_update :: "u8 \<times> u32 \<Rightarrow> pset_input \<Rightarrow> pset_input" where
  "vault_update d inp = inp\<lparr>pi_witness_script := Some (ex_script (vault_keys d)),
     pi_bip32_derivation := [(vault_key d 1, 1, []), (vault_key d 2, 2, []), (vault_key d 3, 3, [])]\<rparr>"

definition vault_desc :: "(bool, u8, u8 \<times> u32) desc_lib" where
  "vault_desc = \<lparr>dl_to_string = (\<lambda>d. if d then ''new'' else ''old''),
     dl_into_single_descriptors = (\<lambda>d. Inr (if d then [2, 3] else [0, 1])),
     dl_at_derivation_index = (\<lambda>ch i. Inr (ch, i)), dl_max_weight_to_satisfy = (\<lambda>d. Inr 100),
     dl_update_input = (\<lambda>ps idx d. if idx < length (ps_inputs ps)
        then Inr (ps\<lparr>ps_inputs := (ps_inputs ps)[idx := vault_update d (ps_inputs ps ! idx)]\<rparr>)
        else Inl ''input index out of range'')\<rparr>"

definition vault_builder :: "(outpoint list, unit, unit, unit) tx_lib" where
  "vault_builder = ex_builder_lib\<lparr>tb_finish := (\<lambda>w b. Inr \<lparr>ps_global = [], ps_inputs = map ex_input_at b,
     ps_outputs = [ex_output, ex_fee]\<rparr>)\<rparr>"

definition vault_pset :: pset where
  "vault_pset = \<lparr>ps_global = [], ps_inputs = [vault_update (3, 1) (ex_input_at (OutPoint (Txid 2) 0))],
     ps_outputs = [ex_output, ex_fee]\<rparr>"

lemma vault_multisig: "multisig_script ex_pset_lib (ex_script (vault_keys d)) 2 (vault_keys d)"
  by (simp add: multisig_script_def ex_script_def vault_keys_def vault_key_def ex_pset_lib_def)

lemma vault_own_keys:
  "own_keys (ex_software 1) (vault_update d inp) = [(vault_key d 1, [])]"
  "own_keys (ex_software 2) (vault_update d inp) = [(vault_key d 2, [])]"
  by (simp_all add: own_keys_def ex_software_eq vault_update_def)

lemma vault_laws:
  "local_update vault_desc (\<lambda>d inp. Inr (vault_update d inp))" "builds_unsigned vault_builder"
  "derives_addresses two_lwk vault_desc vault_spk (version_wollet v)"
  "vault_descriptor ex_pset_lib vault_desc (\<lambda>d inp. Inr (vault_update d inp)) vault_spk vault_program 2
     [ex_software 1, ex_software 2] (version_wollet v)"
proof -
  show "local_update vault_desc (\<lambda>d inp. Inr (vault_update d inp))"
    by (auto simp: local_update_def vault_desc_def vault_update_def prevout_of_def)
  show "builds_unsigned vault_builder"
    by (auto simp: builds_unsigned_def vault_builder_def ex_input_at_def ex_input_def)
  have "vault_spk d = ad_script_pubkey a" if "dl_into_single_descriptors vault_desc v = Inr singles"
    "owner_descriptor vault_desc singles u d"
    "address two_lwk (version_wollet v) (cu_chain u) (cu_wildcard_index u) = Inr a" for singles u d a
    using that by (cases "cu_chain u"; cases v)
      (auto simp: owner_descriptor_def vault_desc_def vault_spk_def address_def two_lwk_def version_wollet_def get_at_def)
  then show "derives_addresses two_lwk vault_desc vault_spk (version_wollet v)"
    by (auto simp: derives_addresses_def version_wollet_def)
  have "vault_program (ex_script (vault_keys d)) = vault_spk d" for d
    by (simp add: vault_program_def ex_script_def vault_keys_def vault_key_def vault_spk_def)
  moreover have "multisig_input ex_pset_lib 2 [ex_software 1, ex_software 2] (vault_update d inp)"
    if "pi_partial_sigs inp = []" for d inp
    using that vault_multisig [of d] vault_own_keys [of d inp]
    by (auto simp: multisig_input_def vault_update_def vault_keys_def vault_key_def)
  ultimately show "vault_descriptor ex_pset_lib vault_desc (\<lambda>d inp. Inr (vault_update d inp)) vault_spk vault_program 2
     [ex_software 1, ex_software 2] (version_wollet v)"
    by (auto simp: vault_descriptor_def vault_update_def)
qed

lemma vault_built:
  "build_migration_pset vault_desc vault_builder (version_wollet True) [(vault_coin, version_wollet True)] [] () ()
    = (Inr (BlindedPset vault_pset) :: (nat spend_error, _) result)"
  by code_simp

lemma vault_ready:
  "signer_ready ex_key_lib ex_valid vault_pset (ex_software 1)"
  "signer_ready ex_key_lib ex_valid vault_pset (ex_software 2)"
  unfolding signer_ready_def vault_pset_def
  by (simp_all add: vault_own_keys) (simp_all add: ex_key_lib_def ex_valid_def ex_software_eq vault_key_def)

lemma vault_listed: "listed two_world vault_coin"
proof -
  have "fst (mem_list_unspent (cu_wallet_id vault_coin) (w_utxos two_world)) = Inr [vault_coin]" by code_simp
  then show ?thesis by (simp add: listed_def)
qed

theorem listed_coins_leave_vault_witness:
  "\<exists>b c c' f. build_migration_pset vault_desc vault_builder (version_wollet True) [(vault_coin, version_wollet True)] [] () ()
        = (Inr b :: (nat spend_error, _) result)
    \<and> coordinator_new (ex_federation [1, 2, 3] Liquid) b = Inr c
    \<and> sign_all ex_key_lib [ex_software 1, ex_software 2] c = (Inr (), c') \<and> finalize ex_pset_lib c' = Inr f
    \<and> length (ps_inputs (fp_pset f)) = 1
    \<and> spends_vault_coin ex_lib ex_pset_lib two_chain vault_program 2 (ex_valid 0) (ps_inputs (fp_pset f) ! 0)"
proof -
  let ?fed = "ex_federation [1, 2, 3] Liquid" and ?ss = "[ex_software 1, ex_software 2]"
  let ?pairs = "[(vault_coin, version_wollet True)]"
  have threshold: "unat (fed_threshold ?fed) = 2" "length (fed_signers ?fed) < 2 ^ 32" by (simp_all add: ex_federation_def)
  obtain c where new: "coordinator_new ?fed (BlindedPset vault_pset) = Inr c"
    by (simp add: coordinator_new_def validate_blinding_def validate_blinding_raw_def vault_pset_def ex_output_def
        ex_fee_def script_is_empty_def Let_def blinded_into_pset_def)
  have drawn: "ps_inputs vault_pset \<noteq> []" "prevout_of ` set (ps_inputs vault_pset) \<subseteq> cu_outpoint ` fst ` set ?pairs"
    by (simp_all add: vault_pset_def vault_update_def ex_input_at_def prevout_of_def vault_coin_def)
  have ids: "distinct (map ss_id ?ss)" "distinct (map ss_fingerprint ?ss)" "unat (fed_threshold ?fed) \<le> length ?ss"
    unfolding threshold by (simp_all add: ex_software_eq)
  have ready: "\<forall>sg \<in> set ?ss. fed_contains ?fed (ss_id sg) \<and> signer_ready ex_key_lib ex_valid (bp_pset (BlindedPset vault_pset)) sg"
    using vault_ready by (simp add: ex_federation_def ex_software_eq)
  have tx: "extracted ex_pset_lib ps = Inr \<lparr>fp_pset = ps,
      fp_transaction = \<lparr>tx_version = 2, tx_lock_time = 0, tx_input = [], tx_output = []\<rparr>\<rparr>" for ps
    by (simp add: extracted_def ex_pset_lib_def)
  have "owner_of two_lwk (version_wollet True) vault_coin"
    by (simp add: owner_of_def address_def two_lwk_def version_wollet_def vault_coin_def ex_out_def)
  then have coins: "listed two_world u \<and> owner_of two_lwk owner u \<and> derives_addresses two_lwk vault_desc vault_spk owner
      \<and> vault_descriptor ex_pset_lib vault_desc (\<lambda>d inp. Inr (vault_update d inp)) vault_spk vault_program
          (unat (fed_threshold ?fed)) ?ss owner" if "(u, owner) \<in> set ?pairs" for u owner
    using that vault_listed vault_laws(3,4) unfolding threshold by simp
  have det: "text_determines vault_desc ?pairs" by (simp add: text_determines_def)
  note run = listed_coins_leave_vault [OF two_run coins vault_laws(1,2) det disjI2 [OF disjI2 [OF vault_built]]
    _ _ ex_federation_ok threshold(2) new ids ex_key_lib_ignores ready]
  have "length (ps_inputs vault_pset) = 1" by (simp add: vault_pset_def)
  with run drawn new vault_built show ?thesis unfolding threshold tx by fastforce
qed

end
