(* ===== verification/Coordinator_Order.thy ===== *)
theory Coordinator_Order
  imports Pset_Properties "HOL-Library.Multiset"
begin

text \<open>
  What the coordinator of \<open>src/pset.rs\<close> promises, without its loops: a received PSET offers one
  finite map of signatures for each input, the keys already held keep theirs, and the signer counts
  when an offer adds a key. \<open>receive_signature\<close> refines that specification for every outcome, a
  panic included, and what \<open>finalize\<close> returns is a function of the specification's state. So the
  order in which the members answer is irrelevant.
\<close>

section \<open>The specification\<close>

record 'id collection =
  cl_sigs :: "nat \<Rightarrow> pubkey \<rightharpoonup> u8 list"
  cl_signed :: "'id set"

definition input_sigs :: "pset_input list \<Rightarrow> nat \<Rightarrow> pubkey \<rightharpoonup> u8 list" where
  "input_sigs inputs j = (case get_at inputs j of None \<Rightarrow> Map.empty | Some inp \<Rightarrow> map_of (pi_partial_sigs inp))"

definition collected :: "('id, 'x) coordinator \<Rightarrow> 'id collection" where
  "collected c = \<lparr>cl_sigs = input_sigs (ps_inputs (co_pset c)), cl_signed = set (co_signed c)\<rparr>"

text \<open>The signatures of input \<open>j\<close> that a received PSET attributes to the fingerprint.\<close>

definition offer :: "fingerprint \<Rightarrow> pset_input list \<Rightarrow> nat \<Rightarrow> pubkey \<rightharpoonup> u8 list" where
  "offer fp sis j = (case get_at sis j of None \<Rightarrow> Map.empty
     | Some si \<Rightarrow> map_of (pi_partial_sigs si) |` {pk. attributed fp si pk})"

definition merge_offer ::
    "(nat \<Rightarrow> pubkey \<rightharpoonup> u8 list) \<Rightarrow> (nat \<Rightarrow> pubkey \<rightharpoonup> u8 list) \<Rightarrow> nat \<Rightarrow> pubkey \<rightharpoonup> u8 list" where
  "merge_offer off own j = off j ++ own j"

text \<open>
  One delivery to a coordinator of \<open>n\<close> inputs. An offer for an input it does not have panics, with
  the offers for the inputs it has already merged.
\<close>

definition spec_receive ::
    "('id, 'x) federation \<Rightarrow> nat \<Rightarrow> 'id \<Rightarrow> pset \<Rightarrow> ('id collection, 'id pset_error, unit) act" where
  "spec_receive fed n i ps v =
     (case fed_find fed i of
        None \<Rightarrow> (Inl (Err (UnknownSigner i)), v)
      | Some sg \<Rightarrow>
          (let off = offer (sg_fingerprint sg) (ps_inputs ps);
               v' = v\<lparr>cl_sigs := (\<lambda>j. if j < n then merge_offer off (cl_sigs v) j else cl_sigs v j)\<rparr>
           in if \<exists>j \<ge> n. off j \<noteq> Map.empty then (Inl (Panic ''index out of bounds''), v')
              else if \<forall>j < n. dom (off j) \<subseteq> dom (cl_sigs v j) then
                (Inl (Err (InvalidSignature i ''no new partial signature attributable to this signer'')), v')
              else (Inr (), v'\<lparr>cl_signed := insert i (cl_signed v)\<rparr>)))"

text \<open>The maps of a received PSET have one entry for a key, as every \<open>BTreeMap\<close> has.\<close>

definition keyed_pset :: "pset \<Rightarrow> bool" where
  "keyed_pset ps \<longleftrightarrow> (\<forall>si \<in> set (ps_inputs ps). distinct (map fst (pi_partial_sigs si)))"

section \<open>Refinement\<close>

lemma collect_new_sigs_distinct:
  "collect_new_sigs fp derivs own sigs = Inr news \<Longrightarrow> distinct (map fst sigs) \<Longrightarrow>
    distinct (map fst news) \<and> fst ` set news \<subseteq> fst ` set sigs"
proof (induction sigs arbitrary: news)
  case (Cons s sigs)
  then show ?case
    by (cases s) (force simp: Let_def bindR_def split: if_splits option.splits sum.splits)
qed simp

lemma collect_new_sigs_map:
  assumes new: "collect_new_sigs fp (pi_bip32_derivation si) (Some inp) (pi_partial_sigs si) = Inr news"
    and dist: "distinct (map fst (pi_partial_sigs si))"
  shows "map_of news = (map_of (pi_partial_sigs si) |` {pk. attributed fp si pk}) |` (- dom (map_of (pi_partial_sigs inp)))"
proof (rule ext)
  fix pk
  note dn = collect_new_sigs_distinct [OF new dist, THEN conjunct1]
  have "map_of news pk = Some s \<longleftrightarrow> ((map_of (pi_partial_sigs si) |` {pk. attributed fp si pk})
      |` (- dom (map_of (pi_partial_sigs inp)))) pk = Some s" for s
    using collect_new_sigs_ok [OF new] dist dn
    by (auto simp: restrict_map_def map_of_eq_Some_iff domIff)
  then show "map_of news pk = ((map_of (pi_partial_sigs si) |` {pk. attributed fp si pk})
      |` (- dom (map_of (pi_partial_sigs inp)))) pk"
    by (metis not_Some_eq)
qed

lemma map_add_absent: "m |` (- dom own) ++ own = m ++ own" "own ++ m |` (- dom own) = m ++ own"
  by (auto simp: fun_eq_iff map_add_def restrict_map_def split: option.splits)

lemma insert_sigs_offer:
  assumes "collect_new_sigs fp (pi_bip32_derivation si) (Some inp) (pi_partial_sigs si) = Inr news"
    and "distinct (map fst (pi_partial_sigs si))"
  shows "map_of (pi_partial_sigs (insert_sigs news inp))
      = map_of (pi_partial_sigs si) |` {pk. attributed fp si pk} ++ map_of (pi_partial_sigs inp)"
    and "news = [] \<longleftrightarrow> dom (map_of (pi_partial_sigs si) |` {pk. attributed fp si pk})
      \<subseteq> dom (map_of (pi_partial_sigs inp))"
proof -
  note news = collect_new_sigs_map [OF assms]
  have "distinct (map fst news)" using collect_new_sigs_distinct [OF assms] by simp
  then have "map_of (rev news) = map_of news" by (simp add: map_of_inject_set rev_map [symmetric])
  then show "map_of (pi_partial_sigs (insert_sigs news inp))
      = map_of (pi_partial_sigs si) |` {pk. attributed fp si pk} ++ map_of (pi_partial_sigs inp)"
    unfolding insert_sigs_lookup by (simp only: news map_add_absent)
  have "news = [] \<longleftrightarrow> dom (map_of news) = {}" by (simp add: dom_map_of_conv_image_fst)
  then show "news = [] \<longleftrightarrow> dom (map_of (pi_partial_sigs si) |` {pk. attributed fp si pk})
      \<subseteq> dom (map_of (pi_partial_sigs inp))"
    unfolding news by auto
qed

lemma collect_new_sigs_absent:
  "collect_new_sigs fp (pi_bip32_derivation si) None sigs =
     (if \<exists>s \<in> set sigs. attributed fp si (fst s) then Inl (Panic ''index out of bounds'') else Inr [])"
proof (induction sigs)
  case (Cons s sigs)
  then show ?case by (cases s) (simp add: Let_def attributed_list_ex)
qed simp

lemma collect_new_sigs_present: "\<exists>news. collect_new_sigs fp derivs (Some inp) sigs = Inr news"
  by (induction sigs) (auto simp: Let_def bindR_Inr)

text \<open>The loop from input \<open>idx\<close> on, against the offers of the inputs it still has to read.\<close>

definition later_offer :: "fingerprint \<Rightarrow> nat \<Rightarrow> pset_input list \<Rightarrow> nat \<Rightarrow> pubkey \<rightharpoonup> u8 list" where
  "later_offer fp idx sis j = (if idx \<le> j then offer fp sis (j - idx) else Map.empty)"

lemma later_offer_Nil [simp]: "later_offer fp idx [] j = Map.empty"
  by (simp add: later_offer_def offer_def get_at_def)

lemma later_offer_Cons:
  "later_offer fp idx (si # sis) j =
     (if j = idx then map_of (pi_partial_sigs si) |` {pk. attributed fp si pk} else later_offer fp (Suc idx) sis j)"
proof (cases "idx < j")
  case True
  then obtain k where "j - idx = Suc k" "j - Suc idx = k" by (metis Suc_diff_Suc)
  with True show ?thesis by (simp add: later_offer_def offer_def get_at_def)
qed (auto simp: later_offer_def offer_def get_at_def)

lemma later_offer_before: "j < idx \<Longrightarrow> later_offer fp idx sis j = Map.empty"
  by (simp add: later_offer_def)

lemma input_sigs_update:
  "idx < length inputs \<Longrightarrow>
    input_sigs (inputs[idx := inp]) j = (if j = idx then map_of (pi_partial_sigs inp) else input_sigs inputs j)"
  by (simp add: input_sigs_def get_at_def)

lemma input_sigs_Suc: "input_sigs (inp # inputs) (Suc j) = input_sigs inputs j"
  by (simp add: input_sigs_def get_at_def)

lemma input_sigs_beyond: "length inputs \<le> j \<Longrightarrow> input_sigs inputs j = Map.empty"
  by (simp add: input_sigs_def get_at_def)
lemma restrict_attributed_empty:
  "map_of sigs |` {pk. attributed fp si pk} = Map.empty \<longleftrightarrow> (\<forall>s \<in> set sigs. \<not> attributed fp si (fst s))"
  by (force simp: fun_eq_iff restrict_map_def map_of_eq_None_iff)

lemma map_add_covered: "dom m \<subseteq> dom own \<Longrightarrow> m ++ own = own"
  by (force simp: fun_eq_iff map_add_def domIff split: option.splits)

definition loop_spec ::
    "fingerprint \<Rightarrow> nat \<Rightarrow> pset_input list \<Rightarrow> bool \<Rightarrow> pset_input list
     \<Rightarrow> ('id pset_error, bool) result \<times> pset_input list \<Rightarrow> bool" where
  "loop_spec fp idx sis found inputs ri \<longleftrightarrow>
     (\<forall>j. input_sigs (snd ri) j = (if j < length inputs then later_offer fp idx sis j ++ input_sigs inputs j
        else Map.empty))
     \<and> fst ri = (if \<exists>j \<ge> length inputs. later_offer fp idx sis j \<noteq> Map.empty then Inl (Panic ''index out of bounds'')
        else Inr (found \<or> (\<exists>j < length inputs. \<not> dom (later_offer fp idx sis j) \<subseteq> dom (input_sigs inputs j))))"

lemma loop_spec_skip:
  assumes rest: "loop_spec fp (Suc idx) sis found inputs ri"
    and covered: "dom (map_of (pi_partial_sigs si) |` {pk. attributed fp si pk}) \<subseteq> dom (input_sigs inputs idx)"
  shows "loop_spec fp idx (si # sis) found inputs ri"
proof -
  let ?off = "map_of (pi_partial_sigs si) |` {pk. attributed fp si pk}"
  have beyond: "?off = Map.empty" if "length inputs \<le> idx"
    using covered unfolding input_sigs_beyond [OF that] by (metis dom_empty dom_eq_empty_conv subset_empty)
  have now: "later_offer fp idx (si # sis) j = (if j = idx then ?off else later_offer fp (Suc idx) sis j)" for j
    by (rule later_offer_Cons)
  have none: "later_offer fp (Suc idx) sis idx = Map.empty" by (simp add: later_offer_before)
  have "later_offer fp idx (si # sis) j ++ input_sigs inputs j = later_offer fp (Suc idx) sis j ++ input_sigs inputs j" for j
    using now [of j] none map_add_covered [OF covered] by auto
  moreover have "(\<exists>j \<ge> length inputs. later_offer fp idx (si # sis) j \<noteq> Map.empty)
      \<longleftrightarrow> (\<exists>j \<ge> length inputs. later_offer fp (Suc idx) sis j \<noteq> Map.empty)"
    using now none beyond by (metis (no_types, lifting))
  moreover have "dom (later_offer fp idx (si # sis) j) \<subseteq> dom (input_sigs inputs j)
      \<longleftrightarrow> dom (later_offer fp (Suc idx) sis j) \<subseteq> dom (input_sigs inputs j)" for j
    using now [of j] none covered by (cases "j = idx") simp_all
  ultimately show ?thesis using rest unfolding loop_spec_def by simp
qed

lemma receive_inputs_spec:
  assumes "\<forall>si \<in> set sis. distinct (map fst (pi_partial_sigs si))"
  shows "loop_spec fp idx sis found inputs
    (receive_inputs fp idx sis found inputs :: ('id pset_error, bool) result \<times> pset_input list)"
  using assms
proof (induction sis arbitrary: idx found inputs)
  case Nil
  then show ?case by (simp add: loop_spec_def input_sigs_beyond)
next
  case (Cons si sis)
  let ?off = "map_of (pi_partial_sigs si) |` {pk. attributed fp si pk}"
  let ?run = "receive_inputs fp idx (si # sis) found inputs :: ('id pset_error, bool) result \<times> pset_input list"
  note IH = Cons.IH [where idx = "Suc idx"]
  have dist: "distinct (map fst (pi_partial_sigs si))" using Cons.prems by simp
  show ?case
  proof (cases "get_at inputs idx")
    case None
    then have idx: "length inputs \<le> idx" by (simp add: get_at_def split: if_splits)
    show ?thesis
    proof (cases "?off = Map.empty")
      case True
      then have step: "?run = receive_inputs fp (Suc idx) sis found inputs"
        using None by (simp add: restrict_attributed_empty collect_new_sigs_absent)
      show ?thesis unfolding step by (rule loop_spec_skip) (use IH Cons.prems True in simp_all)
    next
      case False
      then have step: "?run = (Inl (Panic ''index out of bounds''), inputs)"
        using None by (auto simp: restrict_attributed_empty collect_new_sigs_absent)
      have "later_offer fp idx (si # sis) idx \<noteq> Map.empty" using False by (simp add: later_offer_Cons)
      then show ?thesis unfolding step loop_spec_def using idx
        by (auto simp: input_sigs_beyond later_offer_before)
    qed
  next
    case (Some inp)
    then have idx: "idx < length inputs" and inp: "inputs ! idx = inp"
      by (simp_all add: get_at_def split: if_splits)
    have own: "input_sigs inputs idx = map_of (pi_partial_sigs inp)" by (simp add: input_sigs_def Some)
    obtain news where news: "collect_new_sigs fp (pi_bip32_derivation si) (Some inp) (pi_partial_sigs si)
        = (Inr news :: ('id pset_error, (pubkey \<times> u8 list) list) result)"
      by (metis collect_new_sigs_present)
    show ?thesis
    proof (cases "news = []")
      case True
      then have step: "?run = receive_inputs fp (Suc idx) sis found inputs"
        using Some news by simp
      show ?thesis unfolding step
        by (rule loop_spec_skip) (use insert_sigs_offer(2) [OF news dist] True own IH Cons.prems in simp_all)
    next
      case False
      let ?inputs = "inputs[idx := insert_sigs news inp]"
      have step: "?run = receive_inputs fp (Suc idx) sis True ?inputs"
        using Some news False inp by simp
      have sigs: "input_sigs ?inputs j = (if j = idx then ?off ++ input_sigs inputs idx else input_sigs inputs j)" for j
        using idx own insert_sigs_offer(1) [OF news dist] by (simp add: input_sigs_update)
      have new: "\<not> dom (later_offer fp idx (si # sis) idx) \<subseteq> dom (input_sigs inputs idx)"
        using insert_sigs_offer(2) [OF news dist] False own by (simp add: later_offer_Cons)
      have "loop_spec fp (Suc idx) sis True ?inputs
          (receive_inputs fp (Suc idx) sis True ?inputs :: ('id pset_error, bool) result \<times> pset_input list)"
        using IH Cons.prems by simp
      then show ?thesis
        unfolding step loop_spec_def sigs length_list_update
        using idx new by (auto simp: later_offer_Cons later_offer_before)
    qed
  qed
qed

text \<open>What a delivery leaves alone: the federation, and all of the PSET but signatures.\<close>

definition unsigned_inputs :: "pset_input list \<Rightarrow> pset_input list" where
  "unsigned_inputs inputs = map (\<lambda>inp. inp\<lparr>pi_partial_sigs := []\<rparr>) inputs"

definition frame :: "('id, 'x) coordinator \<Rightarrow> ('id, 'x) federation \<times> pset" where
  "frame c = (co_federation c, (co_pset c)\<lparr>ps_inputs := unsigned_inputs (ps_inputs (co_pset c))\<rparr>)"

lemma unsigned_inputs_length: "unsigned_inputs as = unsigned_inputs bs \<Longrightarrow> length as = length bs"
  unfolding unsigned_inputs_def by (rule map_eq_imp_length_eq)

lemma frame_parts:
  assumes "frame c = frame c'"
  shows "co_federation c = co_federation c'"
    and "unsigned_inputs (ps_inputs (co_pset c)) = unsigned_inputs (ps_inputs (co_pset c'))"
    and "(co_pset c)\<lparr>ps_inputs := x\<rparr> = (co_pset c')\<lparr>ps_inputs := x\<rparr>"
  using assms by (cases "co_pset c"; cases "co_pset c'"; simp add: frame_def)+

lemma receive_inputs_frame:
  assumes "receive_inputs fp idx sis found inputs = (r, inputs')"
  shows "unsigned_inputs inputs' = unsigned_inputs inputs"
proof (rule nth_equalityI)
  note m = receive_inputs_merged [OF assms]
  then show "length (unsigned_inputs inputs') = length (unsigned_inputs inputs)" by (simp add: unsigned_inputs_def)
  fix j assume "j < length (unsigned_inputs inputs')"
  then show "unsigned_inputs inputs' ! j = unsigned_inputs inputs ! j"
    using m by (fastforce simp: unsigned_inputs_def merged_input_def)
qed

lemma later_offer_first: "later_offer fp 0 sis = offer fp sis"
  by (simp add: fun_eq_iff later_offer_def)

lemma merge_inputs_sigs:
  assumes "loop_spec fp 0 sis found inputs (r, inputs')"
  shows "input_sigs inputs' = (\<lambda>j. if j < length inputs then merge_offer (offer fp sis) (input_sigs inputs) j
    else input_sigs inputs j)"
  using assms by (auto simp: fun_eq_iff loop_spec_def later_offer_first merge_offer_def input_sigs_beyond)

lemma receive_refines:
  fixes c :: "('id, 'x) coordinator"
  assumes fed: "federation_ok (co_federation c)" and keyed: "keyed_pset ps"
  shows "spec_receive (co_federation c) (length (ps_inputs (co_pset c))) i ps (collected c)
      = (fst (receive_signature i ps c), collected (snd (receive_signature i ps c)))
    \<and> frame (snd (receive_signature i ps c)) = frame c"
proof (cases "fed_find (co_federation c) i")
  case None
  then show ?thesis using fed by (simp add: receive_signature_def spec_receive_def federation_ok_def)
next
  case (Some sg)
  then have member: "fed_contains (co_federation c) i" using fed unfolding federation_ok_def by blast
  let ?own = "ps_inputs (co_pset c)" and ?fp = "sg_fingerprint sg"
  obtain r inputs where run: "receive_inputs ?fp 0 (ps_inputs ps) False ?own = (r :: ('id pset_error, bool) result, inputs)"
    by (rule prod.exhaust)
  have spec: "loop_spec ?fp 0 (ps_inputs ps) False ?own (r, inputs)"
    using receive_inputs_spec [of "ps_inputs ps" ?fp 0 False ?own, where 'id = 'id] keyed
    by (simp add: keyed_pset_def run)
  note sigs = merge_inputs_sigs [OF spec]
  note still = receive_inputs_frame [OF run]
  have r: "r = (if \<exists>j \<ge> length ?own. offer ?fp (ps_inputs ps) j \<noteq> Map.empty then Inl (Panic ''index out of bounds'')
      else Inr (\<exists>j < length ?own. \<not> dom (offer ?fp (ps_inputs ps) j) \<subseteq> dom (input_sigs ?own j)))"
    using spec by (simp add: loop_spec_def later_offer_first)
  show ?thesis
    using member Some still
    by (auto simp: receive_signature_def spec_receive_def run r collected_def sigs frame_def Let_def)
qed

section \<open>Deliveries in another order\<close>

definition offer_of :: "('id, 'x) federation \<Rightarrow> 'id \<times> pset \<Rightarrow> nat \<Rightarrow> pubkey \<rightharpoonup> u8 list" where
  "offer_of fed d = (case fed_find fed (fst d) of
     None \<Rightarrow> (\<lambda>j. Map.empty) | Some sg \<Rightarrow> offer (sg_fingerprint sg) (ps_inputs (snd d)))"

text \<open>
  Two deliveries under one id offer the same signature wherever both offer one; under two ids, no
  key of an input is offered by both.
\<close>

definition compatible :: "('id, 'x) federation \<Rightarrow> 'id \<times> pset \<Rightarrow> 'id \<times> pset \<Rightarrow> bool" where
  "compatible fed d e \<longleftrightarrow> (\<forall>j. if fst d = fst e
     then offer_of fed d j ++ offer_of fed e j = offer_of fed e j ++ offer_of fed d j
     else dom (offer_of fed d j) \<inter> dom (offer_of fed e j) = {})"

definition fitting :: "nat \<Rightarrow> pset \<Rightarrow> bool" where
  "fitting n ps \<longleftrightarrow> keyed_pset ps \<and> length (ps_inputs ps) \<le> n"

definition covered :: "(nat \<Rightarrow> pubkey \<rightharpoonup> u8 list) \<Rightarrow> (nat \<Rightarrow> pubkey \<rightharpoonup> u8 list) \<Rightarrow> bool" where
  "covered off own \<longleftrightarrow> (\<forall>j. dom (off j) \<subseteq> dom (own j))"

definition accept :: "('id, 'x) federation \<Rightarrow> 'id \<times> pset \<Rightarrow> 'id collection \<Rightarrow> 'id collection" where
  "accept fed d v = v\<lparr>cl_sigs := merge_offer (offer_of fed d) (cl_sigs v),
     cl_signed := (if covered (offer_of fed d) (cl_sigs v) then cl_signed v
       else insert (fst d) (cl_signed v))\<rparr>"

lemma merge_offer_nothing [simp]: "merge_offer (\<lambda>j. Map.empty) own = own"
  by (simp add: fun_eq_iff merge_offer_def)

lemma covered_merge: "covered off own \<Longrightarrow> covered off (merge_offer off' own)"
  by (auto simp: covered_def merge_offer_def)

lemma merge_covered: "covered off own \<Longrightarrow> merge_offer off own = own"
  by (rule ext) (simp add: covered_def merge_offer_def map_add_covered)

lemma covered_merge_apart:
  "\<forall>j. dom (off j) \<inter> dom (off' j) = {} \<Longrightarrow> covered off (merge_offer off' own) = covered off own"
  unfolding covered_def merge_offer_def dom_map_add by blast

lemma spec_receive_fitting:
  assumes "fitting n ps"
  shows "snd (spec_receive fed n i ps v) = accept fed (i, ps) v"
proof (cases "fed_find fed i")
  case None
  then show ?thesis by (simp add: spec_receive_def accept_def offer_of_def covered_def)
next
  case (Some sg)
  let ?off = "offer (sg_fingerprint sg) (ps_inputs ps)"
  have beyond: "?off j = Map.empty" if "n \<le> j" for j
    using assms that by (simp add: offer_def get_at_def fitting_def)
  then have off_beyond: "dom (?off j) \<subseteq> dom (cl_sigs v j)" if "n \<le> j" for j using that by simp
  have merge: "(\<lambda>j. if j < n then merge_offer ?off (cl_sigs v) j else cl_sigs v j) = merge_offer ?off (cl_sigs v)"
    by (rule ext) (simp add: merge_offer_def beyond)
  have "(\<forall>j < n. dom (?off j) \<subseteq> dom (cl_sigs v j)) = covered ?off (cl_sigs v)"
    unfolding covered_def using off_beyond by (meson not_less)
  moreover have "(\<exists>j \<ge> n. ?off j \<noteq> Map.empty) = False" using beyond by blast
  ultimately show ?thesis using Some merge by (auto simp: spec_receive_def accept_def offer_of_def Let_def)
qed

lemma accept_commute:
  assumes "compatible fed d e"
  shows "accept fed d (accept fed e v) = accept fed e (accept fed d v)"
proof -
  let ?d = "offer_of fed d" and ?e = "offer_of fed e"
  have swap: "?d j ++ ?e j = ?e j ++ ?d j" for j
    using assms map_add_comm [of "?d j" "?e j"] unfolding compatible_def by metis
  have sigs: "merge_offer ?d (merge_offer ?e own) = merge_offer ?e (merge_offer ?d own)" for own
    by (rule ext) (simp add: merge_offer_def swap)
  show ?thesis
  proof (cases "fst d = fst e")
    case True
    then show ?thesis using sigs
      by (cases "covered ?d (cl_sigs v)"; cases "covered ?e (cl_sigs v)")
        (simp_all add: accept_def covered_merge merge_covered)
  next
    case False
    then have "\<forall>j. dom (?d j) \<inter> dom (?e j) = {}" "\<forall>j. dom (?e j) \<inter> dom (?d j) = {}"
      using assms by (auto simp: compatible_def)
    then show ?thesis using sigs by (simp add: accept_def covered_merge_apart insert_commute)
  qed
qed

lemma accept_order:
  assumes "\<forall>d \<in> set ds. \<forall>e \<in> set ds. compatible fed d e" and "mset ds = mset ds'"
  shows "fold (accept fed) ds v = fold (accept fed) ds' v"
proof -
  have "fold (accept fed) ds = fold (accept fed) ds'"
    using assms by (intro fold_multiset_equiv) (auto simp: fun_eq_iff accept_commute)
  then show ?thesis by simp
qed

text \<open>The coordinator after a sequence of deliveries, whatever each of them answered.\<close>

definition receive_all :: "('id \<times> pset) list \<Rightarrow> ('id, 'x) coordinator \<Rightarrow> ('id, 'x) coordinator" where
  "receive_all ds c = fold (\<lambda>(i, ps) c. snd (receive_signature i ps c)) ds c"

lemma receive_all_Cons: "receive_all (d # ds) c = receive_all ds (snd (receive_signature (fst d) (snd d) c))"
  by (simp add: receive_all_def split_beta)

lemma receive_all_refines:
  assumes "federation_ok (co_federation c)" and "\<forall>d \<in> set ds. fitting (length (ps_inputs (co_pset c))) (snd d)"
  shows "frame (receive_all ds c) = frame c
    \<and> collected (receive_all ds c) = fold (accept (co_federation c)) ds (collected c)"
  using assms
proof (induction ds arbitrary: c)
  case Nil
  then show ?case by (simp add: receive_all_def)
next
  case (Cons d ds)
  let ?c = "snd (receive_signature (fst d) (snd d) c)"
  have fit: "fitting (length (ps_inputs (co_pset c))) (snd d)" using Cons.prems by simp
  then have "keyed_pset (snd d)" by (simp add: fitting_def)
  note step = receive_refines [OF Cons.prems(1) this, of "fst d"]
  have frame: "frame ?c = frame c" using step by simp
  have view: "collected ?c = accept (co_federation c) d (collected c)"
    using step spec_receive_fitting [OF fit, of "co_federation c" "fst d" "collected c"] by simp
  have still: "co_federation ?c = co_federation c" "length (ps_inputs (co_pset ?c)) = length (ps_inputs (co_pset c))"
    using frame_parts(1,2) [OF frame] by (auto dest: unsigned_inputs_length)
  have "frame (receive_all ds ?c) = frame ?c
      \<and> collected (receive_all ds ?c) = fold (accept (co_federation ?c)) ds (collected ?c)"
    by (rule Cons.IH) (unfold still, use Cons.prems in simp_all)
  then show ?case unfolding receive_all_Cons frame view still by simp
qed

section \<open>Finalisation reads the collection\<close>

lemma collect_ordered_cong: "map_of a = map_of b \<Longrightarrow> collect_ordered a pks = collect_ordered b pks"
  by (simp add: collect_ordered_filter)

lemma finalize_input_cong:
  assumes "a\<lparr>pi_partial_sigs := []\<rparr> = b\<lparr>pi_partial_sigs := []\<rparr>" and "map_of (pi_partial_sigs a) = map_of (pi_partial_sigs b)"
  shows "finalize_input PL ws a = finalize_input PL ws b"
  using assms collect_ordered_cong [OF assms(2)]
  by (cases a; cases b) (simp add: finalize_input_def Let_def)

lemma finalize_inputs_cong:
  assumes "unsigned_inputs as = unsigned_inputs bs" and "input_sigs as = input_sigs bs"
  shows "fst (finalize_inputs PL idx as) = (fst (finalize_inputs PL idx bs) :: ('id pset_error, unit) result)
    \<and> (fst (finalize_inputs PL idx as) = (Inr () :: ('id pset_error, unit) result) \<longrightarrow>
       snd (finalize_inputs PL idx as :: ('id pset_error, unit) result \<times> _)
         = snd (finalize_inputs PL idx bs :: ('id pset_error, unit) result \<times> _))"
proof -
  have "length as = length bs" using assms(1) by (rule unsigned_inputs_length)
  then show ?thesis using assms
  proof (induction as bs arbitrary: idx rule: list_induct2)
    case (Cons a as b bs)
    have same: "a\<lparr>pi_partial_sigs := []\<rparr> = b\<lparr>pi_partial_sigs := []\<rparr>" "unsigned_inputs as = unsigned_inputs bs"
      using Cons.prems(1) by (simp_all add: unsigned_inputs_def)
    have sigs: "map_of (pi_partial_sigs a) = map_of (pi_partial_sigs b)"
      using fun_cong [OF Cons.prems(2), of 0] by (simp add: input_sigs_def get_at_def)
    have "input_sigs as j = input_sigs bs j" for j
      using fun_cong [OF Cons.prems(2), of "Suc j"] by (simp only: input_sigs_Suc)
    then have rest: "input_sigs as = input_sigs bs" by (rule ext)
    have ws: "pi_witness_script a = pi_witness_script b" using same(1) by (cases a; cases b) simp
    show ?case using Cons.IH [OF same(2) rest, of "Suc idx"] ws finalize_input_cong [OF same(1) sigs]
      by (auto split: option.splits prod.splits)
  qed simp
qed

lemma finalize_determined:
  assumes frame: "frame c = frame c'" and view: "collected c = collected c'"
    and "distinct (co_signed c)" and "distinct (co_signed c')"
  shows "finalize PL c = finalize PL c'"
proof -
  have n: "signatures_collected c = signatures_collected c'"
    using assms by (simp add: signatures_collected_def collected_def flip: distinct_card)
  note parts = frame_parts [OF frame]
  note parts(2)
  moreover have "input_sigs (ps_inputs (co_pset c)) = input_sigs (ps_inputs (co_pset c'))"
    using view by (simp add: collected_def)
  ultimately have fin: "fst (finalize_inputs PL 0 (ps_inputs (co_pset c)))
      = (fst (finalize_inputs PL 0 (ps_inputs (co_pset c'))) :: ('a pset_error, unit) result)
    \<and> (fst (finalize_inputs PL 0 (ps_inputs (co_pset c))) = (Inr () :: ('a pset_error, unit) result) \<longrightarrow>
       snd (finalize_inputs PL 0 (ps_inputs (co_pset c)) :: ('a pset_error, unit) result \<times> _)
         = snd (finalize_inputs PL 0 (ps_inputs (co_pset c')) :: ('a pset_error, unit) result \<times> _))"
    by (rule finalize_inputs_cong)
  show ?thesis
    using fin n parts(1,3)
    by (auto simp: finalize_def is_complete_def bindR_def finalize_p2wsh_pset_def split: prod.splits sum.splits)
qed

lemma receive_all_distinct: "distinct (co_signed c) \<Longrightarrow> distinct (co_signed (receive_all ds c))"
proof (induction ds arbitrary: c)
  case (Cons d ds)
  have "distinct (co_signed (snd (receive_signature (fst d) (snd d) c)))"
    using Cons.prems by (auto simp: receive_signature_def Let_def split: prod.splits sum.splits option.splits)
  with Cons.IH show ?case by (simp only: receive_all_Cons)
qed (simp add: receive_all_def)

section \<open>Properties\<close>

text \<open>
  C11. Receiving a PSET does what the specification of the coordinator says, in every case: for an
  id outside the federation nothing; otherwise each input keeps the signatures it holds and gains
  those that the received PSET attributes to the member's fingerprint, the member counts exactly if
  an input gained one (else the answer is the invalid-signature error), and a signature for an
  input the coordinator does not have is a panic. Nothing but signatures and the set of members
  that signed changes.
\<close>

theorem receive_refines_collection:
  assumes "federation_ok (co_federation c)" and "keyed_pset ps"
  shows "receive_signature i ps c = (r, c') \<Longrightarrow>
    spec_receive (co_federation c) (length (ps_inputs (co_pset c))) i ps (collected c) = (r, collected c')
    \<and> frame c' = frame c"
  using receive_refines [OF assms, of i] by simp

theorem receive_refines_collection_witness:
  "\<exists>c'. receive_signature 2 (ex_pset [(ex_key 2, [9])]) ex_coordinator = (Inr (), c')
    \<and> spec_receive (co_federation ex_coordinator) 1 2 (ex_pset [(ex_key 2, [9])]) (collected ex_coordinator)
        = (Inr (), collected c')
    \<and> cl_signed (collected c') = {2}"
proof -
  obtain r c' where call: "receive_signature 2 (ex_pset [(ex_key 2, [9])]) ex_coordinator = (r, c')"
    by (rule prod.exhaust)
  then have res: "r = Inr ()" "co_signed c' = [2]"
    by (auto simp: receive_signature_def ex_coordinator_def ex_federation_def ex_pset_def ex_input_def
        ex_signer_def Let_def get_at_def)
  have "federation_ok (co_federation ex_coordinator)" "length (ps_inputs (co_pset ex_coordinator)) = 1"
    using ex_federation_ok by (simp_all add: ex_coordinator_def ex_pset_def)
  moreover have "keyed_pset (ex_pset [(ex_key 2, [9])])" by (simp add: keyed_pset_def ex_pset_def ex_input_def)
  ultimately show ?thesis using receive_refines_collection [OF _ _ call] call res by (auto simp: collected_def)
qed

text \<open>
  C18. The order in which signed PSETs arrive does not matter: if they have no more inputs than the
  coordinator's and one signature for a key, those of different members have no key of an input in
  common, and repeated ones of a member agree, every order of the same
  deliveries ends with the same number of members that signed and the same answer of
  finalisation, the finalised PSET and transaction included.
\<close>

theorem finalize_order_irrelevant:
  assumes run: "coordinator_run fed c" and fed: "federation_ok fed"
    and fit: "\<forall>d \<in> set ds. fitting (length (ps_inputs (co_pset c))) (snd d)"
    and comp: "\<forall>d \<in> set ds. \<forall>e \<in> set ds. compatible fed d e"
    and perm: "mset ds = mset ds'"
  shows "finalize PL (receive_all ds c) = finalize PL (receive_all ds' c)
    \<and> signatures_collected (receive_all ds c) = signatures_collected (receive_all ds' c)"
proof -
  have inv: "co_federation c = fed" "distinct (co_signed c)"
    using coordinator_run_inv [OF run] by (simp_all add: coordinator_inv_def)
  have fit': "\<forall>d \<in> set ds'. fitting (length (ps_inputs (co_pset c))) (snd d)"
    using fit mset_eq_setD [OF perm] by simp
  note one = receive_all_refines [OF _ fit] and two = receive_all_refines [OF _ fit']
  have frame: "frame (receive_all ds c) = frame (receive_all ds' c)" using one two fed inv by simp
  have view: "collected (receive_all ds c) = collected (receive_all ds' c)"
    using one two fed inv accept_order [OF comp perm] by simp
  note dist = receive_all_distinct [OF inv(2)]
  have "signatures_collected (receive_all ds c) = signatures_collected (receive_all ds' c)"
    using view dist by (metis collected_def collection.select_convs(2) distinct_card signatures_collected_def)
  with finalize_determined [OF frame view dist dist] show ?thesis by blast
qed

lemma ex_offer:
  assumes "i \<in> {1, 2, 3}"
  shows "offer_of (ex_federation [1, 2, 3] Liquid) (i, ex_pset [(ex_key (word_of_nat i), sig)]) j
    = (if j = 0 then [ex_key (word_of_nat i) \<mapsto> sig] else Map.empty)"
  using assms by (auto simp: offer_of_def ex_federation_def ex_signer_def offer_def get_at_def ex_pset_def ex_input_def
      attributed_def ex_key_def fun_eq_iff restrict_map_def)

theorem finalize_order_irrelevant_witness:
  "finalize ex_pset_lib (receive_all [(2, ex_pset [(ex_key 2, [9])]), (3, ex_pset [(ex_key 3, [7])])] ex_coordinator)
     = finalize ex_pset_lib (receive_all [(3, ex_pset [(ex_key 3, [7])]), (2, ex_pset [(ex_key 2, [9])])] ex_coordinator)
   \<and> signatures_collected (receive_all [(2, ex_pset [(ex_key 2, [9])]), (3, ex_pset [(ex_key 3, [7])])] ex_coordinator) = 2"
proof -
  let ?ds = "[(2, ex_pset [(ex_key 2, [9])]), (3, ex_pset [(ex_key 3, [7])])]"
    and ?fed = "ex_federation [1, 2, 3] Liquid"
  have keys: "ex_key 2 \<noteq> ex_key 3" by (simp add: ex_key_def)
  have offers: "offer_of ?fed (2, ex_pset [(ex_key 2, [9])]) j = (if j = 0 then [ex_key 2 \<mapsto> [9]] else Map.empty)"
    "offer_of ?fed (3, ex_pset [(ex_key 3, [7])]) j = (if j = 0 then [ex_key 3 \<mapsto> [7]] else Map.empty)" for j
    using ex_offer [of 2 "[9]" j] ex_offer [of 3 "[7]" j] by simp_all
  have "\<forall>d \<in> set ?ds. \<forall>e \<in> set ?ds. compatible ?fed d e"
    using offers by (simp add: compatible_def keys)
  moreover have "\<forall>d \<in> set ?ds. fitting (length (ps_inputs (co_pset ex_coordinator))) (snd d)"
    by (simp add: fitting_def keyed_pset_def ex_coordinator_def ex_pset_def ex_input_def)
  moreover have "mset ?ds = mset (rev ?ds)" by (simp add: add_mset_commute)
  ultimately have "finalize ex_pset_lib (receive_all ?ds ex_coordinator) = finalize ex_pset_lib (receive_all (rev ?ds) ex_coordinator)"
    using finalize_order_irrelevant [OF ex_coordinator_run ex_federation_ok] by blast
  moreover have "signatures_collected (receive_all ?ds ex_coordinator) = 2"
    by (simp add: receive_all_def receive_signature_def ex_coordinator_def ex_federation_def ex_pset_def ex_input_def
        ex_signer_def ex_key_def Let_def get_at_def signatures_collected_def)
  ultimately show ?thesis by simp
qed

end
