(* ===== verification/Remote_Signing.thy ===== *)
theory Remote_Signing
  imports Coordinator_Order Signing
begin

text \<open>
  The flow with external signers: each member signs its own copy of the PSET (a hardware wallet in
  a browser, say) and sends it back through \<open>receive_signature\<close> of \<open>src/pset.rs\<close>. Enough answers,
  in any order, lead to a final transaction.
\<close>

section \<open>What a sequence of deliveries collects\<close>

lemma fold_accept_sigs:
  "dom (cl_sigs (fold (accept fed) ds v) j) = dom (cl_sigs v j) \<union> (\<Union>d \<in> set ds. dom (offer_of fed d j))
   \<and> (\<forall>pk sig. cl_sigs (fold (accept fed) ds v) j pk = Some sig \<longrightarrow>
        cl_sigs v j pk = Some sig \<or> (\<exists>d \<in> set ds. offer_of fed d j pk = Some sig))"
proof (induction ds arbitrary: v)
  case (Cons d ds)
  have "cl_sigs (accept fed d v) j = offer_of fed d j ++ cl_sigs v j"
    by (simp add: accept_def merge_offer_def)
  then show ?case using Cons.IH [of "accept fed d v"] by (auto simp: map_add_Some_iff)
qed simp

text \<open>A member counts when its PSET offers a key of input \<open>j\<close> that nobody else offers.\<close>

lemma fold_accept_signed:
  assumes "\<forall>d \<in> set ds. \<exists>pk \<in> dom (offer_of fed d j). pk \<notin> dom (cl_sigs v j)"
    and "\<forall>d \<in> set ds. \<forall>e \<in> set ds. fst d \<noteq> fst e \<longrightarrow> dom (offer_of fed d j) \<inter> dom (offer_of fed e j) = {}"
    and "distinct (map fst ds)"
  shows "cl_signed (fold (accept fed) ds v) = cl_signed v \<union> fst ` set ds"
  using assms
proof (induction ds arbitrary: v)
  case (Cons d ds)
  obtain pk where "pk \<in> dom (offer_of fed d j)" "pk \<notin> dom (cl_sigs v j)"
    using bspec [OF Cons.prems(1), of d] by (meson list.set_intros(1))
  then have new: "\<not> covered (offer_of fed d) (cl_sigs v)" unfolding covered_def by blast
  have "\<exists>pk \<in> dom (offer_of fed e j). pk \<notin> dom (cl_sigs (accept fed d v) j)" if e: "e \<in> set ds" for e
  proof -
    have "fst d \<noteq> fst e" using Cons.prems(3) e by force
    then have apart: "dom (offer_of fed d j) \<inter> dom (offer_of fed e j) = {}" using Cons.prems(2) e by simp
    obtain pk where pk: "pk \<in> dom (offer_of fed e j)" "pk \<notin> dom (cl_sigs v j)"
      using bspec [OF Cons.prems(1), of e] e by (meson list.set_intros(2))
    moreover have "dom (cl_sigs (accept fed d v) j) = dom (cl_sigs v j) \<union> dom (offer_of fed d j)"
      by (simp add: accept_def merge_offer_def)
    ultimately show ?thesis using apart by blast
  qed
  then have "cl_signed (fold (accept fed) ds (accept fed d v)) = cl_signed (accept fed d v) \<union> fst ` set ds"
    using Cons.prems(2,3) by (intro Cons.IH) simp_all
  moreover have "cl_signed (accept fed d v) = insert (fst d) (cl_signed v)" using new by (simp add: accept_def)
  ultimately show ?case by simp
qed simp

lemma enough_offers:
  assumes "distinct (map fst ds)"
    and "\<forall>d \<in> set ds. dom (offer_of fed d j) \<noteq> {} \<and> dom (offer_of fed d j) \<subseteq> set pks \<inter> P"
    and apart: "\<forall>d \<in> set ds. \<forall>e \<in> set ds. fst d \<noteq> fst e \<longrightarrow> dom (offer_of fed d j) \<inter> dom (offer_of fed e j) = {}"
  shows "length ds \<le> length (filter (\<lambda>pk. pk \<in> P) pks)"
proof -
  define k where "k d = (SOME pk. pk \<in> dom (offer_of fed d j))" for d
  have k: "k d \<in> dom (offer_of fed d j)" if "d \<in> set ds" for d
    unfolding k_def using assms(2) that by (metis all_not_in_conv someI_ex)
  have "inj_on k (set ds)"
    using k apart assms(1) by (fastforce simp: inj_on_def distinct_map dest: inj_onD)
  then have "card (k ` set ds) = length ds"
    using assms(1) by (simp add: card_image distinct_card distinct_map)
  moreover have "k ` set ds \<subseteq> set (filter (\<lambda>pk. pk \<in> P) pks)" using k assms(2) by fastforce
  then have "card (k ` set ds) \<le> length (filter (\<lambda>pk. pk \<in> P) pks)"
    by (metis card_length card_mono finite_set le_trans)
  ultimately show ?thesis by simp
qed

section \<open>The property\<close>

text \<open>
  What a member returns: a PSET of the coordinator's shape with, for each input, at least one
  signature attributed to the member, all for keys of the input's script and valid.
\<close>

definition answers ::
    "('id, 'x) federation \<Rightarrow> (nat \<Rightarrow> pubkey \<Rightarrow> u8 list \<Rightarrow> bool) \<Rightarrow> pubkey list list \<Rightarrow> 'id \<times> pset \<Rightarrow> bool" where
  "answers fed valid pkss d \<longleftrightarrow> fed_contains fed (fst d) \<and> fitting (length pkss) (snd d)
     \<and> (\<forall>j < length pkss. dom (offer_of fed d j) \<noteq> {} \<and> dom (offer_of fed d j) \<subseteq> set (pkss ! j)
          \<and> (\<forall>pk sig. offer_of fed d j pk = Some sig \<longrightarrow> valid j pk sig))"

text \<open>The coordinator after the members' PSETs: who has signed, and what its inputs hold.\<close>

lemma received_members:
  assumes fed: "federation_ok fed" and new: "coordinator_new fed (BlindedPset ps) = Inr c"
    and ins: "ps_inputs ps \<noteq> []" "length pkss = length (ps_inputs ps)"
      "\<forall>j < length pkss. pi_partial_sigs (ps_inputs ps ! j) = []"
    and ds: "distinct (map fst ds)" "\<forall>d \<in> set ds. answers fed valid pkss d"
      "\<forall>d \<in> set ds. \<forall>e \<in> set ds. compatible fed d e"
  shows "set (co_signed (receive_all ds c)) = fst ` set ds" and "coordinator_inv fed (receive_all ds c)"
    and "length (ps_inputs (co_pset (receive_all ds c))) = length pkss"
    and "j < length pkss \<Longrightarrow> pi_witness_script (ps_inputs (co_pset (receive_all ds c)) ! j) = pi_witness_script (ps_inputs ps ! j)"
    and "j < length pkss \<Longrightarrow> map_of (pi_partial_sigs (ps_inputs (co_pset (receive_all ds c)) ! j))
      = cl_sigs (fold (accept fed) ds (collected c)) j"
    and "cl_sigs (collected c) j = Map.empty"
proof -
  let ?c = "receive_all ds c"
  have c: "co_pset c = ps" "co_signed c = []" "co_federation c = fed"
    using new by (auto simp: coordinator_new_def bindR_Inr blinded_into_pset_def)
  have "\<forall>d \<in> set ds. fitting (length (ps_inputs (co_pset c))) (snd d)"
    using ds(2) ins(2) by (simp add: answers_def c)
  note run = receive_all_refines [OF _ this]
  have frame: "frame ?c = frame c" and view: "collected ?c = fold (accept fed) ds (collected c)"
    using run fed by (simp_all add: c)
  note parts = frame_parts [OF frame, unfolded c]
  show len: "length (ps_inputs (co_pset ?c)) = length pkss"
    using unsigned_inputs_length [OF parts(2)] ins(2) by simp
  have none: "cl_sigs (collected c) j = Map.empty" for j
    using ins(2,3) by (auto simp: collected_def input_sigs_def get_at_def c)
  then show "cl_sigs (collected c) j = Map.empty" .
  have apart: "\<forall>d \<in> set ds. \<forall>e \<in> set ds. fst d \<noteq> fst e \<longrightarrow> dom (offer_of fed d 0) \<inter> dom (offer_of fed e 0) = {}"
    using ds(3) unfolding compatible_def by metis
  have "\<exists>pk \<in> dom (offer_of fed d 0). pk \<notin> dom (cl_sigs (collected c) 0)" if "d \<in> set ds" for d
  proof -
    have "dom (offer_of fed d 0) \<noteq> {}" using ds(2) that ins(1,2) unfolding answers_def by (metis length_greater_0_conv)
    then show ?thesis unfolding none by auto
  qed
  then have "cl_signed (collected ?c) = cl_signed (collected c) \<union> fst ` set ds"
    unfolding view using fold_accept_signed [OF _ apart ds(1)] by blast
  then show signed: "set (co_signed ?c) = fst ` set ds" by (simp add: collected_def c)
  then show "coordinator_inv fed ?c"
    using ds(2) parts(1) receive_all_distinct [of c ds] by (auto simp: coordinator_inv_def answers_def c)
  show "pi_witness_script (ps_inputs (co_pset ?c) ! j) = pi_witness_script (ps_inputs ps ! j)" if "j < length pkss"
    using arg_cong [OF parts(2), of "\<lambda>is. pi_witness_script (is ! j)"] that len ins(2) by (simp add: unsigned_inputs_def)
  show "map_of (pi_partial_sigs (ps_inputs (co_pset ?c) ! j)) = cl_sigs (fold (accept fed) ds (collected c)) j" if "j < length pkss"
    using that len arg_cong [OF view, of "\<lambda>v. cl_sigs v j"] by (simp add: collected_def input_sigs_def get_at_def)
qed

text \<open>
  C12. From a blinded PSET to finalisation with external signers: when at least as many members as
  the threshold demands send back PSETs of the coordinator's shape with valid signatures of their own
  for every input, no two members with a signature for the same key, finalisation comes to the
  extraction of the transaction, in whatever order the PSETs arrive, from a PSET every input of which
  carries a witness that satisfies its multisig script, and returns that transaction; it fails only
  if the library's extraction does.
\<close>

theorem remote_members_finalize:
  assumes fed: "federation_ok fed" "length (fed_signers fed) < 2 ^ 32"
    and new: "coordinator_new fed (BlindedPset ps) = Inr c"
    and ins: "ps_inputs ps \<noteq> []" "length pkss = length (ps_inputs ps)"
      "\<forall>j < length pkss. pi_partial_sigs (ps_inputs ps ! j) = []
        \<and> (\<exists>ws. pi_witness_script (ps_inputs ps ! j) = Some ws
             \<and> multisig_script PL ws (unat (fed_threshold fed)) (pkss ! j))"
    and ds: "distinct (map fst ds)" "unat (fed_threshold fed) \<le> length ds"
      "\<forall>d \<in> set ds. answers fed valid pkss d" "\<forall>d \<in> set ds. \<forall>e \<in> set ds. compatible fed d e"
  shows "\<exists>ps'. finalize PL (receive_all ds c) = extracted PL ps'
    \<and> (\<forall>j < length pkss. \<exists>ws w. pi_witness_script (ps_inputs ps ! j) = Some ws
         \<and> pi_final_script_witness (ps_inputs ps' ! j) = Some w
         \<and> satisfies_multisig (valid j) ws (unat (fed_threshold fed)) (pkss ! j) w)"
proof -
  let ?m = "unat (fed_threshold fed)" and ?c = "receive_all ds c"
  have unsigned: "\<forall>j < length pkss. pi_partial_sigs (ps_inputs ps ! j) = []" using ins(3) by blast
  note got = received_members [OF fed(1) new ins(1,2) unsigned ds(1,3,4)]
  have "card (set (co_signed ?c)) = length ds"
    unfolding got(1) using ds(1) by (metis distinct_card length_map list.set_map)
  then have enough: "?m \<le> card (set (co_signed ?c))" using ds(2) by simp
  have "\<forall>inp \<in> set (ps_inputs (co_pset ?c)). pi_witness_script inp \<noteq> None"
    using got(3,4) ins(3) by (fastforce simp: in_set_conv_nth)
  from finalize_complete [OF got(2) fed enough this] obtain ps' where fin: "finalize PL ?c = extracted PL ps'"
    and p2wsh: "finalize_p2wsh_pset PL (co_pset ?c) = (Inr () :: ('a pset_error, unit) result, ps')" by blast
  have "\<exists>ws w. pi_witness_script (ps_inputs ps ! j) = Some ws
      \<and> pi_final_script_witness (ps_inputs ps' ! j) = Some w
      \<and> satisfies_multisig (valid j) ws ?m (pkss ! j) w" if j: "j < length pkss" for j
  proof -
    let ?sigs = "map_of (pi_partial_sigs (ps_inputs (co_pset ?c) ! j))"
    from ins(3) j obtain ws where ws: "pi_witness_script (ps_inputs ps ! j) = Some ws"
      and ms: "multisig_script PL ws ?m (pkss ! j)" by blast
    note sigs = fold_accept_sigs [of fed ds "collected c" j, folded got(5) [OF j]]
    have valid: "\<forall>pk sig. ?sigs pk = Some sig \<longrightarrow> valid j pk sig" using sigs got(6) ds(3) j by (fastforce simp: answers_def)
    have apart: "\<forall>d \<in> set ds. \<forall>e \<in> set ds. fst d \<noteq> fst e \<longrightarrow> dom (offer_of fed d j) \<inter> dom (offer_of fed e j) = {}"
      using ds(4) unfolding compatible_def by metis
    have "length ds \<le> length (filter (\<lambda>pk. pk \<in> dom ?sigs) (pkss ! j))"
      using ds(3) j sigs by (intro enough_offers [OF ds(1) _ apart]) (auto simp: answers_def)
    then have "?m \<le> length (filter (\<lambda>pk. ?sigs pk \<noteq> None) (pkss ! j))" using ds(2) by (simp add: domIff)
    from finalize_p2wsh_witness [OF p2wsh _ _ ms valid this] got(3,4) j ws show ?thesis by auto
  qed
  then show ?thesis using fin by blast
qed

text \<open>The signatures that \<open>ex_valid\<close> accepts are those of the software signers.\<close>

theorem remote_members_finalize_witness:
  "\<exists>f w. finalize ex_pset_lib (receive_all [(2, ex_pset [(ex_key 2, [2])]), (3, ex_pset [(ex_key 3, [3])])] ex_coordinator) = Inr f
    \<and> pi_final_script_witness (ps_inputs (fp_pset f) ! 0) = Some w
    \<and> satisfies_multisig (\<lambda>pk sig. pk = PublicKey (replicate 33 (hd sig))) (ex_script ex_keys) 2 ex_keys w"
proof -
  let ?ds = "[(2 :: nat, ex_pset [(ex_key 2, [2])]), (3, ex_pset [(ex_key 3, [3])])]"
    and ?fed = "ex_federation [1, 2, 3] Liquid" and ?valid = "\<lambda>(j :: nat) pk sig. pk = PublicKey (replicate 33 (hd sig))"
  have new: "coordinator_new ?fed (BlindedPset (ex_pset [])) = Inr ex_coordinator"
    by (simp add: coordinator_new_def validate_blinding_def validate_blinding_raw_def ex_pset_def ex_output_def
        ex_fee_def script_is_empty_def Let_def ex_coordinator_def blinded_into_pset_def)
  have keys: "ex_key 2 \<noteq> ex_key 3" by (simp add: ex_key_def)
  have offers: "offer_of ?fed (2, ex_pset [(ex_key 2, [2])]) j = (if j = 0 then [ex_key 2 \<mapsto> [2]] else Map.empty)"
    "offer_of ?fed (3, ex_pset [(ex_key 3, [3])]) j = (if j = 0 then [ex_key 3 \<mapsto> [3]] else Map.empty)" for j
    using ex_offer [of 2 "[2]" j] ex_offer [of 3 "[3]" j] by simp_all
  have threshold: "unat (fed_threshold ?fed) = 2" "length (fed_signers ?fed) < 2 ^ 32" by (simp_all add: ex_federation_def)
  have ps: "ps_inputs (ex_pset []) \<noteq> []" "length [ex_keys] = length (ps_inputs (ex_pset []))" by (simp_all add: ex_pset_def)
  have scripts: "\<forall>j < length [ex_keys]. pi_partial_sigs (ps_inputs (ex_pset []) ! j) = []
      \<and> (\<exists>ws. pi_witness_script (ps_inputs (ex_pset []) ! j) = Some ws
           \<and> multisig_script ex_pset_lib ws (unat (fed_threshold ?fed)) ([ex_keys] ! j))"
    unfolding threshold using ex_multisig by (simp add: ex_pset_def ex_input_def)
  have ids: "distinct (map fst ?ds)" "unat (fed_threshold ?fed) \<le> length ?ds" unfolding threshold by simp_all
  have "fed_contains ?fed 2" "fed_contains ?fed 3" by (simp_all add: ex_federation_def)
  moreover have "fitting (length [ex_keys]) (snd d)" if "d \<in> set ?ds" for d
    using that by (auto simp: fitting_def keyed_pset_def ex_pset_def ex_input_def)
  ultimately have answers: "\<forall>d \<in> set ?ds. answers ?fed ?valid [ex_keys] d"
    using offers by (simp add: answers_def ex_keys_def) (simp add: ex_key_def)
  have comp: "\<forall>d \<in> set ?ds. \<forall>e \<in> set ?ds. compatible ?fed d e" using offers by (simp add: compatible_def keys)
  have tx: "extracted ex_pset_lib ps = Inr \<lparr>fp_pset = ps,
      fp_transaction = \<lparr>tx_version = 2, tx_lock_time = 0, tx_input = [], tx_output = []\<rparr>\<rparr>" for ps
    by (simp add: extracted_def ex_pset_lib_def)
  have ws: "pi_witness_script (ps_inputs (ex_pset []) ! 0) = Some (ex_script ex_keys)" by (simp add: ex_pset_def ex_input_def)
  from remote_members_finalize [OF ex_federation_ok threshold(2) new ps scripts ids answers comp] ws
  show ?thesis unfolding threshold tx by fastforce
qed

end
