(* ===== verification/Pset_Stages.thy ===== *)
theory Pset_Stages
  imports Spend_Properties
begin

text \<open>
  The progression \<open>UnsignedPset\<close>, \<open>BlindedPset\<close>, \<open>FinalizedPset\<close> of \<open>src/pset.rs\<close>, whose fields are
  private: the values a program can have of the three types are those the crate's functions return.
  The theorem states the invariant each type carries.
\<close>

datatype stage = Unsigned unsigned_pset | Blinded blinded_pset | Finalized finalized_pset

text \<open>
  Every way to a value of one of the types: the constructors, \<open>blind_pset\<close>, the three builders of
  \<open>src/spend.rs\<close> and the finalisation of a coordinator.
\<close>

inductive stage_value ::
    "('mbk, 'sk) pset_lib \<Rightarrow> ('d, 's, 'e) desc_lib \<Rightarrow> ('b, 'w, 'a, 'f) tx_lib \<Rightarrow> ('id, 'x) federation
     \<Rightarrow> stage \<Rightarrow> bool"
  for PL :: "('mbk, 'sk) pset_lib" and DL :: "('d, 's, 'e) desc_lib" and TB :: "('b, 'w, 'a, 'f) tx_lib"
    and fed :: "('id, 'x) federation" where
  stage_unsigned: "(unsigned_new ps :: ('id pset_error, _) result) = Inr u \<Longrightarrow> stage_value PL DL TB fed (Unsigned u)"
| stage_wrapped: "(blinded_new ps :: ('id pset_error, _) result) = Inr b \<Longrightarrow> stage_value PL DL TB fed (Blinded b)"
| stage_blinded: "stage_value PL DL TB fed (Unsigned u)
    \<Longrightarrow> (blind_pset PL u secrets :: ('id pset_error, _) result) = Inr b
    \<Longrightarrow> stage_value PL DL TB fed (Blinded b)"
| stage_spend: "(build_spend_pset DL TB (wollet :: ('d, 'mbk, 'w) elements_wollet) utxos recipient amount fee
      :: ('id spend_error, _) result) = Inr b \<Longrightarrow> stage_value PL DL TB fed (Blinded b)"
| stage_sweep: "(build_sweep_pset DL TB (wollet :: ('d, 'mbk, 'w) elements_wollet) utxos recipient fee
      :: ('id spend_error, _) result) = Inr b \<Longrightarrow> stage_value PL DL TB fed (Blinded b)"
| stage_migration: "(build_migration_pset DL TB (wollet :: ('d, 'mbk, 'w) elements_wollet) inputs recipients dest fee
      :: ('id spend_error, _) result) = Inr b \<Longrightarrow> stage_value PL DL TB fed (Blinded b)"
| stage_finalized: "coordinator_run fed c \<Longrightarrow> finalize PL c = Inr f \<Longrightarrow> stage_value PL DL TB fed (Finalized f)"

definition final_input :: "pset_input \<Rightarrow> bool" where
  "final_input inp \<longleftrightarrow> pi_final_script_witness inp \<noteq> None \<and> pi_partial_sigs inp = []
     \<and> pi_witness_script inp = None \<and> pi_redeem_script inp = None \<and> pi_bip32_derivation inp = []
     \<and> pi_sighash_type inp = None"

fun stage_ok :: "('mbk, 'sk) pset_lib \<Rightarrow> stage \<Rightarrow> bool" where
  "stage_ok PL (Unsigned u) \<longleftrightarrow> (\<forall>inp \<in> set (ps_inputs (up_pset u)). pi_partial_sigs inp = [])"
| "stage_ok PL (Blinded b) \<longleftrightarrow> (\<exists>out \<in> set (ps_outputs (bp_pset b)). po_value_rangeproof out \<noteq> None)"
| "stage_ok PL (Finalized f) \<longleftrightarrow> (\<forall>inp \<in> set (ps_inputs (fp_pset f)). final_input inp)
     \<and> pl_extract_tx PL (fp_pset f) = Inr (fp_transaction f)"

lemma unsigned_new_ok: "unsigned_new ps = Inr u \<Longrightarrow> stage_ok PL (Unsigned u)"
  by (auto simp: unsigned_new_def Let_def split: if_splits)

lemma blinded_new_ok: "blinded_new ps = Inr b \<Longrightarrow> stage_ok PL (Blinded b)"
  by (auto simp: blinded_new_def Let_def list_ex_iff split: if_splits)

lemma finish_blinded_stage_ok:
  assumes "finish_blinded DL ps enrich = (Inr b :: ('id spend_error, _) result)"
  shows "stage_ok PL (Blinded b)"
proof -
  obtain ps' where "(blinded_new ps' :: ('id pset_error, _) result) = Inr b"
    using assms by (auto simp: finish_blinded_def bindR_Inr)
  then show ?thesis by (rule blinded_new_ok)
qed

lemma finalize_ok:
  assumes "finalize PL (c :: ('id, 'x) coordinator) = Inr f"
  shows "stage_ok PL (Finalized f)"
proof -
  obtain inputs where loop: "finalize_inputs PL 0 (ps_inputs (co_pset c)) = (Inr () :: ('id pset_error, unit) result, inputs)"
    and f: "fp_pset f = (co_pset c)\<lparr>ps_inputs := inputs\<rparr>" "pl_extract_tx PL (fp_pset f) = Inr (fp_transaction f)"
    using assms by (auto simp: finalize_def finalize_p2wsh_pset_def bindR_Inr lib_err_def
        split: if_splits prod.splits sum.splits)
  have "final_input inp" if "inp \<in> set inputs" for inp
    using finalize_inputs_ok [OF loop] that
    by (auto simp: in_set_conv_nth final_input_def finalize_input_def Let_def)
  then show ?thesis using f by simp
qed

text \<open>
  C19. The three PSET types keep what they are named for: whatever functions of the crate made it, an
  unsigned PSET has no partial signature on any input, a blinded one has an output with a range
  proof, and in a finalised one every input carries a final witness and none of the fields that
  finalisation clears, and its transaction is the one extracted from it.
\<close>

theorem stages_well_typed:
  assumes "stage_value PL DL TB fed v"
  shows "stage_ok PL v"
  using assms
proof (induction rule: stage_value.induct)
  case (stage_unsigned ps u)
  then show ?case by (rule unsigned_new_ok)
next
  case (stage_wrapped ps b)
  then show ?case by (rule blinded_new_ok)
next
  case (stage_blinded u secrets b)
  then show ?case by (auto simp: blind_pset_def bindR_Inr Let_def simp del: stage_ok.simps intro: blinded_new_ok)
next
  case (stage_spend wollet utxos recipient amount fee b)
  then show ?case
    by (auto simp: build_spend_pset_def bindR_Inr simp del: stage_ok.simps intro: finish_blinded_stage_ok split: prod.splits)
next
  case (stage_sweep wollet utxos recipient fee b)
  then show ?case
    by (auto simp: build_sweep_pset_def bindR_Inr simp del: stage_ok.simps intro: finish_blinded_stage_ok split: prod.splits)
next
  case (stage_migration wollet inputs recipients dest fee b)
  then show ?case
    by (auto simp: build_migration_pset_def bindR_Inr simp del: stage_ok.simps intro: finish_blinded_stage_ok split: prod.splits)
next
  case (stage_finalized c f)
  from stage_finalized(2) show ?case by (rule finalize_ok)
qed

text \<open>Two members of the example federation sign; the coordinator finalises.\<close>

theorem stages_well_typed_witness:
  "\<exists>f. stage_value ex_pset_lib ex_desc ex_builder_lib (ex_federation [1, 2, 3] Liquid) (Finalized f)
     \<and> length (ps_inputs (fp_pset f)) = 1 \<and> final_input (ps_inputs (fp_pset f) ! 0)"
proof -
  let ?fed = "ex_federation [1, 2, 3] Liquid"
  define c1 where "c1 = snd (receive_signature 2 (ex_pset [(ex_key 2, [9])]) ex_coordinator)"
  define c2 where "c2 = snd (receive_signature 3 (ex_pset [(ex_key 3, [7])]) c1)"
  have "coordinator_run ?fed c1" unfolding c1_def by (rule run_receive [OF ex_coordinator_run surjective_pairing])
  then have run: "coordinator_run ?fed c2" unfolding c2_def by (rule run_receive [OF _ surjective_pairing])
  have "(case finalize ex_pset_lib c2 of Inl _ \<Rightarrow> 0 | Inr f \<Rightarrow> length (ps_inputs (fp_pset f))) = 1"
    unfolding c1_def c2_def by code_simp
  then obtain f where fin: "finalize ex_pset_lib c2 = Inr f" and len: "length (ps_inputs (fp_pset f)) = 1"
    by (auto split: sum.splits)
  have made: "stage_value ex_pset_lib ex_desc ex_builder_lib ?fed (Finalized f)" by (rule stage_finalized [OF run fin])
  from stages_well_typed [OF this] len have "final_input (ps_inputs (fp_pset f) ! 0)" by simp
  with made len show ?thesis by blast
qed

end
