(* ===== verification/Descriptor_Text.thy ===== *)
theory Descriptor_Text
  imports Descriptor
begin

text \<open>
  The text of a descriptor can be read back: what the builder formats determines the blinding key,
  the threshold and, key by key, the fingerprint, the derivation path and the key itself. Two
  federations with different keys, thresholds or blinding keys never share a descriptor.
\<close>

section \<open>Reading a key\<close>

text \<open>What a key's text stands for: in fixed mode the public key, in ranged mode the extended one.\<close>

definition key_view ::
    "'x bitcoin_lib \<Rightarrow> ct_key_mode \<Rightarrow> 'x key_entry \<Rightarrow> fingerprint \<times> child_number list \<times> ('x + pubkey)" where
  "key_view BL mode e = (ke_fingerprint e, ke_derivation_path e,
     case mode of Ranged \<Rightarrow> Inl (ke_xpub e) | Fixed \<Rightarrow> Inr (bl_public_key BL (ke_xpub e)))"

text \<open>
  Fingerprints and public keys are rendered in hexadecimal, extended keys in Base58: each
  rendering can be read back and has none of the characters that structure a descriptor.
\<close>

definition readable_renderings :: "'x bitcoin_lib \<Rightarrow> bool" where
  "readable_renderings BL \<longleftrightarrow>
     inj (bl_show_fingerprint BL) \<and> inj (bl_show_xpub BL) \<and> inj (bl_show_pubkey BL)
     \<and> (\<forall>c \<in> set ''/],''. \<forall>f x p. c \<notin> set (bl_show_fingerprint BL f) \<and> c \<notin> set (bl_show_xpub BL x)
          \<and> c \<notin> set (bl_show_pubkey BL p))"

lemma sep_inject:
  assumes "c \<notin> set a" and "c \<notin> set a'"
  shows "a @ c # x = a' @ c # y \<longleftrightarrow> a = a' \<and> x = y"
proof
  assume eq: "a @ c # x = a' @ c # y"
  then have "a = a'" using takeWhile_until [OF assms(1)] takeWhile_until [OF assms(2)] by metis
  with eq show "a = a' \<and> x = y" by simp
qed simp

lemma format_origin_reads:
  assumes "readable_renderings BL"
  shows "format_origin BL f p = format_origin BL f' p' \<longleftrightarrow> f = f' \<and> p = p'"
proof
  assume eq: "format_origin BL f p = format_origin BL f' p'"
  have fp: "takeWhile (\<lambda>c. c \<noteq> CHR ''/'') (format_origin BL g q) = bl_show_fingerprint BL g" for g q
  proof -
    have "CHR ''/'' \<notin> set (bl_show_fingerprint BL g)" using assms by (simp add: readable_renderings_def)
    then show ?thesis
      by (cases "q = []") (auto simp: format_origin_def Let_def takeWhile_until takeWhile_eq_all_conv)
  qed
  have "f = f'" using fp eq assms by (metis readable_renderings_def injD)
  with eq show "f = f' \<and> p = p'" using format_origin_inject by metis
qed simp

lemma format_key_reads:
  assumes "readable_renderings BL"
  shows "format_key BL m e = format_key BL m' e' \<longleftrightarrow> key_view BL m e = key_view BL m' e'"
proof -
  have bracket: "CHR '']'' \<notin> set (format_origin BL f p)" for f p
    using assms by (intro not_in_origin) (auto simp: readable_renderings_def)
  have slash: "CHR ''/'' \<notin> set (bl_show_pubkey BL k)" for k
    using assms by (simp add: readable_renderings_def)
  have modes: "bl_show_pubkey BL k \<noteq> bl_show_xpub BL x @ ''/0/*''" "bl_show_xpub BL x @ ''/0/*'' \<noteq> bl_show_pubkey BL k"
    for k x using slash [of k] by (metis in_set_conv_decomp append_Cons)+
  have keys: "bl_show_pubkey BL k = bl_show_pubkey BL k' \<longleftrightarrow> k = k'" "bl_show_xpub BL x = bl_show_xpub BL x' \<longleftrightarrow> x = x'"
    for k k' x x' using assms by (auto simp: readable_renderings_def dest: injD)
  show ?thesis
    by (cases m; cases m')
      (auto simp: format_key_def Let_def key_view_def sep_inject [OF bracket bracket]
        format_origin_reads [OF assms] modes keys)
qed

lemma format_key_plain:
  assumes "readable_renderings BL"
  shows "CHR '','' \<notin> set (format_key BL m e)"
  using assms not_in_origin [of "CHR '',''" BL "ke_fingerprint e" "ke_derivation_path e"]
  by (cases m) (auto simp: format_key_def Let_def readable_renderings_def)

lemma hex_encode_inject: "hex_encode a = hex_encode b \<longleftrightarrow> a = b"
  by (metis hex_encode_decode option.inject)

lemma map_eq_transfer:
  assumes "\<And>x y. f x = g y \<longleftrightarrow> f' x = g' y"
  shows "map f xs = map g ys \<longleftrightarrow> map f' xs = map g' ys"
proof (induction xs arbitrary: ys)
  case (Cons x xs)
  then show ?case using assms by (cases ys) simp_all
qed auto

section \<open>The property\<close>

text \<open>
  C29. The text of a built descriptor determines what it was built from: two builders with signers
  format the same string exactly if they have the same blinding key, the same threshold, and key
  by key the same fingerprint, derivation path and key (the extended key in ranged mode, the
  public key in fixed mode, never one for the other).
\<close>

theorem descriptor_text_determines:
  fixes b b' :: "('id, 'x) ct_builder"
  assumes "readable_renderings BL" and "cb_entries b \<noteq> []" and "cb_entries b' \<noteq> []"
  shows "desc_str BL b = desc_str BL b' \<longleftrightarrow>
    cb_master_blinding_key b = cb_master_blinding_key b' \<and> cb_threshold b = cb_threshold b'
    \<and> map (key_view BL (cb_mode b)) (map snd (cb_entries b)) = map (key_view BL (cb_mode b')) (map snd (cb_entries b'))"
proof -
  let ?keys = "\<lambda>b :: ('id, 'x) ct_builder. map (format_key BL (cb_mode b)) (map snd (cb_entries b))"
  let ?views = "\<lambda>b :: ('id, 'x) ct_builder. map (key_view BL (cb_mode b)) (map snd (cb_entries b))"
  have shape: "desc_str BL b = ''ct(slip77('' @ hex_encode (cb_master_blinding_key b) @ CHR '')'' # '',elwsh(sortedmulti(''
      @ dec (unat (cb_threshold b)) @ CHR '','' # join '','' (?keys b) @ '')))''" for b :: "('id, 'x) ct_builder"
    by (simp add: desc_str_def Let_def)
  have hex: "CHR '')'' \<notin> set (hex_encode bs)" for bs by (rule not_in_hex) simp
  have num: "CHR '','' \<notin> set (dec n)" for n by (rule not_in_dec) simp
  have "desc_str BL b = desc_str BL b' \<longleftrightarrow> cb_master_blinding_key b = cb_master_blinding_key b'
      \<and> cb_threshold b = cb_threshold b' \<and> join '','' (?keys b) = join '','' (?keys b')"
    unfolding shape by (simp add: sep_inject [OF hex hex] sep_inject [OF num num] hex_encode_inject word_unat_eq_iff)
  moreover have "join '','' (?keys b) = join '','' (?keys b') \<longleftrightarrow> ?keys b = ?keys b'"
    using join_inject [of "?keys b" "?keys b'" "CHR '',''"] assms(2,3) format_key_plain [OF assms(1)] by auto
  moreover have "?keys b = ?keys b' \<longleftrightarrow> ?views b = ?views b'"
    using format_key_reads [OF assms(1)] by (rule map_eq_transfer)
  ultimately show ?thesis by simp
qed

lemma ex_readable: "readable_renderings ex_bitcoin"
proof -
  have "inj (\<lambda>f :: fingerprint. CHR ''f'' # dec (unat f))" by (auto simp: inj_def simp flip: word_unat_eq_iff)
  moreover have "inj (\<lambda>x. ''tpub'' @ dec x)" by (auto simp: inj_def)
  moreover have "inj (\<lambda>p. hex_encode (pubkey_bytes p))" by (auto simp: inj_def hex_encode_inject intro: pubkey.expand)
  ultimately show ?thesis by (auto simp: readable_renderings_def ex_bitcoin_def not_in_dec not_in_hex)
qed

text \<open>The same two signers under another threshold.\<close>

theorem descriptor_text_determines_witness:
  "desc_str ex_bitcoin (snd (add_signers dec [ex_signer 3, ex_signer 1] ex_builder))
     \<noteq> desc_str ex_bitcoin (snd (add_signers dec [ex_signer 1, ex_signer 3] (ex_builder\<lparr>cb_threshold := 1\<rparr>)))
   \<and> desc_str ex_bitcoin (snd (add_signers dec [ex_signer 3, ex_signer 1] ex_builder))
     = desc_str ex_bitcoin (snd (add_signers dec [ex_signer 1, ex_signer 3] ex_builder))"
proof -
  let ?b = "snd (add_signers dec [ex_signer 3, ex_signer 1] ex_builder)"
  let ?b2 = "snd (add_signers dec [ex_signer 1, ex_signer 3] ex_builder)"
  let ?b3 = "snd (add_signers dec [ex_signer 1, ex_signer 3] (ex_builder\<lparr>cb_threshold := 1\<rparr>))"
  have ids: "distinct (map sg_id [ex_signer 3, ex_signer 1])" "distinct (map sg_id [ex_signer 1, ex_signer 3])"
    by (simp_all add: ex_signer_def)
  have "sort_key sg_id [ex_signer 3, ex_signer 1] = [ex_signer 1, ex_signer 3]"
    "sort_key sg_id [ex_signer 1, ex_signer 3] = [ex_signer 1, ex_signer 3]" by (simp_all add: ex_signer_def)
  then have b: "?b = ex_builder\<lparr>cb_entries := map (\<lambda>s. (sg_id s, entry_of s)) [ex_signer 1, ex_signer 3]\<rparr>"
    "?b2 = ?b" "?b3 = ?b\<lparr>cb_threshold := 1\<rparr>"
    using add_signers_fresh [OF ids(1), of ex_builder dec] add_signers_fresh [OF ids(2), of ex_builder dec]
      add_signers_fresh [OF ids(2), of "ex_builder\<lparr>cb_threshold := 1\<rparr>" dec] by (simp_all add: ex_builder_def)
  then have e: "cb_entries ?b \<noteq> []" "cb_threshold ?b = 2" by (simp_all add: ex_builder_def)
  show ?thesis
    using descriptor_text_determines [OF ex_readable, of ?b ?b3] descriptor_text_determines [OF ex_readable, of ?b ?b2]
      e unfolding b(2,3) by simp
qed

end
