(* ===== verification/Test_Harness.thy ===== *)
theory Test_Harness
  imports EV_Prelude "HOL-Library.Monad_Syntax"
begin

text \<open>
  What the crate's tests use of Rust's test harness: \<open>unwrap\<close> of a result, which panics (\<open>None\<close>)
  on anything but \<open>Ok\<close>, \<open>unwrap_err\<close>, failing assertions, and the search for a substring.
\<close>

definition unwrap :: "('e, 'a) result \<Rightarrow> 'a option" where
  "unwrap r = (case r of Inl _ \<Rightarrow> None | Inr a \<Rightarrow> Some a)"

definition unwrap_err :: "('e, 'a) result \<Rightarrow> 'e option" where
  "unwrap_err r = (case r of Inl (Err e) \<Rightarrow> Some e | _ \<Rightarrow> None)"

text \<open>A call of another crate.\<close>

definition unwrap_lib :: "string + 'a \<Rightarrow> 'a option" where
  "unwrap_lib r = (case r of Inl _ \<Rightarrow> None | Inr a \<Rightarrow> Some a)"

text \<open>A method that changes its receiver.\<close>

definition unwrap_act :: "('e, 'a) result \<times> 's \<Rightarrow> ('a \<times> 's) option" where
  "unwrap_act r = (case r of (Inl _, _) \<Rightarrow> None | (Inr a, s) \<Rightarrow> Some (a, s))"

definition assert_that :: "bool \<Rightarrow> unit option" where
  "assert_that b = (if b then Some () else None)"

fun string_contains :: "string \<Rightarrow> string \<Rightarrow> bool" where
  "string_contains [] pat \<longleftrightarrow> pat = []"
| "string_contains (c # s) pat \<longleftrightarrow> take (length pat) (c # s) = pat \<or> string_contains s pat"

lemma unwrap_Some [simp]: "unwrap r = Some a \<longleftrightarrow> r = Inr a"
  by (simp add: unwrap_def split: sum.split)

lemma unwrap_lib_Some [simp]: "unwrap_lib r = Some a \<longleftrightarrow> r = Inr a"
  by (simp add: unwrap_lib_def split: sum.split)

lemma unwrap_act_Some [simp]: "unwrap_act r = Some (a, s) \<longleftrightarrow> r = (Inr a, s)"
  by (cases r) (simp add: unwrap_act_def split: sum.split)

lemma assert_that_Some [simp]: "assert_that b = Some u \<longleftrightarrow> b"
  by (simp add: assert_that_def)

lemma string_contains_iff: "string_contains s pat \<longleftrightarrow> (\<exists>pre post. s = pre @ pat @ post)"
proof (induction s)
  case (Cons c s)
  have "take (length pat) (c # s) = pat \<longleftrightarrow> (\<exists>post. c # s = pat @ post)"
    by (metis append_eq_conv_conj append_take_drop_id)
  then show ?case using Cons.IH by (auto simp: Cons_eq_append_conv)
qed simp

end
