(* ===== verification/Debug_Text.thy ===== *)
theory Debug_Text
  imports Federated_Wallet Test_Harness
begin

text \<open>
  The hand-written \<open>Debug\<close> renderings of \<open>src/wollet.rs\<close> and \<open>src/federated_wallet.rs\<close>, the derived
  one of the network, and what of the standard library they go through: \<open>DebugStruct\<close> and the
  quoting of strings, in the format of \<open>{:?}\<close>. The wollet's rendering leaves its master blinding key
  out and shows its descriptor; the file shows that the key is in it all the same.
\<close>

section \<open>The standard library's part\<close>

text \<open>\<open>debug_struct(name)\<close>, \<open>field\<close> for each field, \<open>finish_non_exhaustive\<close>.\<close>

definition debug_non_exhaustive :: "string \<Rightarrow> (string \<times> string) list \<Rightarrow> string" where
  "debug_non_exhaustive name fs =
     (if fs = [] then name @ '' { .. }''
      else name @ '' { '' @ join '', '' (map (\<lambda>(n, v). n @ '': '' @ v) fs) @ '', .. }'')"

text \<open>
  The \<open>Debug\<close> of a string: between double quotes, control characters, backslashes and double quotes
  escaped. Bytes of printable characters beyond ASCII are copied.
\<close>

definition hex_digit :: "nat \<Rightarrow> string" where
  "hex_digit n = (if n < 16 then [HEX ! n] else [HEX ! (n div 16), HEX ! (n mod 16)])"

definition escape_debug :: "char \<Rightarrow> string" where
  "escape_debug c =
     (let n = of_char c :: nat; bs = CHR 0x5C in
      if n = 0 then [bs, CHR ''0''] else if n = 9 then [bs, CHR ''t''] else if n = 10 then [bs, CHR ''n'']
      else if n = 13 then [bs, CHR ''r''] else if n = 0x22 \<or> n = 0x5C then [bs, c]
      else if n < 32 \<or> n = 127 then [bs, CHR ''u'', CHR 0x7B] @ hex_digit n @ [CHR 0x7D] else [c])"

definition debug_str :: "string \<Rightarrow> string" where
  "debug_str s = [CHR 0x22] @ concat (map escape_debug s) @ [CHR 0x22]"

section \<open>The crate's part\<close>

text \<open>Derived: the name of the variant.\<close>

fun debug_network :: "elements_network \<Rightarrow> string" where
  "debug_network Liquid = ''Liquid''"
| "debug_network LiquidTestnet = ''LiquidTestnet''"
| "debug_network ElementsRegtest = ''ElementsRegtest''"

text \<open>\<open>show_wd\<close> is the \<open>Display\<close> of LWK's descriptor.\<close>

definition debug_wollet :: "('d \<Rightarrow> string) \<Rightarrow> ('d, 'k, 'w) elements_wollet \<Rightarrow> string" where
  "debug_wollet show_wd w = debug_non_exhaustive ''ElementsWollet''
     [(''network'', debug_network (ew_network w)), (''descriptor'', debug_str (show_wd (ew_descriptor w)))]"

definition debug_federated_wallet :: "('id, 'x, 'c) federated_wallet \<Rightarrow> string" where
  "debug_federated_wallet w = debug_non_exhaustive ''ElementsFederatedWallet''
     [(''federation_count'', dec (length (efw_federation_wallets w))), (''network'', debug_network (efw_network w))]"

section \<open>What they show\<close>

text \<open>
  The rendering of a federated wallet is a function of its network and the number of its versions:
  no key, descriptor or signer is in it.
\<close>

lemma debug_federated_wallet_only:
  "efw_network v = efw_network w \<Longrightarrow> federation_count v = federation_count w \<Longrightarrow>
   debug_federated_wallet v = debug_federated_wallet w"
  by (simp add: debug_federated_wallet_def federation_count_def)

lemma escape_hex: "set s \<subseteq> set HEX \<Longrightarrow> concat (map escape_debug s) = s"
proof (induction s)
  case (Cons c s)
  then have "c \<in> set HEX" by simp
  then have "escape_debug c = [c]" by (auto simp: HEX_def escape_debug_def)
  with Cons show ?case by simp
qed simp

lemma string_contains_append:
  "string_contains s pat \<Longrightarrow> string_contains (pre @ s) pat" "string_contains s pat \<Longrightarrow> string_contains (s @ post) pat"
  unfolding string_contains_iff by (metis append.assoc)+

text \<open>
  LWK prints a descriptor with the SLIP-77 key it was parsed with, in hexadecimal.
\<close>

definition prints_slip77 :: "('d, 'k, 'w) lwk_lib \<Rightarrow> ('d \<Rightarrow> string) \<Rightarrow> bool" where
  "prints_slip77 L show_wd \<longleftrightarrow> (\<forall>key rest d. set key \<subseteq> set HEX \<longrightarrow>
     lwk_parse_descriptor L (''ct(slip77('' @ key @ ''),'' @ rest) = Inr d \<longrightarrow>
     (\<exists>rest'. show_wd d = ''ct(slip77('' @ key @ ''),'' @ rest'))"

text \<open>
  The \<open>Debug\<close> text of a wollet made from a built descriptor has the master blinding key in it: the
  field is left out of the rendering, but the descriptor's text carries the key.
\<close>

lemma debug_wollet_shows_blinding_key:
  assumes "plain_keys key b" and "cb_entries b \<noteq> []"
    and "ct_to_string CL d = ranged_form key b ''/0/*'' @ ''#'' @ checksum"
    and "from_handle L reg CL (handle_new d (cb_master_blinding_key b)) network = Inr w"
    and "prints_slip77 L show_wd"
  shows "string_contains (debug_wollet show_wd w) (hex_encode (cb_master_blinding_key b))"
proof -
  let ?key = "hex_encode (cb_master_blinding_key b)"
  have "to_multipath_string CL d = ranged_form key b ''/<0;1>/*''"
    by (rule multipath_of_printed [OF assms(1-3)])
  with assms(4) have "lwk_parse_descriptor L (ranged_form key b ''/<0;1>/*'') = Inr (ew_descriptor w)"
    by (auto simp: from_handle_def from_handle_with_lwk_def handle_new_def from_descriptor_str_def bindR_Inr Let_def)
  moreover obtain rest where "ranged_form key b ''/<0;1>/*'' = ''ct(slip77('' @ ?key @ ''),'' @ rest"
    unfolding ranged_form_def by simp
  ultimately obtain rest' where "show_wd (ew_descriptor w) = ''ct(slip77('' @ ?key @ ''),'' @ rest'"
    using assms(5) set_hex_encode unfolding prints_slip77_def by metis
  then have "debug_str (show_wd (ew_descriptor w))
      = ([CHR 0x22] @ concat (map escape_debug ''ct(slip77('')) @ ?key @ concat (map escape_debug (''),'' @ rest')) @ [CHR 0x22]"
    by (simp add: debug_str_def escape_hex [OF set_hex_encode])
  then have "string_contains (debug_str (show_wd (ew_descriptor w))) ?key"
    unfolding string_contains_iff by blast
  moreover have "debug_wollet show_wd w = (''ElementsWollet { network: '' @ debug_network (ew_network w) @ '', descriptor: '')
      @ debug_str (show_wd (ew_descriptor w)) @ '', .. }''"
    by (simp add: debug_wollet_def debug_non_exhaustive_def)
  ultimately show ?thesis by (simp only: string_contains_append)
qed

lemma debug_example:
  "debug_federated_wallet \<lparr>efw_federation_wallets = [], efw_network = LiquidTestnet\<rparr>
    = ''ElementsFederatedWallet { federation_count: 0, network: LiquidTestnet, .. }''"
  by code_simp

end
