(* ===== verification/Unit_Tests.thy ===== *)
theory Unit_Tests
  imports Federated_Wallet Testkit Test_Harness
begin

text \<open>
  The unit tests of \<open>src/descriptor.rs\<close>, \<open>src/federated_wallet.rs\<close>, \<open>src/wollet.rs\<close>,
  \<open>src/pset.rs\<close> and \<open>src/confidential.rs\<close>, run on the model: a test is a definition, its value is
  \<open>Some True\<close> when every assertion holds and \<open>None\<close> when an \<open>unwrap\<close> panics. The libraries behind
  the tests (keys, descriptor parser, LWK) are small concrete functions. Two tests are left out,
  \<open>at_derivation_index_works\<close> and \<open>ct_descriptor_blinding_key_matches_slip77\<close>: they assert facts
  about \<open>elements-miniscript\<close> only.
\<close>

section \<open>The harness\<close>

text \<open>The test signer of \<open>src/descriptor.rs\<close>; key derivation as in \<open>key_lib\<close>.\<close>

record ('id, 'x) test_signer =
  ts_xpub :: 'x
  ts_fingerprint :: fingerprint
  ts_path :: "child_number list"
  ts_id :: 'id

definition fake_signer_new :: "('id, 'xp, 'x) key_lib \<Rightarrow> u8 \<Rightarrow> ('id, 'x) test_signer option" where
  "fake_signer_new K seed = do {
     let seed_bytes = (replicate 32 0)[0 := seed];
     xpriv \<leftarrow> unwrap_lib (kl_new_master K seed_bytes);
     path \<leftarrow> unwrap_lib (kl_parse_path K signer_path);
     derived \<leftarrow> unwrap_lib (kl_derive_priv K xpriv path);
     let fp = kl_fingerprint K xpriv;
     Some \<lparr>ts_xpub = kl_xpub K derived, ts_fingerprint = fp, ts_path = path, ts_id = kl_id_of_fingerprint K fp\<rparr>}"

definition fake_signer_info :: "('id, 'x) test_signer \<Rightarrow> ('id, 'x) signer_info" where
  "fake_signer_info s = \<lparr>sg_id = ts_id s, sg_fingerprint = ts_fingerprint s,
     sg_derivation_path = ts_path s, sg_xpub = ts_xpub s\<rparr>"

definition fake_label :: "('id, 'x) test_signer \<Rightarrow> string option" where
  "fake_label s = None"

definition fake_signer_type :: "('id, 'x) test_signer \<Rightarrow> signer_type" where
  "fake_signer_type s = ExternalSigner"

definition fake_supported_networks :: "string \<Rightarrow> ('id, 'x) test_signer \<Rightarrow> network_type list" where
  "fake_supported_networks testnet s = [NT_Bitcoin testnet]"

definition fake_capabilities :: "(transport_type list \<Rightarrow> 'caps) \<Rightarrow> ('id, 'x) test_signer \<Rightarrow> 'caps" where
  "fake_capabilities p2wsh_only s = p2wsh_only [Usb]"

definition fake_health_check :: "('id, 'x) test_signer \<Rightarrow> ('e, 't signer_health) result" where
  "fake_health_check s = Inr \<lparr>sh_reachable = True, sh_firmware_version = None, sh_last_seen = None\<rparr>"

text \<open>
  The tests run over keys that are numbers, the path \<open>m/48'/1'/0'/2'\<close>: this is what the constructor
  gives for them.
\<close>

definition fake_keys :: "(nat, nat, nat) key_lib" where
  "fake_keys = \<lparr>kl_new_master = (\<lambda>s. Inr (unat (hd s))),
     kl_parse_path = (\<lambda>s. Inr [ChildHardened 48, ChildHardened 1, ChildHardened 0, ChildHardened 2]),
     kl_derive_priv = (\<lambda>x p. Inr (10 * x)), kl_xpub = (\<lambda>x. x), kl_fingerprint = word_of_nat, kl_id_of_fingerprint = unat,
     kl_genesis_hash = (\<lambda>n. BlockHash 0), kl_extract_tx = (\<lambda>ps. Inl ''not needed''),
     kl_sighash_msg = (\<lambda>ps i tx g. Inl ''not needed''), kl_sign_der = (\<lambda>m x. [])\<rparr>"

definition fake_signer :: "nat \<Rightarrow> (nat, nat) signer_info" where
  "fake_signer seed = \<lparr>sg_id = seed, sg_fingerprint = word_of_nat seed,
     sg_derivation_path = [ChildHardened 48, ChildHardened 1, ChildHardened 0, ChildHardened 2], sg_xpub = 10 * seed\<rparr>"

lemma fake_signer_new:
  assumes "seed < 256"
  shows "map_option fake_signer_info (fake_signer_new fake_keys (word_of_nat seed)) = Some (fake_signer seed)"
proof -
  have u8: "unat (word_of_nat seed :: u8) = seed" and u32: "unat (word_of_nat seed :: u32) = seed"
    using assms by (simp_all add: unat_of_nat take_bit_nat_eq_self)
  have "(ucast (word_of_nat seed :: u8) :: u32) = word_of_nat (unat (word_of_nat seed :: u8))" by simp
  then have "(ucast (word_of_nat seed :: u8) :: u32) = word_of_nat seed" unfolding u8 .
  then show ?thesis
    by (simp add: fake_signer_new_def fake_keys_def fake_signer_info_def fake_signer_def unwrap_lib_def hd_conv_nth Let_def u8 u32)
qed

definition new_federation :: "u32 \<Rightarrow> (nat, nat) signer_info list \<Rightarrow> network_type \<Rightarrow> (nat, nat) federation" where
  "new_federation threshold signers network = \<lparr>fed_network = network, fed_threshold = threshold,
     fed_signers = signers, fed_contains = (\<lambda>i. list_ex (\<lambda>s. sg_id s = i) signers),
     fed_find = (\<lambda>i. find (\<lambda>s. sg_id s = i) signers)\<rparr>"

text \<open>Adding signers, each call unwrapped.\<close>

fun add_all :: "(nat, nat) signer_info list \<Rightarrow> (nat, nat) ct_builder \<Rightarrow> (nat, nat) ct_builder option" where
  "add_all [] b = Some b"
| "add_all (s # ss) b = (case add_signer dec s b of (Inr _, b') \<Rightarrow> add_all ss b' | (Inl _, _) \<Rightarrow> None)"

section \<open>\<open>src/descriptor.rs\<close>\<close>

definition build_ct_descriptor_fixed_mode :: "bool option" where
  "build_ct_descriptor_fixed_mode = do {
     builder \<leftarrow> unwrap (ct_builder_new 2 (replicate 32 0xab));
     builder \<leftarrow> add_all (map fake_signer [1, 2, 3]) builder;
     desc \<leftarrow> unwrap (build ex_bitcoin ex_ct builder);
     let s = ct_to_string ex_ct desc;
     Some (take 10 s = ''ct(slip77('' \<and> string_contains s ''sortedmulti(2,'')}"

definition build_ct_descriptor_ranged_mode :: "bool option" where
  "build_ct_descriptor_ranged_mode = do {
     builder \<leftarrow> unwrap (ct_builder_new 2 (replicate 32 0xcd));
     builder \<leftarrow> add_all (map fake_signer [1, 2, 3]) (key_mode Ranged builder);
     desc \<leftarrow> unwrap (build ex_bitcoin ex_ct builder);
     let s = ct_to_string ex_ct desc;
     Some (string_contains s ''/0/*'')}"

definition multipath_string_replaces_wildcard :: "bool option" where
  "multipath_string_replaces_wildcard = do {
     builder \<leftarrow> unwrap (ct_builder_new 2 (replicate 32 0xef));
     builder \<leftarrow> add_all (map fake_signer [1, 2, 3]) (key_mode Ranged builder);
     desc \<leftarrow> unwrap (build ex_bitcoin ex_ct builder);
     let mp = to_multipath_string ex_ct desc;
     Some (string_contains mp ''/<0;1>/*'' \<and> \<not> string_contains mp ''#'')}"

definition bad_blinding_key_length :: "bool option" where
  "bad_blinding_key_length = do {
     err \<leftarrow> unwrap_err (ct_builder_new 2 (replicate 16 0) :: (_, (nat, nat) ct_builder) result);
     Some (err = BadBlindingKeyLength 16)}"

definition duplicate_signer_rejected :: "bool option" where
  "duplicate_signer_rejected = do {
     builder \<leftarrow> unwrap (ct_builder_new 2 (replicate 32 0xaa));
     let s1 = fake_signer 1;
     builder \<leftarrow> add_all [s1] builder;
     err \<leftarrow> unwrap_err (fst (add_signer dec s1 builder));
     Some (case err of DuplicateKey _ \<Rightarrow> True | _ \<Rightarrow> False)}"

definition no_signers_rejected :: "bool option" where
  "no_signers_rejected = do {
     builder \<leftarrow> unwrap (ct_builder_new 2 (replicate 32 0xbb) :: (_, (nat, nat) ct_builder) result);
     err \<leftarrow> unwrap_err (build ex_bitcoin ex_ct builder);
     Some (err = NoSigners)}"

lemma descriptor_tests_pass:
  "build_ct_descriptor_fixed_mode = Some True"
  "build_ct_descriptor_ranged_mode = Some True"
  "multipath_string_replaces_wildcard = Some True"
  "bad_blinding_key_length = Some True"
  "duplicate_signer_rejected = Some True"
  "no_signers_rejected = Some True"
  by code_simp+

section \<open>\<open>src/federated_wallet.rs\<close>\<close>

definition make_federation :: "nat list \<Rightarrow> u32 \<Rightarrow> (nat, nat) federation" where
  "make_federation seeds threshold =
     new_federation threshold (map fake_signer seeds) (NT_Elements IdElementsRegtest)"

definition make_handle :: "(nat, nat) federation \<Rightarrow> u8 list \<Rightarrow> string wallet_handle option" where
  "make_handle fed blinding_key = do {
     builder \<leftarrow> unwrap (ct_builder_new (fed_threshold fed) blinding_key);
     builder \<leftarrow> add_all (fed_signers fed) builder;
     desc \<leftarrow> unwrap (build ex_bitcoin ex_ct builder);
     Some (handle_new desc blinding_key)}"

definition construct_with_initial_federation :: "bool option" where
  "construct_with_initial_federation = do {
     let fed = make_federation [1, 2, 3] 2;
     handle \<leftarrow> make_handle fed (replicate 32 0xaa);
     fw \<leftarrow> unwrap (federated_new fed handle ElementsRegtest);
     cur \<leftarrow> unwrap (current fw :: (unit, _) result);
     threshold \<leftarrow> unwrap (wallet_threshold fw :: (unit, _) result);
     Some (federation_count fw = 1 \<and> fw_index cur = 0 \<and> threshold = 2 \<and> elements_network_of fw = ElementsRegtest)}"

text \<open>The two versions most tests start with.\<close>

definition two_versions :: "((nat, nat, string) federated_wallet \<times> (nat, nat, string) federated_wallet) option" where
  "two_versions = do {
     let fed1 = make_federation [1, 2, 3] 2;
     h1 \<leftarrow> make_handle fed1 (replicate 32 0xaa);
     fw1 \<leftarrow> unwrap (federated_new fed1 h1 ElementsRegtest);
     let fed2 = make_federation [1, 3, 4] 2;
     h2 \<leftarrow> make_handle fed2 (replicate 32 0xbb);
     fw2 \<leftarrow> unwrap (with_federation fw1 fed2 h2);
     Some (fw1, fw2)}"

definition with_federation_adds_and_preserves_original :: "bool option" where
  "with_federation_adds_and_preserves_original = do {
     (fw1, fw2) \<leftarrow> two_versions;
     cur \<leftarrow> unwrap (current fw2 :: (unit, _) result);
     Some (federation_count fw1 = 1 \<and> federation_count fw2 = 2 \<and> fw_index cur = 1)}"

definition distinct_blinding_keys_per_handle :: "bool option" where
  "distinct_blinding_keys_per_handle = do {
     (_, fw) \<leftarrow> two_versions;
     a \<leftarrow> handle_at fw 0;
     b \<leftarrow> handle_at fw 1;
     Some (wh_blinding_key a = replicate 32 0xaa \<and> wh_blinding_key b = replicate 32 0xbb)}"

definition ct_descriptors_returns_all :: "bool option" where
  "ct_descriptors_returns_all = do {
     (_, fw) \<leftarrow> two_versions;
     Some (length (ct_descriptors fw) = 2)}"

definition wallet_handles_iterates_all :: "bool option" where
  "wallet_handles_iterates_all = do {
     (_, fw) \<leftarrow> two_versions;
     let blinding_keys = map wh_blinding_key (wallet_handles fw);
     Some (blinding_keys = [replicate 32 0xaa, replicate 32 0xbb] \<and> length (wallet_handles fw) = 2)}"

definition find_by_signer_returns_correct_federations :: "bool option" where
  "find_by_signer_returns_correct_federations = do {
     (_, fw) \<leftarrow> two_versions;
     let found = find_by_signer fw (sg_id (fake_signer 2));
     Some (map fw_index found = [0])}"

definition removed_signer_in_all_but_not_current :: "bool option" where
  "removed_signer_in_all_but_not_current = do {
     let id2 = sg_id (fake_signer 2);
     (_, fw) \<leftarrow> two_versions;
     current_ids \<leftarrow> unwrap (current_signer_ids fw :: (unit, _) result);
     is_current \<leftarrow> unwrap (signer_is_current fw id2 :: (unit, _) result);
     Some (id2 \<in> all_signer_ids fw \<and> id2 \<notin> current_ids \<and> \<not> is_current)}"

definition immutability_original_unchanged :: "bool option" where
  "immutability_original_unchanged = do {
     let fed1 = make_federation [1, 2, 3] 2;
     h1 \<leftarrow> make_handle fed1 (replicate 32 0xaa);
     fw1 \<leftarrow> unwrap (federated_new fed1 h1 ElementsRegtest);
     let original_count = federation_count fw1;
     original_threshold \<leftarrow> unwrap (wallet_threshold fw1 :: (unit, _) result);
     let fed2 = make_federation [1, 3, 4] 3;
     h2 \<leftarrow> make_handle fed2 (replicate 32 0xbb);
     _ \<leftarrow> unwrap (with_federation fw1 fed2 h2);
     threshold \<leftarrow> unwrap (wallet_threshold fw1 :: (unit, _) result);
     Some (federation_count fw1 = original_count \<and> threshold = original_threshold)}"

definition non_elements_network_rejected :: "bool option" where
  "non_elements_network_rejected = do {
     let fed = new_federation 2 (map fake_signer [1, 2, 3]) (NT_Bitcoin ''regtest'');
     handle \<leftarrow> make_handle (make_federation [1, 2, 3] 2) (replicate 32 0xaa);
     err \<leftarrow> unwrap_err (federated_new fed handle ElementsRegtest);
     Some (err = NonElementsNetwork)}"

lemma federated_wallet_tests_pass:
  "construct_with_initial_federation = Some True"
  "with_federation_adds_and_preserves_original = Some True"
  "distinct_blinding_keys_per_handle = Some True"
  "ct_descriptors_returns_all = Some True"
  "wallet_handles_iterates_all = Some True"
  "find_by_signer_returns_correct_federations = Some True"
  "removed_signer_in_all_but_not_current = Some True"
  "immutability_original_unchanged = Some True"
  "non_elements_network_rejected = Some True"
  by code_simp+

section \<open>\<open>src/wollet.rs\<close>\<close>

text \<open>
  LWK for the tests: a wallet is the text of its descriptor; an address is made of the chain, the
  index and the length of that text.
\<close>

definition text_lwk :: "(string, string, unit) lwk_lib" where
  "text_lwk = \<lparr>lwk_parse_descriptor = Inr, lwk_build_wollet = (\<lambda>n d. Inr ()), lwk_parse_mbk = Inr,
     lwk_address = (\<lambda>d i p. Inr \<lparr>ad_script_pubkey = Script [0, ucast i, word_of_nat (length d)], ad_blinding_pubkey = None\<rparr>),
     lwk_change = (\<lambda>d i p. Inr \<lparr>ad_script_pubkey = Script [1, ucast i, word_of_nat (length d)], ad_blinding_pubkey = None\<rparr>),
     lwk_try_unblind = (\<lambda>t d. Inl ''not needed'')\<rparr>"

definition make_ranged_handle :: "u8 list \<Rightarrow> string wallet_handle option" where
  "make_ranged_handle blinding_key = do {
     builder \<leftarrow> unwrap (ct_builder_new 2 blinding_key);
     builder \<leftarrow> add_all (map fake_signer [1, 2, 3]) (key_mode Ranged builder);
     desc \<leftarrow> unwrap (build ex_bitcoin ex_ct builder);
     Some (handle_new desc blinding_key)}"

definition from_handle_builds_wollet :: "bool option" where
  "from_handle_builds_wollet = do {
     handle \<leftarrow> make_ranged_handle (replicate 32 0x11);
     w \<leftarrow> unwrap (from_handle text_lwk LwkLiquid ex_ct handle ElementsRegtest);
     Some (network_of_wollet w = ElementsRegtest \<and> to_network_type (network_of_wollet w) = NT_Elements IdElementsRegtest)}"

definition watched_scripts_are_deterministic_and_distinct :: "bool option" where
  "watched_scripts_are_deterministic_and_distinct = do {
     handle \<leftarrow> make_ranged_handle (replicate 32 0x22);
     w \<leftarrow> unwrap (from_handle text_lwk LwkLiquid ex_ct handle ElementsRegtest);
     a \<leftarrow> unwrap (watched_scripts text_lwk w 5);
     b \<leftarrow> unwrap (watched_scripts text_lwk w 5);
     ext0 \<leftarrow> unwrap (address text_lwk w External 0);
     int0 \<leftarrow> unwrap (address text_lwk w Internal 0);
     Some (a = b \<and> length a = 10 \<and> ad_script_pubkey ext0 \<noteq> ad_script_pubkey int0
       \<and> length (remdups (map fst a)) = 10
       \<and> a ! 0 = (ad_script_pubkey ext0, External, 0) \<and> fst (snd (a ! 1)) = Internal \<and> snd (snd (a ! 1)) = 0)}"

lemma wollet_tests_pass:
  "from_handle_builds_wollet = Some True"
  "watched_scripts_are_deterministic_and_distinct = Some True"
  by code_simp+

section \<open>\<open>src/pset.rs\<close> and \<open>src/confidential.rs\<close>\<close>

definition minimal_pset :: pset where
  "minimal_pset = \<lparr>ps_global = [], ps_inputs = [], ps_outputs = []\<rparr>"

definition unsigned_pset_accepts_zero_sigs :: "bool option" where
  "unsigned_pset_accepts_zero_sigs = do {
     _ \<leftarrow> unwrap (unsigned_new minimal_pset :: (nat pset_error, _) result);
     Some True}"

definition blinded_pset_rejects_unblinded :: "bool option" where
  "blinded_pset_rejects_unblinded = do {
     err \<leftarrow> unwrap_err (blinded_new minimal_pset :: (nat pset_error, _) result);
     Some (err = NotBlinded)}"

definition validation_passes_on_empty_outputs :: "bool option" where
  "validation_passes_on_empty_outputs = do {
     let blinded = (blinded_new minimal_pset :: (nat pset_error, _) result);
     _ \<leftarrow> unwrap (validate_blinding_raw minimal_pset :: (nat pset_error, _) result);
     Some (isl blinded)}"

lemma pset_tests_pass:
  "unsigned_pset_accepts_zero_sigs = Some True"
  "blinded_pset_rejects_unblinded = Some True"
  "validation_passes_on_empty_outputs = Some True"
  by code_simp+

end
