(* ===== verification/Engine_Tests.thy ===== *)
theory Engine_Tests
  imports Unit_Tests Sync_Scan Sync_Fakes
begin

text \<open>
  The tests of \<open>src/sync/tests.rs\<close> run on the model: the store contract tests of the fakes and the
  engine tests (capture, spend, attribution, versions, reorg, idempotence). As in Unit_Tests a test
  is a definition and passes when it is \<open>Some True\<close>. The libraries are concrete: LWK knows a
  descriptor by a hash of its text, hashes of transactions and blocks are polynomials of their data.
\<close>

section \<open>The test kit\<close>

definition text_hash :: "string \<Rightarrow> u8" where
  "text_hash s = foldl (\<lambda>h c. 31 * h + of_char c) 7 s"

definition test_asset :: asset_id where
  "test_asset = AssetId 0x0202020202020202020202020202020202020202020202020202020202020202"

definition hash_lwk :: "(u8, string, unit) lwk_lib" where
  "hash_lwk = \<lparr>lwk_parse_descriptor = (\<lambda>s. Inr (text_hash s)), lwk_build_wollet = (\<lambda>n d. Inr ()), lwk_parse_mbk = Inr,
     lwk_address = (\<lambda>d i p. Inr \<lparr>ad_script_pubkey = Script [ucast i, 0, d], ad_blinding_pubkey = None\<rparr>),
     lwk_change = (\<lambda>d i p. Inr \<lparr>ad_script_pubkey = Script [ucast i, 1, d], ad_blinding_pubkey = None\<rparr>),
     lwk_try_unblind = (\<lambda>t d. case (to_value t, to_asset t) of
        (ValueExplicit v, AssetExplicit a) \<Rightarrow> Inr \<lparr>sec_asset = a, sec_asset_bf = 0, sec_value = v, sec_value_bf = 0\<rparr>
      | _ \<Rightarrow> Inl ''no blinding key'')\<rparr>"

text \<open>Polynomial hashes, and the bytes of a number, least significant first.\<close>

definition poly :: "256 word list \<Rightarrow> 256 word" where
  "poly xs = foldl (\<lambda>h x. 257 * h + x) 1 xs"

definition le_bytes :: "nat \<Rightarrow> 256 word \<Rightarrow> u8 list" where
  "le_bytes n x = map (\<lambda>i. ucast (drop_bit (8 * i) x)) [0 ..< n]"

fun txid_word :: "txid \<Rightarrow> 256 word" where "txid_word (Txid x) = x"
fun hash_word :: "block_hash \<Rightarrow> 256 word" where "hash_word (BlockHash x) = x"

definition poly_lib :: elements_lib where
  "poly_lib = \<lparr>lib_txid = (\<lambda>t. Txid (poly (concat (map (\<lambda>i. [txid_word (op_txid (ti_previous_output i)),
         ucast (op_vout (ti_previous_output i))]) (tx_input t))
       @ map (\<lambda>out. case to_value out of ValueExplicit v \<Rightarrow> ucast v | _ \<Rightarrow> 0) (tx_output t)))),
     lib_block_hash = (\<lambda>b. BlockHash (poly (map ucast (blk_header b)))),
     lib_serialize_block = blk_header, lib_serialize_tx = (\<lambda>t. []), lib_show_block_hash = (\<lambda>h. ''hash'')\<rparr>"

definition wid :: "u8 \<Rightarrow> wallet_id" where
  "wid n = WalletId ((replicate 16 0)[0 := n])"

definition make_wollet :: "nat list \<Rightarrow> u8 \<Rightarrow> (u8, string, unit) elements_wollet option" where
  "make_wollet signer_seeds blinding = do {
     builder \<leftarrow> unwrap (ct_builder_new 2 (replicate 32 blinding));
     builder \<leftarrow> add_all (map fake_signer signer_seeds) (key_mode Ranged builder);
     desc \<leftarrow> unwrap (build ex_bitcoin ex_ct builder);
     unwrap (from_handle hash_lwk LwkLiquid ex_ct (handle_new desc (replicate 32 blinding)) ElementsRegtest)}"

definition explicit_txout :: "script \<Rightarrow> u64 \<Rightarrow> txout" where
  "explicit_txout spk v = \<lparr>to_asset = AssetExplicit test_asset, to_value = ValueExplicit v, to_nonce = [],
     to_script_pubkey = spk, to_witness = []\<rparr>"

text \<open>\<open>OutPoint::null()\<close> with another output number.\<close>

definition null_outpoint :: "u32 \<Rightarrow> outpoint" where
  "null_outpoint vout = OutPoint (Txid 0) vout"

definition tx_spending :: "outpoint list \<Rightarrow> (script \<times> u64) list \<Rightarrow> transaction" where
  "tx_spending spent outs = \<lparr>tx_version = 2, tx_lock_time = 0,
     tx_input = map (\<lambda>op. \<lparr>ti_previous_output = op, ti_body = []\<rparr>) spent,
     tx_output = map (\<lambda>(s, v). explicit_txout s v) outs\<rparr>"

definition tx_paying :: "u8 \<Rightarrow> (script \<times> u64) list \<Rightarrow> transaction" where
  "tx_paying nonce outs = \<lparr>tx_version = 2, tx_lock_time = 0,
     tx_input = [\<lparr>ti_previous_output = null_outpoint (ucast nonce), ti_body = []\<rparr>],
     tx_output = map (\<lambda>(s, v). explicit_txout s v) outs\<rparr>"

text \<open>The header is serialised as the time, the height and the low bytes of the previous hash.\<close>

definition block_at :: "u32 \<Rightarrow> block_hash \<Rightarrow> transaction list \<Rightarrow> u32 \<Rightarrow> block" where
  "block_at height prev txs salt = \<lparr>blk_header = le_bytes 4 (ucast (1700000000 + salt)) @ le_bytes 4 (ucast height)
     @ le_bytes 4 (hash_word prev), blk_txdata = txs\<rparr>"

fun build_chain_from :: "nat \<Rightarrow> block_hash \<Rightarrow> transaction list list \<Rightarrow> mock_chain_source \<Rightarrow> mock_chain_source" where
  "build_chain_from height prev [] c = c"
| "build_chain_from height prev (txs # blocks) c =
     (let b = block_at (word_of_nat height) prev txs 0
      in build_chain_from (Suc height) (lib_block_hash poly_lib b) blocks (mock_push_block b c))"

definition build_chain :: "transaction list list \<Rightarrow> mock_chain_source \<Rightarrow> mock_chain_source" where
  "build_chain blocks c = build_chain_from 0 (BlockHash 0) blocks c"

definition captured :: "wallet_id \<Rightarrow> u32 \<Rightarrow> u64 \<Rightarrow> u8 \<Rightarrow> captured_utxo" where
  "captured wallet height v salt = \<lparr>cu_wallet_id = wallet, cu_outpoint = null_outpoint (ucast salt),
     cu_txout = explicit_txout (Script []) v,
     cu_secrets = \<lparr>sec_asset = test_asset, sec_asset_bf = 0, sec_value = v, sec_value_bf = 0\<rparr>,
     cu_chain = External, cu_wildcard_index = 0, cu_height = height, cu_is_spent = False\<rparr>"

text \<open>A call on a store, unwrapped.\<close>

definition run :: "('s, 'e, 'a) act \<Rightarrow> 's \<Rightarrow> ('a \<times> 's) option" where
  "run m s = (case m s of (Inr a, s') \<Rightarrow> Some (a, s') | (Inl _, _) \<Rightarrow> None)"

section \<open>The store contract tests\<close>

definition mem_utxo_store_upsert_then_list :: "bool option" where
  "mem_utxo_store_upsert_then_list = do {
     let w = wid 1;
     (_, store) \<leftarrow> run (mem_upsert_utxos [captured w 1 100 0, captured w 1 200 1]) mem_utxo_new;
     (_, store) \<leftarrow> run (mem_upsert_utxos [captured w 1 100 0]) store;
     (us, store) \<leftarrow> run (mem_list_unspent w) store;
     Some (sort (map cu_value us) = [100, 200] \<and> mem_utxo_len store = 2)}"

definition mem_utxo_store_mark_spent_excludes :: "bool option" where
  "mem_utxo_store_mark_spent_excludes = do {
     let w = wid 1;
     let u = captured w 1 100 0;
     (_, store) \<leftarrow> run (mem_upsert_utxos [u]) mem_utxo_new;
     (_, store) \<leftarrow> run (mem_mark_spent [cu_outpoint u] 2) store;
     (us, store) \<leftarrow> run (mem_list_unspent w) store;
     (ops, store) \<leftarrow> run mem_unspent_outpoints store;
     Some (us = [] \<and> ops = [])}"

definition mem_utxo_store_unspent_outpoints_across_wallets :: "bool option" where
  "mem_utxo_store_unspent_outpoints_across_wallets = do {
     (_, store) \<leftarrow> run (mem_upsert_utxos [captured (wid 1) 1 10 0]) mem_utxo_new;
     (_, store) \<leftarrow> run (mem_upsert_utxos [captured (wid 2) 1 20 1]) store;
     (ops, store) \<leftarrow> run mem_unspent_outpoints store;
     Some (length ops = 2 \<and> length (remdups (map snd ops)) = 2)}"

definition mem_utxo_store_rollback_drops_and_unspends :: "bool option" where
  "mem_utxo_store_rollback_drops_and_unspends = do {
     let w = wid 1;
     let low = captured w 5 100 0;
     let high = captured w 9 200 1;
     (_, store) \<leftarrow> run (mem_upsert_utxos [low, high]) mem_utxo_new;
     (_, store) \<leftarrow> run (mem_mark_spent [cu_outpoint low] 8) store;
     (_, store) \<leftarrow> run (mem_utxo_rollback_above 7) store;
     (us, store) \<leftarrow> run (mem_list_unspent w) store;
     Some (map cu_value us = [100])}"

definition mem_block_store_cursor_and_hash_roundtrip :: "bool option" where
  "mem_block_store_cursor_and_hash_roundtrip = do {
     (before, store) \<leftarrow> run mem_synced_tip mem_block_new;
     let h = BlockHash 0;
     (_, store) \<leftarrow> run (mem_store_block 3 h [1, 2, 3]) store;
     (_, store) \<leftarrow> run (mem_set_synced_tip \<lparr>st_height = 3, st_hash = h\<rparr>) store;
     (tip, store) \<leftarrow> run mem_synced_tip store;
     (at3, store) \<leftarrow> run (mem_block_hash_at 3) store;
     (at4, store) \<leftarrow> run (mem_block_hash_at 4) store;
     Some (before = None \<and> tip = Some \<lparr>st_height = 3, st_hash = h\<rparr> \<and> at3 = Some h \<and> at4 = None)}"

fun store_heights :: "u32 list \<Rightarrow> mem_block_store \<Rightarrow> mem_block_store option" where
  "store_heights [] store = Some store"
| "store_heights (height # rest) store = do {
     let h = BlockHash (ucast height);
     (_, store) \<leftarrow> run (mem_store_block height h [0x78]) store;
     (_, store) \<leftarrow> run (mem_set_synced_tip \<lparr>st_height = height, st_hash = h\<rparr>) store;
     store_heights rest store}"

definition mem_block_store_rollback_above :: "bool option" where
  "mem_block_store_rollback_above = do {
     store \<leftarrow> store_heights [0, 1, 2, 3, 4, 5] mem_block_new;
     (_, store) \<leftarrow> run (mem_block_rollback_above 3) store;
     (tip, store) \<leftarrow> run mem_synced_tip store;
     (at4, store) \<leftarrow> run (mem_block_hash_at 4) store;
     Some (mem_block_count store = 4 \<and> map_option st_height tip = Some 3 \<and> at4 = None)}"

lemma store_tests_pass:
  "mem_utxo_store_upsert_then_list = Some True"
  "mem_utxo_store_mark_spent_excludes = Some True"
  "mem_utxo_store_unspent_outpoints_across_wallets = Some True"
  "mem_utxo_store_rollback_drops_and_unspends = Some True"
  "mem_block_store_cursor_and_hash_roundtrip = Some True"
  "mem_block_store_rollback_above = Some True"
  by code_simp+

section \<open>The engine tests\<close>

type_synonym test_world = "(mock_chain_source, mem_block_store, mem_utxo_store) world"

fun register_each ::
    "(wallet_id \<times> (u8, string, unit) elements_wollet) list \<Rightarrow> (u8, string, unit) scan_engine
     \<Rightarrow> (u8, string, unit) scan_engine option" where
  "register_each [] e = Some e"
| "register_each ((i, w) # ws) e = do {
     (_, e) \<leftarrow> run (register_wallet hash_lwk i w 20) e;
     register_each ws e}"

definition engine_with ::
    "(wallet_id \<times> (u8, string, unit) elements_wollet) list \<Rightarrow> (u8, string, unit) scan_engine option" where
  "engine_with wallets = register_each wallets engine_new"

definition sync_all :: "(u8, string, unit) scan_engine \<Rightarrow> test_world \<Rightarrow> (sync_summary \<times> test_world) option" where
  "sync_all engine = run (sync (mock_chain_ops poly_lib) mem_block_ops mem_utxo_ops poly_lib hash_lwk engine)"

definition fresh_world :: "mock_chain_source \<Rightarrow> test_world" where
  "fresh_world chain = \<lparr>w_chain = chain, w_blocks = mem_block_new, w_utxos = mem_utxo_new\<rparr>"

definition script_at :: "(u8, string, unit) elements_wollet \<Rightarrow> u32 \<Rightarrow> script option" where
  "script_at w index = map_option ad_script_pubkey (unwrap (address hash_lwk w External index))"

definition unspent :: "wallet_id \<Rightarrow> test_world \<Rightarrow> captured_utxo list option" where
  "unspent i world = map_option fst (run (mem_list_unspent i) (w_utxos world))"

definition single_deposit_captured :: "bool option" where
  "single_deposit_captured = do {
     w \<leftarrow> make_wollet [1, 2, 3] 0xaa;
     let i = wid 1;
     engine \<leftarrow> engine_with [(i, w)];
     spk \<leftarrow> script_at w 0;
     (summary, world) \<leftarrow> sync_all engine (fresh_world (build_chain [[], [tx_paying 1 [(spk, 50000)]]] mock_new));
     us \<leftarrow> unspent i world;
     Some (ss_utxos_captured summary = 1 \<and> ss_blocks_scanned summary = 2 \<and> map cu_value us = [50000]
       \<and> mem_block_count (w_blocks world) = 2 \<and> map_option st_height (mbs_tip (w_blocks world)) = Some 1)}"

definition spend_marks_utxo_spent :: "bool option" where
  "spend_marks_utxo_spent = do {
     w \<leftarrow> make_wollet [1, 2, 3] 0xaa;
     let i = wid 1;
     engine \<leftarrow> engine_with [(i, w)];
     spk \<leftarrow> script_at w 0;
     (_, world) \<leftarrow> sync_all engine (fresh_world (build_chain [[], [tx_paying 1 [(spk, 50000)]]] mock_new));
     us \<leftarrow> unspent i world;
     deposit \<leftarrow> map_option cu_outpoint (get_at us 0);
     other \<leftarrow> script_at w 5;
     let spend = tx_spending [deposit] [(other, 40000)];
     (prev, chain) \<leftarrow> run (mock_block_hash poly_lib 1) (w_chain world);
     let chain = mock_push_block (block_at 2 prev [spend] 0) chain;
     (summary, world) \<leftarrow> sync_all engine (world\<lparr>w_chain := chain\<rparr>);
     us \<leftarrow> unspent i world;
     Some (ss_utxos_spent summary = 1 \<and> map cu_value us = [40000])}"

definition unwatched_output_ignored :: "bool option" where
  "unwatched_output_ignored = do {
     w \<leftarrow> make_wollet [1, 2, 3] 0xaa;
     foreign \<leftarrow> make_wollet [4, 5, 6] 0xbb;
     let i = wid 1;
     engine \<leftarrow> engine_with [(i, w)];
     foreign_spk \<leftarrow> script_at foreign 0;
     (summary, world) \<leftarrow> sync_all engine (fresh_world (build_chain [[], [tx_paying 1 [(foreign_spk, 99000)]]] mock_new));
     us \<leftarrow> unspent i world;
     Some (ss_utxos_captured summary = 0 \<and> us = [])}"

definition multi_wallet_attribution :: "bool option" where
  "multi_wallet_attribution = do {
     w1 \<leftarrow> make_wollet [1, 2, 3] 0xaa;
     w2 \<leftarrow> make_wollet [4, 5, 6] 0xbb;
     let (id1, id2) = (wid 1, wid 2);
     engine \<leftarrow> engine_with [(id1, w1), (id2, w2)];
     spk1 \<leftarrow> script_at w1 0;
     spk2 \<leftarrow> script_at w2 0;
     (summary, world) \<leftarrow> sync_all engine
       (fresh_world (build_chain [[], [tx_paying 1 [(spk1, 11000), (spk2, 22000)]]] mock_new));
     us1 \<leftarrow> unspent id1 world;
     us2 \<leftarrow> unspent id2 world;
     Some (ss_utxos_captured summary = 2 \<and> map cu_value us1 = [11000] \<and> map cu_value us2 = [22000])}"

definition multi_version_same_wallet_id_captured :: "bool option" where
  "multi_version_same_wallet_id_captured = do {
     v0 \<leftarrow> make_wollet [1, 2, 3] 0xaa;
     v1 \<leftarrow> make_wollet [4, 5, 6] 0xbb;
     let i = wid 1;
     engine \<leftarrow> register_each [(i, v0), (i, v1)] engine_new;
     spk0 \<leftarrow> script_at v0 0;
     spk1 \<leftarrow> script_at v1 0;
     (summary, world) \<leftarrow> sync_all engine
       (fresh_world (build_chain [[], [tx_paying 1 [(spk0, 11000), (spk1, 22000)]]] mock_new));
     us \<leftarrow> unspent i world;
     Some (ss_utxos_captured summary = 2 \<and> length us = 2 \<and> sort (map cu_value us) = [11000, 22000])}"

definition reorg_rolls_back_and_recaptures :: "bool option" where
  "reorg_rolls_back_and_recaptures = do {
     w \<leftarrow> make_wollet [1, 2, 3] 0xaa;
     let i = wid 1;
     engine \<leftarrow> engine_with [(i, w)];
     spk0 \<leftarrow> script_at w 0;
     spk1 \<leftarrow> script_at w 1;
     (_, world) \<leftarrow> sync_all engine (fresh_world (build_chain [[], [tx_paying 1 [(spk0, 70000)]]] mock_new));
     us \<leftarrow> unspent i world;
     let chain = mock_reorg_to 0 (w_chain world);
     (genesis, chain) \<leftarrow> run (mock_block_hash poly_lib 0) chain;
     let chain = mock_push_block (block_at 1 genesis [tx_paying 2 [(spk1, 88000)]] 999) chain;
     (summary, world) \<leftarrow> sync_all engine (world\<lparr>w_chain := chain\<rparr>);
     us' \<leftarrow> unspent i world;
     Some (map cu_value us = [70000] \<and> ss_reorg_to summary = Some 0 \<and> map cu_value us' = [88000])}"

definition idempotent_resync :: "bool option" where
  "idempotent_resync = do {
     w \<leftarrow> make_wollet [1, 2, 3] 0xaa;
     let i = wid 1;
     engine \<leftarrow> engine_with [(i, w)];
     spk \<leftarrow> script_at w 0;
     (_, world) \<leftarrow> sync_all engine (fresh_world (build_chain [[], [tx_paying 1 [(spk, 50000)]]] mock_new));
     (summary, world) \<leftarrow> sync_all engine world;
     us \<leftarrow> unspent i world;
     Some (ss_blocks_scanned summary = 0 \<and> ss_utxos_captured summary = 0 \<and> length us = 1)}"

lemma single_deposit_captured_passes: "single_deposit_captured = Some True"
  by code_simp

lemma spend_marks_utxo_spent_passes: "spend_marks_utxo_spent = Some True"
  by code_simp

lemma unwatched_output_ignored_passes: "unwatched_output_ignored = Some True"
  by code_simp

lemma multi_wallet_attribution_passes: "multi_wallet_attribution = Some True"
  by code_simp

lemma multi_version_same_wallet_id_captured_passes: "multi_version_same_wallet_id_captured = Some True"
  by code_simp

lemma reorg_rolls_back_and_recaptures_passes: "reorg_rolls_back_and_recaptures = Some True"
  by code_simp

lemma idempotent_resync_passes: "idempotent_resync = Some True"
  by code_simp

end
