(* ===== verification/Batch_Migration.thy ===== *)
theory Batch_Migration
  imports Spend_Properties Testkit Test_Harness "HOL-Library.Multiset"
begin

text \<open>
  A batched migration: customers' coins move one transaction after the other, the fee account pays
  every mining fee, and its change is chained from each transaction into the next before any of them
  confirms. \<open>src/spend.rs\<close> documents the flow at \<open>build_migration_pset\<close> and
  \<open>captured_from_output\<close> and spells it out in the helpers of its test
  \<open>batched_migration_chains_fee_change_offline\<close>, which are modelled here for any number of hops. The
  theory proves where the money goes.
\<close>

text \<open>The libraries a spend goes through.\<close>

record ('d, 's, 'e, 'b, 'w, 'f, 'k, 'mbk, 'sk, 'id, 'xp, 'x) spend_libs =
  sl_elements :: elements_lib
  sl_lwk :: "('d, 'k, 'w) lwk_lib"
  sl_desc :: "('d, 's, 'e) desc_lib"
  sl_tx :: "('b, 'w, address, 'f) tx_lib"
  sl_pset :: "('mbk, 'sk) pset_lib"
  sl_keys :: "('id, 'xp, 'x) key_lib"
  sl_script_witness :: "txin \<Rightarrow> u8 list list"

section \<open>The helpers of the test\<close>

fun sign_each ::
    "('id, 'xp, 'x) key_lib \<Rightarrow> ('id, 'xp, 'x) software_signer list \<Rightarrow> pset \<Rightarrow> pset option" where
  "sign_each K [] ps = Some ps"
| "sign_each K (s # ss) ps = do {
     (_, ps) \<leftarrow> unwrap_act (sign_pset K s ps :: ('id pset_error, nat) result \<times> pset);
     sign_each K ss ps}"

definition run_migration ::
    "('d, 's, 'e, 'b, 'w, 'f, 'k, 'mbk, 'sk, 'id, 'xp, 'x) spend_libs \<Rightarrow> ('d, 'k, 'w) elements_wollet \<Rightarrow> 'f
     \<Rightarrow> (captured_utxo \<times> ('d, 'k, 'w) elements_wollet) list \<Rightarrow> (address \<times> u64) list \<Rightarrow> address
     \<Rightarrow> ('id, 'xp, 'x) software_signer list \<Rightarrow> transaction option" where
  "run_migration S w_f rate inputs customers fee_dest signers = do {
     blinded \<leftarrow> unwrap (build_migration_pset (sl_desc S) (sl_tx S) w_f inputs customers fee_dest rate
       :: ('id spend_error, blinded_pset) result);
     ps \<leftarrow> sign_each (sl_keys S) signers (blinded_into_pset blinded);
     (_, ps) \<leftarrow> unwrap_act (finalize_p2wsh_pset (sl_pset S) ps :: ('id pset_error, unit) result \<times> pset);
     tx \<leftarrow> unwrap_lib (pl_extract_tx (sl_pset S) ps);
     assert_that (\<forall>inp \<in> set (tx_input tx). 4 \<le> length (sl_script_witness S inp));
     Some tx}"

fun value_explicit :: "conf_value \<Rightarrow> u64 option" where
  "value_explicit (ValueExplicit v) = Some v"
| "value_explicit ValueNull = None"
| "value_explicit (ValueConfidential c) = None"

definition fee_of :: "transaction \<Rightarrow> u64 option" where
  "fee_of tx = do {
     o' \<leftarrow> find (\<lambda>t. script_is_empty (to_script_pubkey t)) (tx_output tx);
     value_explicit (to_value o')}"

definition chain_change ::
    "('d, 's, 'e, 'b, 'w, 'f, 'k, 'mbk, 'sk, 'id, 'xp, 'x) spend_libs \<Rightarrow> ('d, 'k, 'w) elements_wollet
     \<Rightarrow> wallet_id \<Rightarrow> address \<Rightarrow> transaction \<Rightarrow> captured_utxo option" where
  "chain_change S w_f wid f_old tx = do {
     (vout, txout) \<leftarrow> find (\<lambda>(i, t). to_script_pubkey t = ad_script_pubkey f_old) (List.enumerate 0 (tx_output tx));
     assert_that (fits_u32 vout);
     unwrap (captured_from_output (sl_lwk S) w_f (lib_txid (sl_elements S) tx) (word_of_nat vout) txout wid 0
       :: ('id spend_error, captured_utxo) result)}"

definition unblind_at ::
    "('d, 'k, 'w) lwk_lib \<Rightarrow> ('d, 'k, 'w) elements_wollet \<Rightarrow> transaction \<Rightarrow> address \<Rightarrow> u64 option" where
  "unblind_at L w tx dest = do {
     txout \<leftarrow> find (\<lambda>t. to_script_pubkey t = ad_script_pubkey dest) (tx_output tx);
     s \<leftarrow> unwrap (unblind L w txout);
     Some (sec_value s)}"

section \<open>The batch\<close>

text \<open>
  A hop is its customers' coins with their owners, what the customers are paid, and the signers. The
  fee account's coin is added last; its change goes to \<open>f_old\<close> until the last transaction, which
  moves what is left to \<open>f_new\<close>.
\<close>

fun run_hops ::
    "('d, 's, 'e, 'b, 'w, 'f, 'k, 'mbk, 'sk, 'id, 'xp, 'x) spend_libs \<Rightarrow> ('d, 'k, 'w) elements_wollet \<Rightarrow> 'f
     \<Rightarrow> wallet_id \<Rightarrow> address
     \<Rightarrow> ((captured_utxo \<times> ('d, 'k, 'w) elements_wollet) list \<times> (address \<times> u64) list
          \<times> ('id, 'xp, 'x) software_signer list) list
     \<Rightarrow> captured_utxo \<Rightarrow> (transaction list \<times> captured_utxo) option" where
  "run_hops S w_f rate wid f_old [] change = Some ([], change)"
| "run_hops S w_f rate wid f_old ((inputs, customers, signers) # hops) change = do {
     tx \<leftarrow> run_migration S w_f rate (inputs @ [(change, w_f)]) customers f_old signers;
     change' \<leftarrow> chain_change S w_f wid f_old tx;
     (txs, left) \<leftarrow> run_hops S w_f rate wid f_old hops change';
     Some (tx # txs, left)}"

definition run_batch ::
    "('d, 's, 'e, 'b, 'w, 'f, 'k, 'mbk, 'sk, 'id, 'xp, 'x) spend_libs \<Rightarrow> ('d, 'k, 'w) elements_wollet \<Rightarrow> 'f
     \<Rightarrow> wallet_id \<Rightarrow> address \<Rightarrow> address
     \<Rightarrow> ((captured_utxo \<times> ('d, 'k, 'w) elements_wollet) list \<times> (address \<times> u64) list
          \<times> ('id, 'xp, 'x) software_signer list) list
     \<Rightarrow> captured_utxo \<Rightarrow> ('id, 'xp, 'x) software_signer list \<Rightarrow> (transaction list \<times> transaction) option" where
  "run_batch S w_f rate wid f_old f_new hops initial fee_signers = do {
     (txs, left) \<leftarrow> run_hops S w_f rate wid f_old hops initial;
     tx \<leftarrow> run_migration S w_f rate [(left, w_f)] [] f_new fee_signers;
     Some (txs, tx)}"

section \<open>What the libraries promise\<close>

text \<open>An output that pays an address: any wollet that has the address opens it.\<close>

definition pays_to :: "('d, 'k, 'w) lwk_lib \<Rightarrow> asset_id \<Rightarrow> address \<Rightarrow> nat \<Rightarrow> txout \<Rightarrow> bool" where
  "pays_to L asset a v t \<longleftrightarrow> to_script_pubkey t = ad_script_pubkey a
     \<and> (\<forall>w c i. address L w c i = Inr a \<longrightarrow>
          (\<exists>s. unblind L w t = Inr s \<and> sec_asset s = asset \<and> unat (sec_value s) = v))"

text \<open>The outputs of a transaction, in any order: a fee output, and one output for each payment.\<close>

definition pays_out ::
    "('d, 'k, 'w) lwk_lib \<Rightarrow> asset_id \<Rightarrow> u64 \<Rightarrow> (address \<times> nat) list \<Rightarrow> txout list \<Rightarrow> bool" where
  "pays_out L asset fee payments outs \<longleftrightarrow> (\<exists>fee_out paid. mset outs = mset (fee_out # paid)
     \<and> script_is_empty (to_script_pubkey fee_out) \<and> to_value fee_out = ValueExplicit fee
     \<and> list_all2 (\<lambda>(a, v) t. pays_to L asset a v t) payments paid)"

text \<open>
  LWK's builder, asked to drain the wallet: it takes every coin it was given, pays every recipient
  its amount, and the drain address what is left after the fee. The wallet itself holds no coins.
\<close>

fun adds_recipients :: "('b, 'w, address, 'f) tx_lib \<Rightarrow> (address \<times> u64) list \<Rightarrow> 'b \<Rightarrow> 'b \<Rightarrow> bool" where
  "adds_recipients TB [] b b' \<longleftrightarrow> b' = b"
| "adds_recipients TB ((a, v) # rest) b b' \<longleftrightarrow>
     (\<exists>b1. tb_add_lbtc_recipient TB a v b = Inr b1 \<and> adds_recipients TB rest b1 b')"

definition total_in :: "external_utxo list \<Rightarrow> nat" where
  "total_in ext = sum_list (map (\<lambda>e. unat (sec_value (eu_unblinded e))) ext)"

definition drains_into ::
    "('d, 'k, 'w) lwk_lib \<Rightarrow> ('b, 'w, address, 'f) tx_lib \<Rightarrow> (pset_output \<Rightarrow> txout) \<Rightarrow> asset_id \<Rightarrow> bool" where
  "drains_into L TB to_out asset \<longleftrightarrow> (\<forall>n w ext rs dest rate b0 b ps.
     tb_add_external_utxos TB ext (tb_new TB n) = Inr b0 \<longrightarrow> adds_recipients TB rs b0 b \<longrightarrow>
     tb_finish TB w (tb_fee_rate TB (Some rate) (tb_drain_lbtc_to TB dest (tb_drain_lbtc_wallet TB b))) = Inr ps \<longrightarrow>
     (\<forall>e \<in> set ext. sec_asset (eu_unblinded e) = asset) \<longrightarrow>
     (\<exists>drain fee. total_in ext = drain + sum_list (map (unat \<circ> snd) rs) + unat fee
        \<and> pays_out L asset fee ((dest, drain) # map (map_prod id unat) rs) (map to_out (ps_outputs ps))
        \<and> eu_outpoint ` set ext \<subseteq> prevout_of ` set (ps_inputs ps)))"

text \<open>A transaction is extracted input by input and output by output.\<close>

definition extracts ::
    "('mbk, 'sk) pset_lib \<Rightarrow> (pset_output \<Rightarrow> txout) \<Rightarrow> bool" where
  "extracts PL to_out \<longleftrightarrow> (\<forall>ps tx. pl_extract_tx PL ps = Inr tx \<longrightarrow>
     tx_output tx = map to_out (ps_outputs ps) \<and> map ti_previous_output (tx_input tx) = map prevout_of (ps_inputs ps))"

section \<open>Signing and finalising keep what is spent and paid\<close>

definition same_skeleton :: "pset \<Rightarrow> pset \<Rightarrow> bool" where
  "same_skeleton ps ps' \<longleftrightarrow> map prevout_of (ps_inputs ps') = map prevout_of (ps_inputs ps) \<and> ps_outputs ps' = ps_outputs ps"

lemma same_skeleton_refl: "same_skeleton ps ps"
  by (simp add: same_skeleton_def)

lemma same_skeleton_trans: "same_skeleton ps ps' \<Longrightarrow> same_skeleton ps' ps'' \<Longrightarrow> same_skeleton ps ps''"
  by (simp add: same_skeleton_def)

lemma insert_partial_sig_skeleton: "same_skeleton ps (insert_partial_sig idx pk sig ps)"
proof -
  have "map prevout_of ((ps_inputs ps)[idx := (ps_inputs ps ! idx)\<lparr>pi_partial_sigs := x\<rparr>]) = map prevout_of (ps_inputs ps)" for x
    by (cases "idx < length (ps_inputs ps)")
      (simp_all add: map_update prevout_of_def list_update_same_conv [THEN iffD2] list_update_beyond)
  then show ?thesis by (simp add: same_skeleton_def insert_partial_sig_def)
qed

lemma sign_keys_skeleton:
  "same_skeleton ps (snd (sign_keys K s m idx mine ps n :: ('i pset_error, nat) result \<times> pset))"
proof (induction mine arbitrary: ps n)
  case (Cons k mine)
  obtain pk path where k: "k = (pk, path)" by (rule prod.exhaust)
  show ?case
    using same_skeleton_trans [OF insert_partial_sig_skeleton Cons.IH]
    by (cases "kl_derive_priv K (ss_master s) path") (simp_all add: k same_skeleton_refl)
qed (simp add: same_skeleton_refl)

lemma sign_inputs_skeleton:
  "same_skeleton ps (snd (sign_inputs K s tx idxs ps n :: ('i pset_error, nat) result \<times> pset))"
proof (induction idxs arbitrary: ps n)
  case (Cons i idxs)
  have keys: "same_skeleton ps ps'" if "(sign_keys K s m i mine ps n :: ('i pset_error, nat) result \<times> pset) = (r, ps')" for m mine r ps'
    using sign_keys_skeleton [of ps K s m i mine n, where 'i = 'i] that by simp
  show ?case
  proof (cases "kl_sighash_msg K ps i tx (ss_genesis s)")
    case (Inr sh)
    then show ?thesis
      using Cons.IH same_skeleton_trans [OF keys Cons.IH] keys
      by (cases sh) (simp_all split: prod.split sum.split)
  qed (simp add: same_skeleton_refl)
qed (simp add: same_skeleton_refl)

lemma sign_each_skeleton: "sign_each K ss ps = Some ps' \<Longrightarrow> same_skeleton ps ps'"
proof (induction ss arbitrary: ps)
  case (Cons s ss)
  from Cons.prems obtain n ps1 where "(sign_pset K s ps :: ('a pset_error, nat) result \<times> pset) = (Inr n, ps1)"
    and rest: "sign_each K ss ps1 = Some ps'"
    by (auto simp: bind_eq_Some_conv)
  then have "same_skeleton ps ps1"
    by (auto simp: sign_pset_def split: sum.splits dest: arg_cong [where f = snd]
        intro: sign_inputs_skeleton [of ps K s, THEN same_skeleton_trans])
      (metis sign_inputs_skeleton snd_conv)
  then show ?case using Cons.IH [OF rest] by (rule same_skeleton_trans)
qed (simp add: same_skeleton_refl)

lemma finalize_skeleton:
  "finalize_p2wsh_pset PL ps = (r :: ('id pset_error, unit) result, ps') \<Longrightarrow> same_skeleton ps ps'"
proof -
  have "map prevout_of (snd (finalize_inputs PL idx inputs :: ('id pset_error, unit) result \<times> _)) = map prevout_of inputs" for idx inputs
    by (induction PL idx inputs rule: finalize_inputs.induct)
      (auto simp: finalize_input_def Let_def prevout_of_def split: option.split prod.splits)
  then show "finalize_p2wsh_pset PL ps = (r :: ('id pset_error, unit) result, ps') \<Longrightarrow> same_skeleton ps ps'"
    by (auto simp: finalize_p2wsh_pset_def same_skeleton_def split: prod.splits) (metis snd_conv)+
qed

section \<open>One hop\<close>

lemma add_recipients_adds:
  "(add_recipients TB rs b :: ('id spend_error, 'b) result) = Inr b' \<Longrightarrow> adds_recipients TB rs b b'"
proof (induction rs arbitrary: b)
  case (Cons r rs)
  obtain a v where r: "r = (a, v)" by (rule prod.exhaust)
  with Cons show ?case by (auto simp: bindR_Inr)
qed simp

text \<open>What LWK is given: the coins with the secrets they were captured with.\<close>

lemma migration_loop_given:
  assumes "(migration_loop DL inputs cache ext en :: ('id spend_error, _) result) = Inr (ext', en')"
  shows "map eu_unblinded ext' = map eu_unblinded ext @ map (cu_secrets \<circ> fst) inputs
    \<and> map eu_outpoint ext' = map eu_outpoint ext @ map (cu_outpoint \<circ> fst) inputs"
  using assms
proof (induction inputs arbitrary: cache ext en)
  case (Cons p inputs)
  obtain u owner where p: "p = (u, owner)" by (rule prod.exhaust)
  from Cons.prems obtain cache1 mw en1 where
    "(migration_loop DL inputs cache1 (ext @ [external_utxo_of u mw]) en1 :: ('id spend_error, _) result) = Inr (ext', en')"
    by (auto simp: p bindR_Inr Let_def)
  from Cons.IH [OF this] show ?case by (simp add: p external_utxo_of_def)
qed simp

definition coins_total :: "(captured_utxo \<times> 'o) list \<Rightarrow> nat" where
  "coins_total inputs = sum_list (map (unat \<circ> cu_value \<circ> fst) inputs)"

definition paid_total :: "(address \<times> u64) list \<Rightarrow> nat" where
  "paid_total rs = sum_list (map (unat \<circ> snd) rs)"

lemma coins_total_append [simp]: "coins_total (xs @ ys) = coins_total xs + coins_total ys"
  by (simp add: coins_total_def)

lemma run_migration_pays:
  fixes S :: "('d, 's, 'e, 'b, 'w, 'f, 'k, 'mbk, 'sk, 'id, 'xp, 'x) spend_libs"
  assumes upd: "local_update (sl_desc S) upd" and drains: "drains_into (sl_lwk S) (sl_tx S) to_out asset"
    and extracts: "extracts (sl_pset S) to_out"
    and run: "run_migration S w_f rate inputs rs dest signers = Some tx"
    and assets: "\<forall>(u, owner) \<in> set inputs. cu_asset u = asset"
  obtains drain fee where "coins_total inputs = drain + paid_total rs + unat fee"
    and "pays_out (sl_lwk S) asset fee ((dest, drain) # map (map_prod id unat) rs) (tx_output tx)"
    and "cu_outpoint ` fst ` set inputs \<subseteq> ti_previous_output ` set (tx_input tx)"
proof -
  note [simp] = bind_eq_Some_conv
  from run obtain b ps1 ps2 u where
    build: "(build_migration_pset (sl_desc S) (sl_tx S) w_f inputs rs dest rate :: ('id spend_error, blinded_pset) result) = Inr b"
    and sign: "sign_each (sl_keys S) signers (bp_pset b) = Some ps1"
    and final: "(finalize_p2wsh_pset (sl_pset S) ps1 :: ('id pset_error, unit) result \<times> pset) = (Inr u, ps2)"
    and tx: "pl_extract_tx (sl_pset S) ps2 = Inr tx"
    by (auto simp: run_migration_def blinded_into_pset_def)
  from build obtain ext en b0 b1 ps where
    loop: "(migration_loop (sl_desc S) inputs [] [] [] :: ('id spend_error, _) result) = Inr (ext, en)"
    and b0: "tb_add_external_utxos (sl_tx S) ext (tb_new (sl_tx S) (ew_lwk_network w_f)) = Inr b0"
    and b1: "(add_recipients (sl_tx S) rs b0 :: ('id spend_error, _) result) = Inr b1"
    and ps: "tb_finish (sl_tx S) (ew_inner w_f) (tb_fee_rate (sl_tx S) (Some rate)
        (tb_drain_lbtc_to (sl_tx S) dest (tb_drain_lbtc_wallet (sl_tx S) b1))) = Inr ps"
    and fin: "(finish_blinded (sl_desc S) ps en :: ('id spend_error, blinded_pset) result) = Inr b"
    by (auto simp: build_migration_pset_def bindR_Inr)
  have secrets: "map eu_unblinded ext = map (cu_secrets \<circ> fst) inputs" and ops: "map eu_outpoint ext = map (cu_outpoint \<circ> fst) inputs"
    using migration_loop_given [OF loop] by simp_all
  have total: "total_in ext = coins_total inputs"
    using arg_cong [OF secrets, of "\<lambda>l. sum_list (map (unat \<circ> sec_value) l)"]
    by (simp add: total_in_def coins_total_def cu_value_def comp_def)
  have "set (map eu_unblinded ext) = cu_secrets ` fst ` set inputs" unfolding secrets by force
  then have asset: "\<forall>e \<in> set ext. sec_asset (eu_unblinded e) = asset"
    using assets by (force simp: cu_asset_def)
  obtain drain fee where sums: "total_in ext = drain + paid_total rs + unat fee"
    and pays: "pays_out (sl_lwk S) asset fee ((dest, drain) # map (map_prod id unat) rs) (map to_out (ps_outputs ps))"
    and spends: "eu_outpoint ` set ext \<subseteq> prevout_of ` set (ps_inputs ps)"
    using drains b0 add_recipients_adds [OF b1] ps asset unfolding drains_into_def paid_total_def by blast
  have enriched: "same_skeleton ps (bp_pset b)"
    using finish_blinded_ok [OF upd fin] upd
    by (auto simp: same_skeleton_def enriched_input_def local_update_def split: option.splits intro!: nth_equalityI)
  have "same_skeleton ps ps2"
    using enriched sign_each_skeleton [OF sign] finalize_skeleton [OF final] by (meson same_skeleton_trans)
  then have out: "tx_output tx = map to_out (ps_outputs ps)"
    and inp: "map ti_previous_output (tx_input tx) = map prevout_of (ps_inputs ps)"
    using extracts tx by (simp_all add: extracts_def same_skeleton_def)
  have "ti_previous_output ` set (tx_input tx) = prevout_of ` set (ps_inputs ps)"
    using arg_cong [OF inp, of set] by simp
  moreover have "eu_outpoint ` set ext = cu_outpoint ` fst ` set inputs"
    using arg_cong [OF ops, of set] by (simp add: image_image)
  ultimately show ?thesis using that [OF _ pays [folded out]] sums total spends by simp
qed

section \<open>Reading a transaction\<close>

text \<open>Payments to addresses that have scripts, no two the same.\<close>

definition separate :: "address list \<Rightarrow> bool" where
  "separate addrs \<longleftrightarrow> distinct (map ad_script_pubkey addrs) \<and> (\<forall>a \<in> set addrs. \<not> script_is_empty (ad_script_pubkey a))"

lemma pays_outE:
  assumes "pays_out L asset fee payments outs" and "separate (map fst payments)"
  obtains fee_out where "fee_out \<in> set outs" and "script_is_empty (to_script_pubkey fee_out)"
    and "to_value fee_out = ValueExplicit fee"
    and "\<And>t. t \<in> set outs \<Longrightarrow> script_is_empty (to_script_pubkey t) \<Longrightarrow> t = fee_out"
    and "\<And>a v. (a, v) \<in> set payments \<Longrightarrow> \<exists>t \<in> set outs. pays_to L asset a v t
      \<and> (\<forall>t' \<in> set outs. to_script_pubkey t' = ad_script_pubkey a \<longrightarrow> pays_to L asset a v t')"
proof -
  from assms(1) obtain fee_out paid where outs: "set outs = insert fee_out (set paid)"
    and empty: "script_is_empty (to_script_pubkey fee_out)" and fee: "to_value fee_out = ValueExplicit fee"
    and pays: "list_all2 (\<lambda>(a, v) t. pays_to L asset a v t) payments paid"
    unfolding pays_out_def by (metis mset_eq_setD list.simps(15))
  have paid: "\<exists>a v. (a, v) \<in> set payments \<and> pays_to L asset a v t" if "t \<in> set paid" for t
  proof -
    from that obtain j where "j < length paid" "t = paid ! j" by (auto simp: in_set_conv_nth)
    moreover obtain a v where "payments ! j = (a, v)" by (rule prod.exhaust)
    ultimately show ?thesis using list_all2_nthD2 [OF pays, of j] list_all2_lengthD [OF pays] nth_mem [of j payments] by auto
  qed
  have script: "\<not> script_is_empty (ad_script_pubkey a)" if "(a, v) \<in> set payments" for a v
    using assms(2) that by (force simp: separate_def)
  have unique: "a = b \<and> v = w" if "(a, v) \<in> set payments" "(b, w) \<in> set payments" "ad_script_pubkey a = ad_script_pubkey b" for a v b w
  proof -
    have "inj_on (ad_script_pubkey \<circ> fst) (set payments)"
      using assms(2) by (simp add: separate_def distinct_map comp_def)
    from inj_onD [OF this, of "(a, v)" "(b, w)"] that show ?thesis by simp
  qed
  show ?thesis
  proof (rule that [of fee_out])
    show "t = fee_out" if t: "t \<in> set outs" "script_is_empty (to_script_pubkey t)" for t
      using t paid script unfolding outs pays_to_def by (metis insert_iff)
    show "\<exists>t \<in> set outs. pays_to L asset a v t
        \<and> (\<forall>t' \<in> set outs. to_script_pubkey t' = ad_script_pubkey a \<longrightarrow> pays_to L asset a v t')" if av: "(a, v) \<in> set payments" for a v
    proof -
      obtain t where "t \<in> set paid" "pays_to L asset a v t"
        using list_all2_nthD [OF pays] list_all2_lengthD [OF pays] av by (fastforce simp: in_set_conv_nth)
      moreover have "pays_to L asset a v t'" if "t' \<in> set outs" "to_script_pubkey t' = ad_script_pubkey a" for t'
        using that av paid unique script empty unfolding outs pays_to_def by (metis insert_iff)
      ultimately show ?thesis unfolding outs by blast
    qed
  qed (use outs empty fee in auto)
qed

lemma find_exists: "x \<in> set xs \<Longrightarrow> P x \<Longrightarrow> \<exists>y. find P xs = Some y \<and> y \<in> set xs \<and> P y"
  by (induction xs) auto

lemma fee_of_pays:
  assumes "pays_out L asset fee payments (tx_output tx)" and "separate (map fst payments)"
  shows "fee_of tx = Some fee"
proof -
  from pays_outE [OF assms] obtain fee_out where "find (\<lambda>t. script_is_empty (to_script_pubkey t)) (tx_output tx) = Some fee_out"
    "to_value fee_out = ValueExplicit fee"
    using find_exists [of _ "tx_output tx" "\<lambda>t. script_is_empty (to_script_pubkey t)"] by metis
  then show ?thesis by (simp add: fee_of_def)
qed

lemma unblind_at_pays:
  assumes "pays_out L asset fee payments (tx_output tx)" and "separate (map fst payments)"
    and "(a, n) \<in> set payments" and "address L w c i = Inr a"
  shows "\<exists>v. unblind_at L w tx a = Some v \<and> unat v = n"
proof -
  from pays_outE [OF assms(1,2)] assms(3) obtain t where t: "t \<in> set (tx_output tx)" "pays_to L asset a n t"
    and all: "\<And>t'. t' \<in> set (tx_output tx) \<Longrightarrow> to_script_pubkey t' = ad_script_pubkey a \<Longrightarrow> pays_to L asset a n t'"
    by metis
  then obtain t' where "find (\<lambda>t. to_script_pubkey t = ad_script_pubkey a) (tx_output tx) = Some t'" "pays_to L asset a n t'"
    using find_exists [of t "tx_output tx" "\<lambda>t. to_script_pubkey t = ad_script_pubkey a"] by (auto simp: pays_to_def)
  moreover from this(2) assms(4) obtain s where "unblind L w t' = Inr s" "unat (sec_value s) = n"
    unfolding pays_to_def by blast
  ultimately show ?thesis by (simp add: unblind_at_def unwrap_def)
qed

text \<open>The chained coin holds what the drain address was paid, and is an output of that transaction.\<close>

lemma chain_change_pays:
  fixes S :: "('d, 's, 'e, 'b, 'w, 'f, 'k, 'mbk, 'sk, 'id, 'xp, 'x) spend_libs"
  assumes "pays_out (sl_lwk S) asset fee payments (tx_output tx)" and "separate (map fst payments)"
    and "(f_old, v) \<in> set payments" and "address (sl_lwk S) w_f c i = Inr f_old"
    and change: "chain_change S w_f wid f_old tx = Some u"
  shows "cu_asset u = asset" and "unat (cu_value u) = v"
    and "\<exists>vout. cu_outpoint u = OutPoint (lib_txid (sl_elements S) tx) vout \<and> unat vout < length (tx_output tx)
      \<and> tx_output tx ! unat vout = cu_txout u \<and> to_script_pubkey (cu_txout u) = ad_script_pubkey f_old"
proof -
  note [simp] = bind_eq_Some_conv
  from change obtain vout t where found: "find (\<lambda>(i, t). to_script_pubkey t = ad_script_pubkey f_old)
        (List.enumerate 0 (tx_output tx)) = Some (vout, t)" and small: "vout < 2 ^ 32"
    and u: "(captured_from_output (sl_lwk S) w_f (lib_txid (sl_elements S) tx) (word_of_nat vout) t wid 0
       :: ('id spend_error, captured_utxo) result) = Inr u"
    by (auto simp: chain_change_def)
  from found have vout: "vout < length (tx_output tx)" "tx_output tx ! vout = t" and script: "to_script_pubkey t = ad_script_pubkey f_old"
    by (auto simp: find_Some_iff nth_enumerate_eq)
  then have "t \<in> set (tx_output tx)" by (metis nth_mem)
  with pays_outE [OF assms(1,2)] assms(3) script have "pays_to (sl_lwk S) asset f_old v t" by metis
  with assms(4) obtain s where "unblind (sl_lwk S) w_f t = Inr s" "sec_asset s = asset" "unat (sec_value s) = v"
    unfolding pays_to_def by blast
  with u have u: "u = \<lparr>cu_wallet_id = wid, cu_outpoint = OutPoint (lib_txid (sl_elements S) tx) (word_of_nat vout),
      cu_txout = t, cu_secrets = s, cu_chain = External, cu_wildcard_index = 0, cu_height = 0, cu_is_spent = False\<rparr>"
    and s: "sec_asset s = asset" "unat (sec_value s) = v"
    by (simp_all add: captured_from_output_def map_fault_def)
  show "cu_asset u = asset" "unat (cu_value u) = v" using s by (simp_all add: u cu_asset_def cu_value_def)
  have "unat (word_of_nat vout :: u32) = vout" using small by (simp add: unat_of_nat take_bit_nat_eq_self)
  with vout script show "\<exists>vout. cu_outpoint u = OutPoint (lib_txid (sl_elements S) tx) vout \<and> unat vout < length (tx_output tx)
      \<and> tx_output tx ! unat vout = cu_txout u \<and> to_script_pubkey (cu_txout u) = ad_script_pubkey f_old"
    by (auto simp: u)
qed

section \<open>The whole batch\<close>

text \<open>
  A hop in which the customers are paid what their coins are worth, each at an address of its own
  and none at the fee account's.
\<close>

definition hop_ok :: "asset_id \<Rightarrow> address \<Rightarrow> (captured_utxo \<times> 'o) list \<Rightarrow> (address \<times> u64) list \<Rightarrow> bool" where
  "hop_ok asset f_old inputs customers \<longleftrightarrow> (\<forall>(u, owner) \<in> set inputs. cu_asset u = asset)
     \<and> coins_total inputs = paid_total customers \<and> separate (f_old # map fst customers)"

text \<open>Each transaction spends the change that the one before it paid to the fee account.\<close>

fun chained :: "elements_lib \<Rightarrow> address \<Rightarrow> outpoint \<Rightarrow> transaction list \<Rightarrow> outpoint \<Rightarrow> bool" where
  "chained E f_old op [] op' \<longleftrightarrow> op' = op"
| "chained E f_old op (tx # txs) op' \<longleftrightarrow> op \<in> ti_previous_output ` set (tx_input tx)
     \<and> (\<exists>vout. unat vout < length (tx_output tx)
          \<and> to_script_pubkey (tx_output tx ! unat vout) = ad_script_pubkey f_old
          \<and> chained E f_old (OutPoint (lib_txid E tx) vout) txs op')"

text \<open>Every customer can open its payment, and finds the amount it was promised.\<close>

definition customers_paid :: "('d, 'k, 'w) lwk_lib \<Rightarrow> (address \<times> u64) list \<Rightarrow> transaction \<Rightarrow> bool" where
  "customers_paid L customers tx \<longleftrightarrow> (\<forall>(a, v) \<in> set customers. \<forall>w c i. address L w c i = Inr a \<longrightarrow>
     unblind_at L w tx a = Some v)"

lemma hop_accounts:
  fixes S :: "('d, 's, 'e, 'b, 'w, 'f, 'k, 'mbk, 'sk, 'id, 'xp, 'x) spend_libs"
  assumes upd: "local_update (sl_desc S) upd" and drains: "drains_into (sl_lwk S) (sl_tx S) to_out asset"
    and extracts: "extracts (sl_pset S) to_out"
    and ok: "hop_ok asset dest inputs customers" and change: "cu_asset change = asset"
    and run: "run_migration S w_f rate (inputs @ [(change, w_f)]) customers dest signers = Some tx"
  obtains drain fee where "fee_of tx = Some fee" and "unat (cu_value change) = drain + unat fee"
    and "pays_out (sl_lwk S) asset fee ((dest, drain) # map (map_prod id unat) customers) (tx_output tx)"
    and "separate (map fst ((dest, drain) # map (map_prod id unat) customers))"
    and "customers_paid (sl_lwk S) customers tx" and "cu_outpoint change \<in> ti_previous_output ` set (tx_input tx)"
proof -
  have "\<forall>(u, owner) \<in> set (inputs @ [(change, w_f)]). cu_asset u = asset"
    using ok change by (auto simp: hop_ok_def)
  from run_migration_pays [OF upd drains extracts run this] obtain drain fee where
    total: "coins_total (inputs @ [(change, w_f)]) = drain + paid_total customers + unat fee"
    and pays: "pays_out (sl_lwk S) asset fee ((dest, drain) # map (map_prod id unat) customers) (tx_output tx)"
    and spends: "cu_outpoint ` fst ` set (inputs @ [(change, w_f)]) \<subseteq> ti_previous_output ` set (tx_input tx)" .
  have sep: "separate (map fst ((dest, drain) # map (map_prod id unat) customers))"
    using ok by (simp add: hop_ok_def comp_def)
  have "customers_paid (sl_lwk S) customers tx"
  proof -
    have "unblind_at (sl_lwk S) w tx a = Some v" if av: "(a, v) \<in> set customers" "address (sl_lwk S) w c i = Inr a" for a v w c i
      using unblind_at_pays [OF pays sep _ av(2), of "unat v"] av(1) by (force simp: word_unat_eq_iff)
    then show ?thesis unfolding customers_paid_def by blast
  qed
  moreover have "unat (cu_value change) = drain + unat fee"
    using total ok by (simp add: hop_ok_def coins_total_def)
  ultimately show ?thesis using that fee_of_pays [OF pays sep] pays sep spends by simp
qed

lemma run_hops_account:
  fixes S :: "('d, 's, 'e, 'b, 'w, 'f, 'k, 'mbk, 'sk, 'id, 'xp, 'x) spend_libs"
  assumes laws: "local_update (sl_desc S) upd" "drains_into (sl_lwk S) (sl_tx S) to_out asset" "extracts (sl_pset S) to_out"
    and own: "address (sl_lwk S) w_f c i = Inr f_old"
    and "\<forall>(inputs, customers, signers) \<in> set hops. hop_ok asset f_old inputs customers"
    and "cu_asset change = asset" and "run_hops S w_f rate wid f_old hops change = Some (txs, left)"
  shows "cu_asset left = asset \<and> list_all2 (\<lambda>(inputs, customers, signers) tx. customers_paid (sl_lwk S) customers tx) hops txs
    \<and> chained (sl_elements S) f_old (cu_outpoint change) txs (cu_outpoint left)
    \<and> (\<exists>fees. map fee_of txs = map Some fees
         \<and> unat (cu_value left) + sum_list (map unat fees) = unat (cu_value change))"
  using assms(5-)
proof (induction hops arbitrary: change txs)
  case (Cons hop hops)
  obtain inputs customers signers where hop: "hop = (inputs, customers, signers)" by (rule prod_cases3)
  from Cons.prems(3) obtain tx change' rest where
    run: "run_migration S w_f rate (inputs @ [(change, w_f)]) customers f_old signers = Some tx"
    and next_coin: "chain_change S w_f wid f_old tx = Some change'"
    and rest: "run_hops S w_f rate wid f_old hops change' = Some (rest, left)" and txs: "txs = tx # rest"
    by (auto simp: hop bind_eq_Some_conv)
  have ok: "hop_ok asset f_old inputs customers" using Cons.prems(1) by (simp add: hop)
  from hop_accounts [OF laws ok Cons.prems(2) run] obtain drain fee where
    fee: "fee_of tx = Some fee" "unat (cu_value change) = drain + unat fee"
    and pays: "pays_out (sl_lwk S) asset fee ((f_old, drain) # map (map_prod id unat) customers) (tx_output tx)"
    and sep: "separate (map fst ((f_old, drain) # map (map_prod id unat) customers))"
    and paid: "customers_paid (sl_lwk S) customers tx" and spends: "cu_outpoint change \<in> ti_previous_output ` set (tx_input tx)" .
  note change' = chain_change_pays [OF pays sep _ own next_coin, of drain, simplified]
  from Cons.IH [OF _ change'(1) rest] Cons.prems(1) obtain fees where
    IH: "cu_asset left = asset" "list_all2 (\<lambda>(inputs, customers, signers) tx. customers_paid (sl_lwk S) customers tx) hops rest"
      "chained (sl_elements S) f_old (cu_outpoint change') rest (cu_outpoint left)"
    and fees: "map fee_of rest = map Some fees" "unat (cu_value left) + sum_list (map unat fees) = unat (cu_value change')"
    by auto
  have "\<exists>fees. map fee_of txs = map Some fees \<and> unat (cu_value left) + sum_list (map unat fees) = unat (cu_value change)"
    using fees fee change'(2) by (intro exI [of _ "fee # fees"]) (simp add: txs)
  moreover have "chained (sl_elements S) f_old (cu_outpoint change) txs (cu_outpoint left)"
    using change'(3) IH(3) spends by (auto simp: txs)
  ultimately show ?case using IH paid by (simp add: hop txs)
qed simp

text \<open>
  Over hops that each hand their customers exactly the value of the coins they bring (\<open>hop_ok\<close>), with
  a library whose transactions balance (\<open>drains_into\<close>), the fee account pays the mining fees and
  nothing else: every customer can open its payment and finds the amount it was promised; what
  arrives at the fee account's new address, with all the fees, is what the fee account had. Each transaction spends the change of the one before
  it, and the last one has no output but the fee account's and the fee.
\<close>

lemma batch_pays_only_fees:
  fixes S :: "('d, 's, 'e, 'b, 'w, 'f, 'k, 'mbk, 'sk, 'id, 'xp, 'x) spend_libs"
  assumes laws: "local_update (sl_desc S) upd" "drains_into (sl_lwk S) (sl_tx S) to_out asset" "extracts (sl_pset S) to_out"
    and own: "address (sl_lwk S) w_f c i = Inr f_old" "address (sl_lwk S) w_f c' i' = Inr f_new"
      "\<not> script_is_empty (ad_script_pubkey f_new)"
    and hops: "\<forall>(inputs, customers, signers) \<in> set hops. hop_ok asset f_old inputs customers"
    and initial: "cu_asset initial = asset"
    and run: "run_batch S w_f rate wid f_old f_new hops initial fee_signers = Some (txs, tx)"
  shows "list_all2 (\<lambda>(inputs, customers, signers) tx. customers_paid (sl_lwk S) customers tx) hops txs
    \<and> (\<exists>fees fee final. map fee_of txs = map Some fees \<and> fee_of tx = Some fee
         \<and> unblind_at (sl_lwk S) w_f tx f_new = Some final
         \<and> unat final + sum_list (map unat fees) + unat fee = unat (cu_value initial))
    \<and> (\<exists>op. chained (sl_elements S) f_old (cu_outpoint initial) txs op \<and> op \<in> ti_previous_output ` set (tx_input tx))
    \<and> length (tx_output tx) = 2"
proof -
  from run obtain left where hops_run: "run_hops S w_f rate wid f_old hops initial = Some (txs, left)"
    and last: "run_migration S w_f rate ([] @ [(left, w_f)]) [] f_new fee_signers = Some tx"
    by (auto simp: run_batch_def bind_eq_Some_conv)
  note account = run_hops_account [OF laws own(1) hops initial hops_run]
  have "hop_ok asset f_new ([] :: (captured_utxo \<times> ('d, 'k, 'w) elements_wollet) list) []"
    using own(3) by (simp add: hop_ok_def coins_total_def paid_total_def separate_def)
  from hop_accounts [OF laws this _ last] account obtain drain fee where fee: "fee_of tx = Some fee"
      "unat (cu_value left) = drain + unat fee" "cu_outpoint left \<in> ti_previous_output ` set (tx_input tx)"
    and pays: "pays_out (sl_lwk S) asset fee [(f_new, drain)] (tx_output tx)" and sep: "separate (map fst [(f_new, drain)])"
    by (metis (no_types, lifting) list.simps(8))
  from unblind_at_pays [OF pays sep _ own(2), of drain] obtain final where
    final: "unblind_at (sl_lwk S) w_f tx f_new = Some final" "unat final = drain" by auto
  from pays obtain fee_out t where "mset (tx_output tx) = {#fee_out, t#}"
    unfolding pays_out_def by (auto simp: list_all2_Cons1)
  from arg_cong [OF this, of size] have "length (tx_output tx) = 2" by simp
  moreover have "\<exists>fees fee final. map fee_of txs = map Some fees \<and> fee_of tx = Some fee
      \<and> unblind_at (sl_lwk S) w_f tx f_new = Some final
      \<and> unat final + sum_list (map unat fees) + unat fee = unat (cu_value initial)"
    using account fee final by fastforce
  ultimately show ?thesis using account fee(3) by blast
qed

end
