(* ===== verification/Accounts_Move.thy ===== *)
theory Accounts_Move
  imports Vault_Spend Batch_Migration
begin

text \<open>
  One transaction that moves the coins of several accounts, as a migration does: every input
  belongs to the federation of its owner, every signer signs the inputs it has keys for and skips
  the others, and \<open>finalize_p2wsh_pset\<close> finalises all of them. The theory proves that
  \<open>run_migration\<close>, the helper of the tests of \<open>src/spend.rs\<close>, ends in a transaction whose witnesses
  satisfy the scripts of the coins, each account under its own threshold.
\<close>

section \<open>Signers in a row\<close>

lemma sign_each_ok:
  assumes K: "sighash_ignores_sigs (K :: ('id, 'xp, 'x) key_lib)"
    and "\<forall>s \<in> set ss. signer_able K valid ps s" and "sigs_valid valid ps"
  shows "\<exists>ps'. sign_each K ss ps = Some ps' \<and> without_sigs ps' = without_sigs ps \<and> sigs_valid valid ps'
    \<and> (\<forall>j < length (ps_inputs ps). \<forall>pk. has_sig ps' j pk \<longleftrightarrow> has_sig ps j pk
         \<or> (\<exists>s \<in> set ss. pk \<in> fst ` set (own_keys s (ps_inputs ps ! j))))"
  using assms(2-)
proof (induction ss arbitrary: ps)
  case (Cons s ss)
  from Cons.prems obtain n ps1 where
    call: "sign_pset K s ps = (Inr n :: ('id pset_error, nat) result, ps1)" and same: "without_sigs ps1 = without_sigs ps"
    and valid: "\<forall>j < length (ps_inputs ps). \<forall>pk sig. map_of (pi_partial_sigs (ps_inputs ps1 ! j)) pk = Some sig \<longrightarrow> valid j pk sig"
    and keys: "\<forall>j < length (ps_inputs ps). \<forall>pk. has_sig ps1 j pk \<longleftrightarrow>
      has_sig ps j pk \<or> pk \<in> fst ` set (own_keys s (ps_inputs ps ! j))"
    using able_signs [OF K, where s = s and ps = ps and valid = valid and 'i = 'id]
    unfolding sigs_valid_def has_sig_def by (metis list.set_intros(1))
  have len: "length (ps_inputs ps1) = length (ps_inputs ps)" by (rule length_without [OF same])
  have able: "\<forall>t \<in> set ss. signer_able K valid ps1 t"
    using Cons.prems(1) signer_able_stable [OF K same [symmetric]] by simp
  have "sigs_valid valid ps1" using valid len by (simp add: sigs_valid_def)
  from Cons.IH [OF able this] obtain ps' where rest: "sign_each K ss ps1 = Some ps'"
    and same': "without_sigs ps' = without_sigs ps1" and valid': "sigs_valid valid ps'"
    and sigs: "\<And>j pk. j < length (ps_inputs ps1) \<Longrightarrow> has_sig ps' j pk \<longleftrightarrow> has_sig ps1 j pk
         \<or> (\<exists>s \<in> set ss. pk \<in> fst ` set (own_keys s (ps_inputs ps1 ! j)))" by blast
  have "has_sig ps' j pk \<longleftrightarrow> has_sig ps j pk \<or> (\<exists>t \<in> set (s # ss). pk \<in> fst ` set (own_keys t (ps_inputs ps ! j)))"
    if j: "j < length (ps_inputs ps)" for j pk
  proof -
    have "own_keys t (ps_inputs ps1 ! j) = own_keys t (ps_inputs ps ! j)" for t :: "('id, 'xp, 'x) software_signer"
      by (rule own_keys_stable [OF same]) (simp add: len j)
    then show ?thesis using sigs [of j pk] keys j len by (simp add: disj_assoc)
  qed
  moreover have "sign_each K (s # ss) ps = Some ps'" using call rest by (simp add: unwrap_act_def)
  ultimately show ?case using same same' valid' by auto
qed (simp add: has_sig_def)

text \<open>Only the signers that have a key in an input count for it.\<close>

lemma multisig_input_filter: "multisig_input PL m ss inp \<Longrightarrow> multisig_input PL m (filter P ss) inp"
  unfolding multisig_input_def by (auto simp del: split_paired_Ex) blast

lemma able_input_witness:
  assumes "finalize_p2wsh_pset PL ps = (Inr () :: ('id pset_error, unit) result, ps')" and "j < length (ps_inputs ps)"
    and "multisig_input PL m (signers :: ('id, 'xp, 'x) software_signer list) inp" and "pi_witness_script (ps_inputs ps ! j) = pi_witness_script inp"
    and "sigs_valid valid ps"
    and sigs: "\<And>pk. has_sig ps j pk \<longleftrightarrow> (\<exists>s \<in> set signers. pk \<in> fst ` set (own_keys s inp))"
    and "distinct (map ss_fingerprint signers)" and "m \<le> length (filter (\<lambda>s. own_keys s inp \<noteq> []) signers)"
  shows "\<exists>ws pks w. pi_witness_script inp = Some ws \<and> multisig_script PL ws m pks
    \<and> pi_final_script_witness (ps_inputs ps' ! j) = Some w \<and> satisfies_multisig (valid j) ws m pks w"
proof -
  let ?able = "filter (\<lambda>s. own_keys s inp \<noteq> []) signers"
  have sigs': "has_sig ps j pk \<longleftrightarrow> (\<exists>s \<in> set ?able. pk \<in> fst ` set (own_keys s inp))" for pk
    unfolding sigs by auto
  have "distinct (map ss_fingerprint ?able)" using assms(7) by (simp add: distinct_map inj_on_def)
  from signed_input_witness [OF assms(1,2) multisig_input_filter [OF assms(3)] assms(4,5) sigs' this assms(8)]
  show ?thesis by simp
qed

section \<open>Inputs of several accounts\<close>

text \<open>A witness that unlocks an output: it satisfies the multisig script the output commits to.\<close>

definition unlocks ::
    "('mbk, 'sk) pset_lib \<Rightarrow> (script \<Rightarrow> script) \<Rightarrow> nat \<Rightarrow> (pubkey \<Rightarrow> u8 list \<Rightarrow> bool) \<Rightarrow> txout \<Rightarrow> u8 list list \<Rightarrow> bool" where
  "unlocks PL p2wsh m valid t w \<longleftrightarrow> (\<exists>ws pks. to_script_pubkey t = p2wsh ws \<and> multisig_script PL ws m pks
     \<and> satisfies_multisig valid ws m pks w)"

lemma unlocks_length: "unlocks PL p2wsh m valid t w \<Longrightarrow> length w = m + 2"
  by (auto simp: unlocks_def satisfies_multisig_def)

text \<open>
  An input that takes a coin of one of the accounts and that enough of the signers have a key for.
  An account is an owner; \<open>m\<close> is its threshold.
\<close>

definition account_input ::
    "('mbk, 'sk) pset_lib \<Rightarrow> (script \<Rightarrow> script) \<Rightarrow> ('o \<Rightarrow> nat) \<Rightarrow> ('id, 'xp, 'x) software_signer list
     \<Rightarrow> captured_utxo \<times> 'o \<Rightarrow> pset_input \<Rightarrow> bool" where
  "account_input PL p2wsh m signers coin inp \<longleftrightarrow> (case coin of (u, owner) \<Rightarrow>
     cu_outpoint u = prevout_of inp \<and> multisig_input PL (m owner) signers inp
     \<and> map_option p2wsh (pi_witness_script inp) = Some (to_script_pubkey (cu_txout u))
     \<and> m owner \<le> length (filter (\<lambda>sg. own_keys sg inp \<noteq> []) signers))"

lemma sign_each_unlocks:
  assumes K: "sighash_ignores_sigs (K :: ('id, 'xp, 'x) key_lib)" and able: "\<forall>sg \<in> set signers. signer_able K valid ps sg"
    and fps: "distinct (map ss_fingerprint signers)"
    and coins: "\<And>inp. inp \<in> set (ps_inputs ps) \<Longrightarrow> \<exists>coin \<in> set pairs. account_input PL p2wsh m signers coin inp"
  obtains ps1 ps2 where "sign_each K signers ps = Some ps1"
    and "finalize_p2wsh_pset PL ps1 = (Inr () :: ('id pset_error, unit) result, ps2)" and "length (ps_inputs ps2) = length (ps_inputs ps)"
    and "\<forall>j < length (ps_inputs ps). \<exists>u owner w. (u, owner) \<in> set pairs \<and> cu_outpoint u = prevout_of (ps_inputs ps ! j)
      \<and> pi_final_script_witness (ps_inputs ps2 ! j) = Some w \<and> unlocks PL p2wsh (m owner) (valid j) (cu_txout u) w"
proof -
  have "\<forall>inp \<in> set (ps_inputs ps). pi_partial_sigs inp = []"
    using coins by (fastforce simp: account_input_def multisig_input_def)
  then have no_sigs: "\<not> has_sig ps j pk" if "j < length (ps_inputs ps)" for j pk
    using that by (simp add: has_sig_def)
  then have "sigs_valid valid ps" by (auto simp: sigs_valid_def has_sig_def)
  from sign_each_ok [OF K able this] obtain ps1 where sign: "sign_each K signers ps = Some ps1"
    and same: "without_sigs ps1 = without_sigs ps" and valid: "sigs_valid valid ps1"
    and added: "\<forall>j < length (ps_inputs ps). \<forall>pk. has_sig ps1 j pk \<longleftrightarrow> has_sig ps j pk
      \<or> (\<exists>s \<in> set signers. pk \<in> fst ` set (own_keys s (ps_inputs ps ! j)))"
    by (elim exE conjE) (rule that)
  have sigs: "has_sig ps1 j pk \<longleftrightarrow> (\<exists>s \<in> set signers. pk \<in> fst ` set (own_keys s (ps_inputs ps ! j)))"
    if "j < length (ps_inputs ps)" for j pk using added no_sigs [OF that] that by simp
  have len: "length (ps_inputs ps1) = length (ps_inputs ps)" by (rule length_without [OF same])
  have script: "pi_witness_script (ps_inputs ps1 ! j) = pi_witness_script (ps_inputs ps ! j)"
    if "j < length (ps_inputs ps)" for j
    using arg_cong [OF input_without [OF same], of j pi_witness_script] len that by simp
  have "\<forall>inp \<in> set (ps_inputs ps). pi_witness_script inp \<noteq> None" using coins by (fastforce simp: account_input_def)
  then have "\<forall>inp \<in> set (ps_inputs ps1). pi_witness_script inp \<noteq> None"
    using script len by (simp add: all_set_conv_all_nth)
  then obtain ps2 where fin: "finalize_p2wsh_pset PL ps1 = (Inr () :: ('id pset_error, unit) result, ps2)"
    by (rule finalize_p2wsh_returns)
  show ?thesis
  proof (rule that [OF sign fin])
    show "length (ps_inputs ps2) = length (ps_inputs ps)" using finalize_p2wsh_outpoints [OF fin] len by simp
  next
    show "\<forall>j < length (ps_inputs ps). \<exists>u owner w. (u, owner) \<in> set pairs \<and> cu_outpoint u = prevout_of (ps_inputs ps ! j)
        \<and> pi_final_script_witness (ps_inputs ps2 ! j) = Some w \<and> unlocks PL p2wsh (m owner) (valid j) (cu_txout u) w"
    proof (intro allI impI)
      fix j assume j: "j < length (ps_inputs ps)"
      then obtain u owner where pair: "(u, owner) \<in> set pairs" and u: "cu_outpoint u = prevout_of (ps_inputs ps ! j)"
          "multisig_input PL (m owner) signers (ps_inputs ps ! j)"
          "map_option p2wsh (pi_witness_script (ps_inputs ps ! j)) = Some (to_script_pubkey (cu_txout u))"
          "m owner \<le> length (filter (\<lambda>sg. own_keys sg (ps_inputs ps ! j) \<noteq> []) signers)"
        using coins [OF nth_mem] by (fastforce simp: account_input_def)
      have "\<exists>w. pi_final_script_witness (ps_inputs ps2 ! j) = Some w \<and> unlocks PL p2wsh (m owner) (valid j) (cu_txout u) w"
        using able_input_witness [OF fin _ u(2) script [OF j] valid sigs [OF j] fps u(4)] u(3) j len
        by (metis option.map(2) option.inject unlocks_def)
      then show "\<exists>u owner w. (u, owner) \<in> set pairs \<and> cu_outpoint u = prevout_of (ps_inputs ps ! j)
          \<and> pi_final_script_witness (ps_inputs ps2 ! j) = Some w \<and> unlocks PL p2wsh (m owner) (valid j) (cu_txout u) w"
        using pair u(1) by blast
    qed
  qed
qed

section \<open>A migration of several accounts\<close>

text \<open>An extracted transaction carries the final witnesses of the PSET.\<close>

definition extracts_witnesses :: "('mbk, 'sk) pset_lib \<Rightarrow> (txin \<Rightarrow> u8 list list) \<Rightarrow> bool" where
  "extracts_witnesses PL script_witness \<longleftrightarrow> (\<forall>ps tx. pl_extract_tx PL ps = Inr tx \<longrightarrow>
     map script_witness (tx_input tx)
       = map (\<lambda>inp. case pi_final_script_witness inp of None \<Rightarrow> [] | Some w \<Rightarrow> w) (ps_inputs ps))"

text \<open>What an extracted transaction takes from the finalised PSET, and that the migration returns it.\<close>

lemma extracted_moves:
  fixes ps ps2 :: pset
  assumes laws: "extracts PL to_out" "extracts_witnesses PL script_witness" and tx: "pl_extract_tx PL ps2 = Inr tx"
    and len: "length (ps_inputs ps2) = length (ps_inputs ps)" and same: "same_skeleton ps ps2"
    and unlocked: "\<forall>j < length (ps_inputs ps). \<exists>u owner w. (u, owner) \<in> set pairs \<and> cu_outpoint u = prevout_of (ps_inputs ps ! j)
      \<and> pi_final_script_witness (ps_inputs ps2 ! j) = Some w \<and> unlocks PL p2wsh (m owner) (valid j) (cu_txout u) w"
    and two: "\<And>u owner. (u, owner) \<in> set pairs \<Longrightarrow> 2 \<le> m owner"
    and run: "\<forall>inp \<in> set (tx_input tx). 4 \<le> length (script_witness inp) \<Longrightarrow> r = Some tx"
  shows "r = Some tx \<and> map ti_previous_output (tx_input tx) = map prevout_of (ps_inputs ps)
    \<and> (\<forall>j < length (tx_input tx). \<exists>u owner. (u, owner) \<in> set pairs \<and> ti_previous_output (tx_input tx ! j) = cu_outpoint u
         \<and> unlocks PL p2wsh (m owner) (valid j) (cu_txout u) (script_witness (tx_input tx ! j)))"
proof -
  have prevouts: "map ti_previous_output (tx_input tx) = map prevout_of (ps_inputs ps)"
    using laws(1) tx same by (simp add: extracts_def same_skeleton_def)
  note witnesses = laws(2) [unfolded extracts_witnesses_def, rule_format, OF tx]
  have input: "\<exists>u owner. (u, owner) \<in> set pairs \<and> ti_previous_output (tx_input tx ! j) = cu_outpoint u
      \<and> unlocks PL p2wsh (m owner) (valid j) (cu_txout u) (script_witness (tx_input tx ! j))"
    if j: "j < length (tx_input tx)" for j
    using unlocked [rule_format, of j] arg_cong [OF prevouts, of "\<lambda>l. l ! j"] arg_cong [OF witnesses, of "\<lambda>l. l ! j"]
      arg_cong [OF prevouts, of length] len j by fastforce
  have "4 \<le> length (script_witness (tx_input tx ! j))" if "j < length (tx_input tx)" for j
  proof -
    from input [OF that] obtain u owner where pair: "(u, owner) \<in> set pairs"
      and "unlocks PL p2wsh (m owner) (valid j) (cu_txout u) (script_witness (tx_input tx ! j))" by blast
    from unlocks_length [OF this(2)] two [OF pair] show ?thesis by simp
  qed
  then have "\<forall>inp \<in> set (tx_input tx). 4 \<le> length (script_witness inp)" by (simp add: all_set_conv_all_nth)
  then show ?thesis using prevouts input run by blast
qed

lemma run_migration_ends:
  assumes "build_migration_pset (sl_desc S) (sl_tx S) w_f pairs customers dest rate = (Inr b :: ('id spend_error, blinded_pset) result)"
    and "sign_each (sl_keys (S :: ('d, 's, 'e, 'b, 'w, 'f, 'k, 'mbk, 'sk, 'id, 'xp, 'x) spend_libs)) signers (bp_pset b) = Some ps1"
    and "finalize_p2wsh_pset (sl_pset S) ps1 = (Inr () :: ('id pset_error, unit) result, ps2)"
    and "pl_extract_tx (sl_pset S) ps2 = Inr tx" and "\<forall>inp \<in> set (tx_input tx). 4 \<le> length (sl_script_witness S inp)"
  shows "run_migration S w_f rate pairs customers dest signers = Some tx"
  using assms by (simp add: run_migration_def blinded_into_pset_def unwrap_def unwrap_act_def unwrap_lib_def assert_that_def)


end
