(* ===== verification/Small_LWK.thy ===== *)
theory Small_LWK
  imports Accounts_Move Federated_Wallet
begin

text \<open>
  A small concrete instance of the libraries behind a spend, for the tests of \<open>src/spend.rs\<close> and the
  witness of the batch theorem: descriptors are read from their text, the builder selects nothing,
  pays, drains and charges a fee for every input, a blinded amount is its bytes behind the blinding
  key. That the instance keeps the promises the batch theorem asks for is proved for all inputs.
\<close>

section \<open>Amounts as bytes\<close>

fun enc_le :: "nat \<Rightarrow> int \<Rightarrow> u8 list" where
  "enc_le 0 n = []"
| "enc_le (Suc k) n = word_of_int (n mod 256) # enc_le k (n div 256)"

fun dec_le :: "u8 list \<Rightarrow> int" where
  "dec_le [] = 0"
| "dec_le (b # bs) = uint b + 256 * dec_le bs"

lemma dec_enc_le: "0 \<le> n \<Longrightarrow> n < 256 ^ k \<Longrightarrow> dec_le (enc_le k n) = n"
proof (induction k arbitrary: n)
  case (Suc k)
  have "uint (word_of_int (n mod 256) :: u8) = n mod 256" by (simp add: unsigned_of_int take_bit_int_eq_self)
  moreover have "dec_le (enc_le k (n div 256)) = n div 256"
    using Suc.prems by (intro Suc.IH) (auto simp: int_div_less_self pos_imp_zdiv_nonneg_iff div_less_iff_less_mult)
  ultimately show ?case by simp
qed simp

section \<open>Descriptors, addresses, unblinding\<close>

text \<open>A descriptor: the first digit of its blinding key and the numbers behind the \<open>f\<close>s of its text.\<close>

type_synonym small_desc = "u8 \<times> u8 list"

fun digits_value :: "nat \<Rightarrow> string \<Rightarrow> nat" where
  "digits_value acc [] = acc"
| "digits_value acc (c # s) =
     (if 48 \<le> (of_char c :: nat) \<and> (of_char c :: nat) \<le> 57 then digits_value (10 * acc + (of_char c - 48)) s else acc)"

fun seeds_in :: "string \<Rightarrow> u8 list" where
  "seeds_in [] = []"
| "seeds_in (c # s) = (if c = CHR ''f'' then word_of_nat (digits_value 0 s) # seeds_in s else seeds_in s)"

definition small_address :: "u8 \<Rightarrow> small_desc \<Rightarrow> u32 \<Rightarrow> address" where
  "small_address ch d i = \<lparr>ad_script_pubkey = Script [0, 0x20, fst d, hd (snd d), ch, ucast i], ad_blinding_pubkey = Some [fst d]\<rparr>"

fun small_unblind :: "conf_value \<Rightarrow> u8 \<Rightarrow> string + txout_secrets" where
  "small_unblind (ValueConfidential (k # bytes)) b = (if k = b
     then Inr \<lparr>sec_asset = AssetId 7, sec_asset_bf = 1, sec_value = word_of_int (dec_le bytes), sec_value_bf = 2\<rparr>
     else Inl ''wrong blinding key'')"
| "small_unblind v b = Inl ''not confidential''"

definition small_lwk :: "(small_desc, string, small_desc) lwk_lib" where
  "small_lwk = \<lparr>lwk_parse_descriptor = (\<lambda>s. Inr (word_of_nat (of_char (s ! 10)), seeds_in s)),
     lwk_build_wollet = (\<lambda>n d. Inr d), lwk_parse_mbk = Inr,
     lwk_address = (\<lambda>d i p. Inr (small_address 0 d i)), lwk_change = (\<lambda>d i p. Inr (small_address 1 d i)),
     lwk_try_unblind = (\<lambda>t d. small_unblind (to_value t) (fst d))\<rparr>"

section \<open>Descriptors as the spend path uses them\<close>

definition small_keys :: "small_desc \<times> u8 \<times> u32 \<Rightarrow> (pubkey \<times> (fingerprint \<times> child_number list)) list" where
  "small_keys e = map (\<lambda>seed. (PublicKey (seed # fst (snd e) # ucast (snd (snd e)) # replicate 30 0), (ucast seed, [])))
     (snd (fst e))"

definition small_update :: "small_desc \<times> u8 \<times> u32 \<Rightarrow> pset_input \<Rightarrow> pset_input" where
  "small_update e inp = inp\<lparr>pi_witness_script := Some (ex_script (map fst (small_keys e))), pi_bip32_derivation := small_keys e\<rparr>"

definition small_descs :: "(small_desc, small_desc \<times> u8, small_desc \<times> u8 \<times> u32) desc_lib" where
  "small_descs = \<lparr>dl_to_string = (\<lambda>d. map (\<lambda>b. char_of (unat b)) (fst d # snd d)),
     dl_into_single_descriptors = (\<lambda>d. Inr [(d, 0), (d, 1)]), dl_at_derivation_index = (\<lambda>s i. Inr (fst s, snd s, i)),
     dl_max_weight_to_satisfy = (\<lambda>e. Inr 100),
     dl_update_input = (\<lambda>ps idx e. if idx < length (ps_inputs ps)
       then Inr (ps\<lparr>ps_inputs := (ps_inputs ps)[idx := small_update e (ps_inputs ps ! idx)]\<rparr>)
       else Inl ''input index out of range'')\<rparr>"

section \<open>The builder\<close>

record small_builder =
  sb_coins :: "external_utxo list"
  sb_payments :: "(address \<times> u64) list"
  sb_drain :: "address option"
  sb_rate :: int

definition small_input :: "external_utxo \<Rightarrow> pset_input" where
  "small_input e = \<lparr>pi_previous_txid = op_txid (eu_outpoint e), pi_previous_output_index = op_vout (eu_outpoint e),
     pi_witness_utxo = Some (eu_txout e), pi_partial_sigs = [], pi_sighash_type = None, pi_redeem_script = None,
     pi_witness_script = None, pi_bip32_derivation = [], pi_final_script_witness = None\<rparr>"

definition small_output :: "address \<Rightarrow> int \<Rightarrow> pset_output" where
  "small_output a v = \<lparr>po_script_pubkey = ad_script_pubkey a, po_amount = Some (word_of_int v),
     po_amount_comm = Some ((case ad_blinding_pubkey a of Some (k # _) \<Rightarrow> k | _ \<Rightarrow> 0) # enc_le 8 v),
     po_asset = Some (AssetId 7), po_asset_comm = Some [10], po_value_rangeproof = Some [1],
     po_asset_surjection_proof = Some [2], po_blinder_index = Some 0\<rparr>"

definition small_fee :: "int \<Rightarrow> pset_output" where
  "small_fee v = ex_fee\<lparr>po_amount := Some (word_of_int v)\<rparr>"

definition coins_sum :: "external_utxo list \<Rightarrow> int" where
  "coins_sum ext = sum_list (map (\<lambda>e. uint (sec_value (eu_unblinded e))) ext)"

definition payments_sum :: "(address \<times> u64) list \<Rightarrow> int" where
  "payments_sum rs = sum_list (map (\<lambda>r. uint (snd r)) rs)"

definition small_finish :: "small_desc \<Rightarrow> small_builder \<Rightarrow> string + pset" where
  "small_finish d b =
     (let total = coins_sum (sb_coins b); paid = payments_sum (sb_payments b); fee = sb_rate b * int (length (sb_coins b));
          change = (case sb_drain b of Some a \<Rightarrow> a | None \<Rightarrow> small_address 1 d 0)
      in if fee < 0 \<or> total < paid + fee \<or> 18446744073709551616 \<le> total then Inl ''insufficient funds''
         else Inr \<lparr>ps_global = [], ps_inputs = map small_input (sb_coins b),
           ps_outputs = map (\<lambda>(a, v). small_output a (uint v)) (sb_payments b)
             @ [small_output change (total - paid - fee), small_fee fee]\<rparr>)"

definition small_tx :: "(small_builder, small_desc, address, int) tx_lib" where
  "small_tx = \<lparr>tb_new = (\<lambda>n. \<lparr>sb_coins = [], sb_payments = [], sb_drain = None, sb_rate = 100\<rparr>),
     tb_add_external_utxos = (\<lambda>ext b. Inr (b\<lparr>sb_coins := sb_coins b @ ext\<rparr>)),
     tb_add_lbtc_recipient = (\<lambda>a v b. Inr (b\<lparr>sb_payments := sb_payments b @ [(a, v)]\<rparr>)),
     tb_drain_lbtc_wallet = (\<lambda>b. b), tb_drain_lbtc_to = (\<lambda>a b. b\<lparr>sb_drain := Some a\<rparr>),
     tb_fee_rate = (\<lambda>r b. b\<lparr>sb_rate := (case r of None \<Rightarrow> 100 | Some r \<Rightarrow> r)\<rparr>), tb_finish = small_finish\<rparr>"

section \<open>Transactions and keys\<close>

definition small_txout :: "pset_output \<Rightarrow> txout" where
  "small_txout out = \<lparr>to_asset = AssetExplicit (AssetId 7),
     to_value = (case po_amount_comm out of Some c \<Rightarrow> ValueConfidential c
       | None \<Rightarrow> (case po_amount out of Some v \<Rightarrow> ValueExplicit v | None \<Rightarrow> ValueNull)),
     to_nonce = [], to_script_pubkey = po_script_pubkey out, to_witness = []\<rparr>"

text \<open>A witness as bytes: a one before each byte of an item, a zero behind the item.\<close>

definition flatten :: "u8 list list \<Rightarrow> u8 list" where
  "flatten ws = concat (map (\<lambda>w. concat (map (\<lambda>b. [1, b]) w) @ [0]) ws)"

fun unflatten :: "u8 list \<Rightarrow> u8 list list" where
  "unflatten [] = []"
| "unflatten (n # bs) = (if n = 0 then [] # unflatten bs
     else case bs of [] \<Rightarrow> [] | b # bs' \<Rightarrow> (case unflatten bs' of [] \<Rightarrow> [] | w # ws \<Rightarrow> (b # w) # ws))"

lemma unflatten_flatten [simp]: "unflatten (flatten ws) = ws"
proof (induction ws)
  case (Cons w ws)
  have "unflatten (concat (map (\<lambda>b. [1, b]) w) @ 0 # rest) = w # unflatten rest" for rest
    by (induction w) simp_all
  with Cons show ?case by (simp add: flatten_def)
qed (simp add: flatten_def)

definition small_extract :: "pset \<Rightarrow> string + transaction" where
  "small_extract ps = Inr \<lparr>tx_version = 2, tx_lock_time = 0,
     tx_input = map (\<lambda>inp. \<lparr>ti_previous_output = prevout_of inp,
       ti_body = flatten (case pi_final_script_witness inp of None \<Rightarrow> [] | Some w \<Rightarrow> w)\<rparr>) (ps_inputs ps),
     tx_output = map small_txout (ps_outputs ps)\<rparr>"

definition small_psets :: "(unit, unit) pset_lib" where
  "small_psets = ex_pset_lib\<lparr>pl_extract_tx := small_extract\<rparr>"

definition small_key_lib :: "(nat, nat, nat) key_lib" where
  "small_key_lib = ex_key_lib\<lparr>kl_parse_path := (\<lambda>s. Inr [ChildHardened 48, ChildHardened 1, ChildHardened 0, ChildHardened 2]),
     kl_extract_tx := small_extract\<rparr>"

text \<open>The id of a transaction, from the outpoint of its first input.\<close>

definition small_txid :: "transaction \<Rightarrow> txid" where
  "small_txid tx = (case tx_input tx of [] \<Rightarrow> Txid 0
     | i # _ \<Rightarrow> (case op_txid (ti_previous_output i) of Txid t \<Rightarrow> Txid (2 * t + ucast (op_vout (ti_previous_output i)) + 1000)))"

definition small_libs ::
    "(small_desc, small_desc \<times> u8, small_desc \<times> u8 \<times> u32, small_builder, small_desc, int, string, unit, unit, nat, nat, nat) spend_libs" where
  "small_libs = \<lparr>sl_elements = \<lparr>lib_txid = small_txid, lib_block_hash = (\<lambda>b. BlockHash 0), lib_serialize_block = (\<lambda>b. []),
       lib_serialize_tx = (\<lambda>tx. concat (map ti_body (tx_input tx))), lib_show_block_hash = (\<lambda>h. [])\<rparr>,
     sl_lwk = small_lwk, sl_desc = small_descs, sl_tx = small_tx, sl_pset = small_psets, sl_keys = small_key_lib,
     sl_script_witness = (\<lambda>i. unflatten (ti_body i))\<rparr>"

section \<open>The promises are kept\<close>

lemma small_local_update: "local_update small_descs (\<lambda>e inp. Inr (small_update e inp))"
  by (auto simp: local_update_def small_descs_def small_update_def prevout_of_def)

lemma small_extracts: "extracts small_psets small_txout"
  by (auto simp: extracts_def small_psets_def small_extract_def)

lemma small_pays_to:
  assumes "v < 2 ^ 64"
  shows "pays_to small_lwk (AssetId 7) a v (small_txout (small_output a (int v)))"
proof -
  have v: "dec_le (enc_le 8 (int v)) = int v" "unat (word_of_int (int v) :: u64) = v"
    using assms by (simp_all add: dec_enc_le unat_of_nat take_bit_nat_eq_self)
  have "\<exists>s. unblind small_lwk w (small_txout (small_output a (int v))) = Inr s \<and> sec_asset s = AssetId 7 \<and> unat (sec_value s) = v"
    if "address small_lwk w c i = Inr a" for w :: "(small_desc, string, small_desc) elements_wollet" and c i
  proof -
    have "ad_blinding_pubkey a = Some [fst (ew_descriptor w)]"
      using that by (cases c) (auto simp: address_def small_lwk_def small_address_def lib_err_def)
    then show ?thesis using v
      by (simp add: unblind_def small_lwk_def small_txout_def small_output_def lib_err_def del: enc_le.simps of_int_of_nat_eq)
  qed
  then show ?thesis by (auto simp: pays_to_def small_txout_def small_output_def)
qed

lemma small_adds: "adds_recipients small_tx rs b b' \<Longrightarrow> b' = b\<lparr>sb_payments := sb_payments b @ rs\<rparr>"
proof (induction rs arbitrary: b)
  case (Cons r rs)
  obtain a v where r: "r = (a, v)" by (rule prod.exhaust)
  have "tb_add_lbtc_recipient small_tx a v b = Inr (b\<lparr>sb_payments := sb_payments b @ [(a, v)]\<rparr>)"
    by (simp add: small_tx_def)
  with Cons.prems have "adds_recipients small_tx rs (b\<lparr>sb_payments := sb_payments b @ [(a, v)]\<rparr>) b'" by (simp add: r)
  from Cons.IH [OF this] show ?case by (simp add: r)
qed simp

lemma sum_list_int: "sum_list (map (\<lambda>x. uint (f x)) xs) = int (sum_list (map (\<lambda>x. unat (f x)) xs))"
  by (induction xs) simp_all

lemma small_drains: "drains_into small_lwk small_tx small_txout (AssetId 7)"
  unfolding drains_into_def
proof (intro allI impI)
  fix n w ext rs dest rate b0 b ps
  assume b0: "tb_add_external_utxos small_tx ext (tb_new small_tx n) = Inr b0" and b: "adds_recipients small_tx rs b0 b"
    and ps: "tb_finish small_tx w (tb_fee_rate small_tx (Some rate) (tb_drain_lbtc_to small_tx dest (tb_drain_lbtc_wallet small_tx b))) = Inr ps"
  define total paid where t: "total = total_in ext" "paid = paid_total rs"
  have sums: "coins_sum ext = int total" "payments_sum rs = int paid"
    by (simp_all add: t coins_sum_def payments_sum_def total_in_def paid_total_def sum_list_int comp_def)
  from b0 have "b0 = \<lparr>sb_coins = ext, sb_payments = [], sb_drain = None, sb_rate = 100\<rparr>" by (simp add: small_tx_def)
  with small_adds [OF b] ps have "small_finish w \<lparr>sb_coins = ext, sb_payments = rs, sb_drain = Some dest, sb_rate = rate\<rparr> = Inr ps"
    by (simp add: small_tx_def)
  then have "0 \<le> rate * int (length ext)" "int paid + rate * int (length ext) \<le> int total" "total < 2 ^ 64"
    and outs: "ps_outputs ps = map (\<lambda>(a, v). small_output a (uint v)) rs
        @ [small_output dest (int total - int paid - rate * int (length ext)), small_fee (rate * int (length ext))]"
    and ins: "ps_inputs ps = map small_input ext"
    by (auto simp: small_finish_def Let_def sums split: if_splits)
  moreover obtain fee where fee: "rate * int (length ext) = int fee" using calculation(1) by (metis nonneg_int_cases)
  ultimately have enough: "paid + fee \<le> total" "total < 2 ^ 64" by simp_all
  have change: "int total - int paid - int fee = int (total - paid - fee)" using enough by (simp add: of_nat_diff)
  have fee_u64: "unat (word_of_int (int fee) :: u64) = fee" using enough by (simp add: unat_of_nat take_bit_nat_eq_self)
  have small: "unat (v :: u64) < 2 ^ 64" for v using unsigned_less [of v] by simp
  let ?payments = "(dest, total - paid - fee) # map (map_prod id unat) rs"
  let ?paid = "map (\<lambda>(a, v). small_txout (small_output a (int v))) ?payments"
  have "list_all2 (\<lambda>(a, v) t. pays_to small_lwk (AssetId 7) a v t) ?payments ?paid"
    unfolding list_all2_map2 list_all2_same
  proof (intro ballI)
    fix r assume r: "r \<in> set ?payments"
    obtain a v where av: "r = (a, v)" by (rule prod.exhaust)
    have "v < 2 ^ 64" using r enough small by (auto simp: av)
    from small_pays_to [OF this, of a]
    show "(case r of (a, v) \<Rightarrow> \<lambda>t. pays_to small_lwk (AssetId 7) a v t) (case r of (a, v) \<Rightarrow> small_txout (small_output a (int v)))"
      unfolding av case_prod_conv .
  qed
  moreover have "mset (map small_txout (ps_outputs ps)) = mset (small_txout (small_fee (int fee)) # ?paid)"
    by (simp add: outs fee change comp_def case_prod_beta map_prod_def)
  moreover have "script_is_empty (to_script_pubkey (small_txout (small_fee (int fee))))"
      "to_value (small_txout (small_fee (int fee))) = ValueExplicit (word_of_int (int fee))"
    by (simp_all add: small_txout_def small_fee_def ex_fee_def script_is_empty_def)
  ultimately have "pays_out small_lwk (AssetId 7) (word_of_int (int fee)) ?payments (map small_txout (ps_outputs ps))"
    unfolding pays_out_def by blast
  moreover have "eu_outpoint ` set ext \<subseteq> prevout_of ` set (ps_inputs ps)"
    by (auto simp: ins small_input_def prevout_of_def image_iff)
  ultimately show "\<exists>drain fee. total_in ext = drain + sum_list (map (unat \<circ> snd) rs) + unat fee
        \<and> pays_out small_lwk (AssetId 7) fee ((dest, drain) # map (map_prod id unat) rs) (map small_txout (ps_outputs ps))
        \<and> eu_outpoint ` set ext \<subseteq> prevout_of ` set (ps_inputs ps)"
    using enough fee_u64 t by (intro exI [of _ "total - paid - fee"] exI [of _ "word_of_int (int fee)"]) (simp add: paid_total_def)
qed

section \<open>A batch\<close>

text \<open>Three 2-of-3 wallets: the fee account and two customers, who move to addresses with index 5.\<close>

definition small_wollet :: "u8 \<Rightarrow> u8 list \<Rightarrow> (small_desc, string, small_desc) elements_wollet" where
  "small_wollet b seeds = \<lparr>ew_inner = (b, seeds), ew_descriptor = (b, seeds), ew_master_blinding_key = [],
     ew_network = ElementsRegtest, ew_lwk_network = LwkTestnetLiquid\<rparr>"

definition small_coin :: "address \<Rightarrow> u32 \<Rightarrow> u64 \<Rightarrow> captured_utxo" where
  "small_coin a n v = \<lparr>cu_wallet_id = WalletId [1], cu_outpoint = OutPoint (Txid 0) n,
     cu_txout = \<lparr>to_asset = AssetExplicit (AssetId 7), to_value = ValueExplicit v, to_nonce = [],
       to_script_pubkey = ad_script_pubkey a, to_witness = []\<rparr>,
     cu_secrets = \<lparr>sec_asset = AssetId 7, sec_asset_bf = 0, sec_value = v, sec_value_bf = 0\<rparr>,
     cu_chain = External, cu_wildcard_index = 0, cu_height = 1, cu_is_spent = False\<rparr>"

definition small_hop ::
    "u8 \<Rightarrow> u8 list \<Rightarrow> u32 \<Rightarrow> u64 \<Rightarrow> (captured_utxo \<times> (small_desc, string, small_desc) elements_wollet) list
     \<times> (address \<times> u64) list \<times> (nat, nat, nat) software_signer list" where
  "small_hop b seeds n v = ([(small_coin (small_address 0 (b, seeds) 0) n v, small_wollet b seeds)],
     [(small_address 0 (b, seeds) 5, v)], map ex_software (take 2 seeds @ [1, 2]))"

definition small_hops where
  "small_hops = [small_hop 98 [4, 5, 6] 2 200000, small_hop 99 [7, 8, 9] 3 300000]"

lemma small_batch_runs:
  "\<not> Option.is_none (run_batch small_libs (small_wollet 97 [1, 2, 3]) 1000 (WalletId [1]) (small_address 0 (97, [1, 2, 3]) 0)
     (small_address 0 (97, [1, 2, 3]) 6) small_hops (small_coin (small_address 0 (97, [1, 2, 3]) 0) 1 1000000)
     [ex_software 1, ex_software 2])"
  by code_simp

lemma small_receive: "address small_lwk (small_wollet b seeds) External i = Inr (small_address 0 (b, seeds) i)"
  by (simp add: address_def small_lwk_def small_wollet_def lib_err_def)

lemma small_hops_ok:
  "\<forall>(inputs, customers, signers) \<in> set small_hops. hop_ok (AssetId 7) (small_address 0 (97, [1, 2, 3]) 0) inputs customers"
  by (simp add: small_hops_def small_hop_def hop_ok_def coins_total_def paid_total_def small_coin_def cu_value_def cu_asset_def
      separate_def small_address_def script_is_empty_def)

lemma batch_pays_only_fees_witness:
  "\<exists>txs tx fees fee final.
     run_batch small_libs (small_wollet 97 [1, 2, 3]) 1000 (WalletId [1]) (small_address 0 (97, [1, 2, 3]) 0)
       (small_address 0 (97, [1, 2, 3]) 6) small_hops (small_coin (small_address 0 (97, [1, 2, 3]) 0) 1 1000000)
       [ex_software 1, ex_software 2] = Some (txs, tx)
     \<and> map fee_of txs = map Some fees \<and> fee_of tx = Some fee
     \<and> unblind_at small_lwk (small_wollet 97 [1, 2, 3]) tx (small_address 0 (97, [1, 2, 3]) 6) = Some final
     \<and> unat final + sum_list (map unat fees) + unat fee = 1000000
     \<and> length (tx_output tx) = 2"
proof -
  let ?w = "small_wollet 97 [1, 2, 3]" and ?a = "small_address 0 (97, [1, 2, 3])"
  let ?coin = "small_coin (?a 0) 1 1000000"
  obtain txs tx where run: "run_batch small_libs ?w 1000 (WalletId [1]) (?a 0) (?a 6) small_hops ?coin
      [ex_software 1, ex_software 2] = Some (txs, tx)"
    using small_batch_runs by (auto simp: Option.is_none_def)
  have libs: "sl_lwk small_libs = small_lwk" "sl_desc small_libs = small_descs" "sl_tx small_libs = small_tx"
      "sl_pset small_libs = small_psets"
    by (simp_all add: small_libs_def)
  have "\<not> script_is_empty (ad_script_pubkey (?a 6))" "cu_asset ?coin = AssetId 7" "unat (cu_value ?coin) = 1000000"
    by (simp_all add: small_address_def script_is_empty_def small_coin_def cu_asset_def cu_value_def)
  with batch_pays_only_fees [where S = small_libs, unfolded libs, OF small_local_update small_drains small_extracts
      small_receive small_receive _ small_hops_ok _ run] run
  show ?thesis by auto
qed

section \<open>Two accounts in one transaction\<close>

text \<open>
  The first hop once more: a customer's coin and the fee account's, each under its own 2-of-3
  script, signed by two members of each account. The P2WSH program of a small script is read off
  its first key.
\<close>

definition small_spk :: "small_desc \<times> u8 \<times> u32 \<Rightarrow> script" where
  "small_spk e = ad_script_pubkey (small_address (fst (snd e)) (fst e) (snd (snd e)))"

definition small_program :: "script \<Rightarrow> script" where
  "small_program ws = Script [0, 0x20, 97 + (script_bytes ws ! 2 - 1) div 3, script_bytes ws ! 2, script_bytes ws ! 3, script_bytes ws ! 4]"

definition small_pairs :: "(captured_utxo \<times> (small_desc, string, small_desc) elements_wollet) list" where
  "small_pairs = [(small_coin (small_address 0 (98, [4, 5, 6]) 0) 2 200000, small_wollet 98 [4, 5, 6]),
     (small_coin (small_address 0 (97, [1, 2, 3]) 0) 1 1000000, small_wollet 97 [1, 2, 3])]"

definition small_signers :: "(nat, nat, nat) software_signer list" where
  "small_signers = map ex_software [4, 5, 1, 2]"

definition small_built :: "(nat spend_error, blinded_pset) result" where
  "small_built = build_migration_pset small_descs small_tx (small_wollet 97 [1, 2, 3]) small_pairs
     [(small_address 0 (98, [4, 5, 6]) 5, 200000)] (small_address 0 (97, [1, 2, 3]) 0) 1000"

definition small_moved :: "pset_input list" where
  "small_moved = map (\<lambda>(u, owner). small_update (ew_descriptor owner, 0, 0) (small_input (external_utxo_of u 0))) small_pairs"

lemma small_built_inputs: "case small_built of Inr b \<Rightarrow> ps_inputs (bp_pset b) = small_moved | Inl _ \<Rightarrow> False"
  by code_simp

lemma small_extracts_witnesses: "extracts_witnesses small_psets (\<lambda>i. unflatten (ti_body i))"
  by (simp add: extracts_witnesses_def small_psets_def small_extract_def comp_def)

lemma small_unsigned: "builds_unsigned small_tx"
  by (auto simp: builds_unsigned_def small_tx_def small_finish_def small_input_def Let_def split: if_splits)

lemma small_derives: "derives_addresses small_lwk small_descs small_spk (small_wollet b seeds)"
proof -
  have "small_spk d = ad_script_pubkey a" if "owner_descriptor small_descs [((b, seeds), 0), ((b, seeds), 1)] u d"
    "address small_lwk (small_wollet b seeds) (cu_chain u) (cu_wildcard_index u) = Inr a" for u d a
    using that by (cases "cu_chain u")
      (auto simp: owner_descriptor_def small_descs_def small_spk_def address_def small_lwk_def small_wollet_def get_at_def lib_err_def)
  then show ?thesis by (auto simp: derives_addresses_def small_descs_def small_wollet_def)
qed

lemma small_own_keys:
  "own_keys (ex_software k) (small_update e inp) = map (\<lambda>(pk, (fp, path)). (pk, path)) (filter (\<lambda>(pk, (fp, path)). fp = ucast k) (small_keys e))"
  by (simp add: own_keys_def ex_software_eq small_update_def)

lemma small_input_ok:
  assumes seeds: "seeds = [k1, k2, k3]" "distinct seeds" and "pi_partial_sigs inp = []"
  shows "multisig_input small_psets 2 (signers :: ('id, 'xp, 'x) software_signer list) (small_update ((b, seeds), ch, i) inp)"
proof -
  let ?e = "((b, seeds), ch, i)"
  have "multisig_script small_psets (ex_script (map fst (small_keys ?e))) 2 (map fst (small_keys ?e))"
    by (simp add: seeds(1) multisig_script_def ex_script_def small_keys_def small_psets_def ex_pset_lib_def)
  moreover have "fst ` set (own_keys s (small_update ?e inp)) \<subseteq> set (map fst (small_keys ?e))"
    for s :: "('id, 'xp, 'x) software_signer"
    using own_key_fingerprint [of _ s "small_update ?e inp"] by (force simp: small_update_def)
  moreover have "distinct (map fst (small_keys ?e))" using seeds by (auto simp: small_keys_def)
  ultimately show ?thesis using assms(3) unfolding multisig_input_def
    by (intro conjI exI [of _ "ex_script (map fst (small_keys ?e))"] exI [of _ "map fst (small_keys ?e)"])
      (simp_all add: small_update_def)
qed

lemma small_vault:
  assumes seeds: "seeds = [k1, k2, k3]" "distinct seeds" and b: "b = 97 + (k1 - 1) div 3"
  shows "vault_descriptor small_psets small_descs (\<lambda>e inp. Inr (small_update e inp)) small_spk small_program 2 signers
    (small_wollet b seeds)"
proof -
  have "multisig_input small_psets 2 signers (small_update d inp)
      \<and> map_option small_program (pi_witness_script (small_update d inp)) = Some (small_spk d)"
    if own: "owner_descriptor small_descs [((b, seeds), 0), ((b, seeds), 1)] u d" and inp: "pi_partial_sigs inp = []" for u d inp
  proof -
    obtain ch i where d: "d = ((b, seeds), ch, i)"
      using own by (cases "cu_chain u") (auto simp: owner_descriptor_def small_descs_def get_at_def)
    have "small_program (ex_script (map fst (small_keys d))) = small_spk d"
      by (simp add: d seeds(1) b small_program_def ex_script_def small_keys_def small_spk_def small_address_def)
    then show ?thesis using small_input_ok [OF seeds inp] by (simp add: d small_update_def)
  qed
  then show ?thesis by (auto simp: vault_descriptor_def small_descs_def small_wollet_def)
qed

lemma small_keys_of:
  "small_moved = [small_update ((98, [4, 5, 6]), 0, 0) (small_input (external_utxo_of (fst (small_pairs ! 0)) 0)),
     small_update ((97, [1, 2, 3]), 0, 0) (small_input (external_utxo_of (fst (small_pairs ! 1)) 0))]"
  by (simp add: small_moved_def small_pairs_def small_wollet_def)

lemma small_able:
  assumes "ps_inputs ps = small_moved"
  shows "\<forall>sg \<in> set small_signers. signer_able small_key_lib ex_valid ps sg"
proof -
  have "signer_able small_key_lib ex_valid ps (ex_software k)" if k: "k \<in> {4, 5, 1, 2}" for k
  proof -
    have keys: "distinct (map fst (own_keys (ex_software k) inp))"
        "(pk, path) \<in> set (own_keys (ex_software k) inp) \<Longrightarrow> hd (pubkey_bytes pk) = k" if "inp \<in> set small_moved" for inp pk path
      using that k by (auto simp: small_keys_of small_own_keys small_keys_def)
    have "distinct (map fst (own_keys (ex_software k) (small_moved ! i)))
        \<and> (\<forall>(pk, path) \<in> set (own_keys (ex_software k) (small_moved ! i)). k = hd (pubkey_bytes pk))"
      if "i < length small_moved" for i using keys [OF nth_mem [OF that]] by auto
    then show ?thesis
      by (simp add: signer_able_def small_key_lib_def ex_key_lib_def small_extract_def ex_valid_def ex_software_eq assms)
  qed
  then show ?thesis by (auto simp: small_signers_def)
qed

lemma small_enough:
  "inp \<in> set small_moved \<Longrightarrow> 2 \<le> length (filter (\<lambda>sg. own_keys sg inp \<noteq> []) small_signers)"
  by (auto simp: small_keys_of small_signers_def small_own_keys small_keys_def)

lemma small_ignores: "sighash_ignores_sigs small_key_lib"
  by (simp add: sighash_ignores_sigs_def small_key_lib_def ex_key_lib_def small_extract_def without_sigs_def comp_def prevout_of_def)

lemma small_owned:
  assumes "(u, owner) \<in> set small_pairs"
  shows "owner_of small_lwk owner u \<and> derives_addresses small_lwk small_descs small_spk owner
      \<and> vault_descriptor small_psets small_descs (\<lambda>e inp. Inr (small_update e inp)) small_spk small_program 2 small_signers owner"
proof -
  have "vault_descriptor small_psets small_descs (\<lambda>e inp. Inr (small_update e inp)) small_spk small_program 2 small_signers owner"
    using assms small_vault [OF refl, of 4 5 6 98] small_vault [OF refl, of 1 2 3 97] by (auto simp: small_pairs_def)
  then show ?thesis
    using assms small_derives by (auto simp: small_pairs_def owner_of_def small_coin_def small_receive)
qed


end
