(* ===== verification/Spend_Tests.thy ===== *)
theory Spend_Tests
  imports Small_LWK Unit_Tests
begin

text \<open>
  The tests of \<open>src/spend.rs\<close> on the model, over the small libraries of \<open>Small_LWK\<close>: from the
  descriptor builder through wollet, spend construction, signing and finalisation to a transaction.
  A test is \<open>Some ()\<close> when it passes and \<open>None\<close> when an \<open>unwrap\<close> or an assertion panics.
\<close>

section \<open>The kit\<close>

definition soft :: "u8 \<Rightarrow> (nat, nat, nat) software_signer option" where
  "soft seed = unwrap (software_new small_key_lib LwkTestnetLiquid seed ElementsRegtest :: (unit, _) result)"

fun soft_signers :: "u8 list \<Rightarrow> (nat, nat, nat) software_signer list option" where
  "soft_signers [] = Some []"
| "soft_signers (seed # seeds) = do { s \<leftarrow> soft seed; ss \<leftarrow> soft_signers seeds; Some (s # ss) }"

definition spend_explicit_txout :: "script \<Rightarrow> u64 \<Rightarrow> txout" where
  "spend_explicit_txout spk v = \<lparr>to_asset = AssetExplicit (AssetId 7), to_value = ValueExplicit v, to_nonce = [],
     to_script_pubkey = spk, to_witness = []\<rparr>"

type_synonym small_wollet = "(small_desc, string, small_desc) elements_wollet"
type_synonym small_signer = "(nat, nat, nat) software_signer"

definition federation_and_wollet ::
    "u8 list \<Rightarrow> u8 \<Rightarrow> ((nat, nat) federation \<times> small_wollet \<times> small_signer list) option" where
  "federation_and_wollet seeds blinding = do {
     signers \<leftarrow> soft_signers seeds;
     builder \<leftarrow> unwrap (ct_builder_new 2 (replicate 32 blinding));
     builder \<leftarrow> add_all (map software_signer_info signers) (key_mode Ranged builder);
     desc \<leftarrow> unwrap (build ex_bitcoin ex_ct builder);
     let handle = handle_new desc (replicate 32 blinding);
     wollet \<leftarrow> unwrap (from_handle small_lwk LwkTestnetLiquid ex_ct handle ElementsRegtest);
     let fed = new_federation 2 (map software_signer_info signers) (NT_Elements IdElementsRegtest);
     Some (fed, wollet, signers)}"

definition captured_lbtc :: "wallet_id \<Rightarrow> u32 \<Rightarrow> u64 \<Rightarrow> u8 \<Rightarrow> captured_utxo" where
  "captured_lbtc wallet index v txid_seed = \<lparr>cu_wallet_id = wallet, cu_outpoint = OutPoint (Txid 0) (ucast txid_seed),
     cu_txout = spend_explicit_txout (Script []) v,
     cu_secrets = \<lparr>sec_asset = AssetId 7, sec_asset_bf = 0, sec_value = v, sec_value_bf = 0\<rparr>,
     cu_chain = External, cu_wildcard_index = index, cu_height = 1, cu_is_spent = False\<rparr>"

definition funding_utxo :: "small_wollet \<Rightarrow> u32 \<Rightarrow> u64 \<Rightarrow> u8 \<Rightarrow> captured_utxo option" where
  "funding_utxo wollet index v txid_seed = do {
     addr \<leftarrow> unwrap (address small_lwk wollet External index);
     let u = captured_lbtc (wallet_id_from_bytes (replicate 16 1)) index v txid_seed;
     Some (u\<lparr>cu_txout := spend_explicit_txout (ad_script_pubkey addr) v\<rparr>)}"

definition receive_at :: "small_wollet \<Rightarrow> u32 \<Rightarrow> address option" where
  "receive_at w i = unwrap (address small_lwk w External i)"

text \<open>What the builders add to every input of a 2-of-3 wallet.\<close>

definition enriched_2of3 :: "pset_input \<Rightarrow> bool" where
  "enriched_2of3 inp \<longleftrightarrow> pi_witness_script inp \<noteq> None \<and> length (pi_bip32_derivation inp) = 3"

definition witnesses_present :: "transaction \<Rightarrow> bool" where
  "witnesses_present tx \<longleftrightarrow> (\<forall>inp \<in> set (tx_input tx). 4 \<le> length (unflatten (ti_body inp)))"

section \<open>Migrations\<close>

definition migration_fee_account_pays_and_multi_account_signs :: "unit option" where
  "migration_fee_account_pays_and_multi_account_signs = do {
     (_, w_f, sg_f) \<leftarrow> federation_and_wollet [1, 2, 3] 0xaa;
     (_, w_c1, sg_c1) \<leftarrow> federation_and_wollet [4, 5, 6] 0xbb;
     (_, w_c2, sg_c2) \<leftarrow> federation_and_wollet [7, 8, 9] 0xcc;
     f_utxo \<leftarrow> funding_utxo w_f 0 100000 1;
     c1_utxo \<leftarrow> funding_utxo w_c1 0 200000 2;
     c2_utxo \<leftarrow> funding_utxo w_c2 0 300000 3;
     c1_dest \<leftarrow> receive_at w_c1 5;
     c2_dest \<leftarrow> receive_at w_c2 5;
     f_dest \<leftarrow> receive_at w_f 5;
     blinded \<leftarrow> unwrap (build_migration_pset small_descs small_tx w_f
       [(f_utxo, w_f), (c1_utxo, w_c1), (c2_utxo, w_c2)] [(c1_dest, 200000), (c2_dest, 300000)] f_dest 2000
       :: (nat spend_error, _) result);
     let ps = blinded_as_pset blinded;
     assert_that (length (ps_inputs ps) = 3);
     assert_that (\<forall>inp \<in> set (ps_inputs ps). enriched_2of3 inp);
     assert_that (\<exists>out \<in> set (ps_outputs ps). po_value_rangeproof out \<noteq> None);
     tx \<leftarrow> unwrap_lib (small_extract ps);
     at_c1 \<leftarrow> unblind_at small_lwk w_c1 tx c1_dest;
     assert_that (at_c1 = 200000);
     at_c2 \<leftarrow> unblind_at small_lwk w_c2 tx c2_dest;
     assert_that (at_c2 = 300000);
     fee_change \<leftarrow> unblind_at small_lwk w_f tx f_dest;
     fee_sat \<leftarrow> fee_of tx;
     assert_that (fee_sat > 0);
     assert_that (fee_change + fee_sat = 100000);
     ps \<leftarrow> sign_each small_key_lib [sg_f ! 0, sg_f ! 1, sg_c1 ! 0, sg_c1 ! 1, sg_c2 ! 0, sg_c2 ! 1] (blinded_into_pset blinded);
     (_, ps) \<leftarrow> unwrap_act (finalize_p2wsh_pset small_psets ps :: (nat pset_error, unit) result \<times> pset);
     final_tx \<leftarrow> unwrap_lib (small_extract ps);
     assert_that (length (tx_input final_tx) = 3);
     assert_that (witnesses_present final_tx)}"

lemma migration_test_passes: "migration_fee_account_pays_and_multi_account_signs = Some ()"
  by code_simp

definition initial_fee :: u64 where "initial_fee = 1000000"
definition c1_bal :: u64 where "c1_bal = 200000"
definition c2_bal :: u64 where "c2_bal = 300000"
definition rate_kvb :: int where "rate_kvb = 1000"

definition batched_migration_chains_fee_change_offline :: "unit option" where
  "batched_migration_chains_fee_change_offline = do {
     (_, w_f, sg_f) \<leftarrow> federation_and_wollet [1, 2, 3] 0xaa;
     (_, w_c1, sg_c1) \<leftarrow> federation_and_wollet [4, 5, 6] 0xbb;
     (_, w_c2, sg_c2) \<leftarrow> federation_and_wollet [7, 8, 9] 0xcc;
     f_utxo \<leftarrow> funding_utxo w_f 0 initial_fee 1;
     c1_utxo \<leftarrow> funding_utxo w_c1 0 c1_bal 2;
     c2_utxo \<leftarrow> funding_utxo w_c2 0 c2_bal 3;
     c1_dest \<leftarrow> receive_at w_c1 5;
     c2_dest \<leftarrow> receive_at w_c2 5;
     f_old \<leftarrow> receive_at w_f 0;
     f_new \<leftarrow> receive_at w_f 6;
     let wallet_id = wallet_id_from_bytes (replicate 16 1);
     tx0 \<leftarrow> run_migration small_libs w_f rate_kvb [(c1_utxo, w_c1), (f_utxo, w_f)] [(c1_dest, c1_bal)] f_old
       [sg_c1 ! 0, sg_c1 ! 1, sg_f ! 0, sg_f ! 1];
     at_c1 \<leftarrow> unblind_at small_lwk w_c1 tx0 c1_dest;
     assert_that (at_c1 = c1_bal);
     fee0 \<leftarrow> fee_of tx0;
     change0 \<leftarrow> chain_change small_libs w_f wallet_id f_old tx0;
     assert_that (cu_value change0 = initial_fee - fee0);
     tx1 \<leftarrow> run_migration small_libs w_f rate_kvb [(c2_utxo, w_c2), (change0, w_f)] [(c2_dest, c2_bal)] f_old
       [sg_c2 ! 0, sg_c2 ! 1, sg_f ! 0, sg_f ! 1];
     at_c2 \<leftarrow> unblind_at small_lwk w_c2 tx1 c2_dest;
     assert_that (at_c2 = c2_bal);
     fee1 \<leftarrow> fee_of tx1;
     change1 \<leftarrow> chain_change small_libs w_f wallet_id f_old tx1;
     assert_that (cu_value change1 = initial_fee - fee0 - fee1);
     tx2 \<leftarrow> run_migration small_libs w_f rate_kvb [(change1, w_f)] [] f_new [sg_f ! 0, sg_f ! 1];
     assert_that (length (tx_output tx2) = 2);
     fee2 \<leftarrow> fee_of tx2;
     final_value \<leftarrow> unblind_at small_lwk w_f tx2 f_new;
     assert_that (final_value + fee0 + fee1 + fee2 = initial_fee)}"

lemma batched_migration_test_passes: "batched_migration_chains_fee_change_offline = Some ()"
  by code_simp

section \<open>Spends\<close>

definition assembles_blinds_and_enriches :: "unit option" where
  "assembles_blinds_and_enriches = do {
     (_, wollet, _) \<leftarrow> federation_and_wollet [1, 2, 3] 0xaa;
     (_, w2, _) \<leftarrow> federation_and_wollet [10, 11, 12] 0xcc;
     recipient \<leftarrow> receive_at w2 0;
     utxo \<leftarrow> funding_utxo wollet 0 100000 1;
     blinded \<leftarrow> unwrap (build_spend_pset small_descs small_tx wollet [utxo] recipient 40000 100
       :: (nat spend_error, _) result);
     let ps = blinded_as_pset blinded;
     assert_that (length (ps_inputs ps) = 1);
     assert_that (\<forall>inp \<in> set (ps_inputs ps). enriched_2of3 inp);
     assert_that (3 \<le> length (ps_outputs ps));
     assert_that (\<exists>out \<in> set (ps_outputs ps). po_value_rangeproof out \<noteq> None)}"

definition full_round_trip_sign_and_finalize :: "unit option" where
  "full_round_trip_sign_and_finalize = do {
     (fed, wollet, signers) \<leftarrow> federation_and_wollet [1, 2, 3] 0xaa;
     (_, w2, _) \<leftarrow> federation_and_wollet [7, 8, 9] 0xdd;
     recipient \<leftarrow> receive_at w2 0;
     utxo \<leftarrow> funding_utxo wollet 0 200000 1;
     blinded \<leftarrow> unwrap (build_spend_pset small_descs small_tx wollet [utxo] recipient 50000 100
       :: (nat spend_error, _) result);
     coordinator \<leftarrow> unwrap (coordinator_new fed blinded);
     (signed0, coordinator) \<leftarrow> unwrap_act (sign_with (sign_pset small_key_lib (signers ! 0)) (ss_id (signers ! 0)) coordinator);
     assert_that (1 \<le> signed0);
     (_, coordinator) \<leftarrow> unwrap_act (sign_with (sign_pset small_key_lib (signers ! 1)) (ss_id (signers ! 1)) coordinator);
     complete \<leftarrow> unwrap (is_complete coordinator :: (unit, _) result);
     assert_that complete;
     finalized \<leftarrow> unwrap (finalize small_psets coordinator);
     let tx = finalized_transaction finalized;
     assert_that (length (tx_input tx) = 1);
     assert_that (4 \<le> length (unflatten (ti_body (tx_input tx ! 0))));
     assert_that (finalized_serialize_hex (sl_elements small_libs) finalized \<noteq> [])}"

definition unblind_fails_for_foreign_blinded_output_at_our_script :: "unit option" where
  "unblind_fails_for_foreign_blinded_output_at_our_script = do {
     (_, wollet_a, _) \<leftarrow> federation_and_wollet [1, 2, 3] 0xaa;
     (_, wollet_b, _) \<leftarrow> federation_and_wollet [7, 8, 9] 0xdd;
     recipient_b \<leftarrow> receive_at wollet_b 0;
     utxo \<leftarrow> funding_utxo wollet_a 0 200000 1;
     blinded \<leftarrow> unwrap (build_spend_pset small_descs small_tx wollet_a [utxo] recipient_b 50000 2000
       :: (nat spend_error, _) result);
     tx \<leftarrow> unwrap_lib (small_extract (blinded_as_pset blinded));
     foreign \<leftarrow> find (\<lambda>t. case to_value t of ValueConfidential _ \<Rightarrow> True | _ \<Rightarrow> False) (tx_output tx);
     own \<leftarrow> receive_at wollet_a 0;
     assert_that (isl (unblind small_lwk wollet_a (foreign\<lparr>to_script_pubkey := ad_script_pubkey own\<rparr>)))}"

definition insufficient_funds_errors :: "unit option" where
  "insufficient_funds_errors = do {
     (_, wollet, _) \<leftarrow> federation_and_wollet [1, 2, 3] 0xaa;
     (_, w2, _) \<leftarrow> federation_and_wollet [7, 8, 9] 0xdd;
     recipient \<leftarrow> receive_at w2 0;
     utxo \<leftarrow> funding_utxo wollet 0 10000 1;
     err \<leftarrow> unwrap_err (build_spend_pset small_descs small_tx wollet [utxo] recipient 50000 100
       :: (nat spend_error, _) result);
     assert_that (case err of SBuild _ \<Rightarrow> True | _ \<Rightarrow> False)}"

lemma spend_tests_pass:
  "assembles_blinds_and_enriches = Some ()"
  "full_round_trip_sign_and_finalize = Some ()"
  "unblind_fails_for_foreign_blinded_output_at_our_script = Some ()"
  "insufficient_funds_errors = Some ()"
  by code_simp+

end
