(* ===== verification/Rpc.thy ===== *)
theory Rpc
  imports EV_Prelude
begin

text \<open>
  \<open>src/rpc.rs\<close>: the binding to the daemon's JSON-RPC interface. JSON values are a datatype, a
  64-bit float a type variable \<open>'n\<close>. The transport of \<open>bitcoincore-rpc\<close>, which may change the state
  \<open>'s\<close> of the daemon and may fail with an error \<open>'e\<close>, and the decoders \<open>serde\<close> derives for the
  response structs are parameters in \<open>rpc_lib\<close>; \<open>'c\<close> is a client bound to a URL.
\<close>

datatype 'n json =
    JNull | JBool bool | JInt int | JFloat 'n | JString string
  | JArray "'n json list" | JObject "(string \<times> 'n json) list"

datatype 'e elements_rpc_error = RpcError 'e | BadResponse string

record elements_rpc =
  rpc_base_url :: string
  rpc_user :: string
  rpc_password :: string

section \<open>Responses\<close>

record descriptor_info =
  di_descriptor :: string
  di_checksum :: string
  di_is_range :: bool
  di_is_solvable :: bool
  di_has_private_keys :: bool

record import_descriptor_request =
  ir_descriptor :: string
  ir_active :: bool
  ir_internal :: bool

record import_descriptor_error =
  ie_code :: "32 word"
  ie_message :: string

record import_descriptor_result =
  id_success :: bool
  id_error :: "import_descriptor_error option"

record 'n elements_balances =
  eb_trusted :: 'n
  eb_untrusted_pending :: 'n
  eb_immature :: 'n

record 'n elements_utxo =
  un_txid :: string
  un_vout :: u32
  un_address :: "string option"
  un_amount :: "'n option"
  un_asset :: "string option"
  un_confirmations :: u32
  un_spendable :: bool

record 'n wallet_transaction =
  wt_txid :: string
  wt_address :: "string option"
  wt_category :: string
  wt_amount :: "'n option"
  wt_confirmations :: "64 word option"
  wt_vout :: "u32 option"

record 'n funded_psbt =
  fu_psbt :: string
  fu_fee :: 'n
  fu_changepos :: "32 word"

record ('n, 'c, 'e, 's) rpc_lib =
  rl_client :: "string \<Rightarrow> string \<Rightarrow> string \<Rightarrow> 'e + 'c"
  rl_call :: "'c \<Rightarrow> string \<Rightarrow> 'n json list \<Rightarrow> 's \<Rightarrow> ('e + 'n json) \<times> 's"
  rl_get_block_count :: "'c \<Rightarrow> 's \<Rightarrow> ('e + u64) \<times> 's"
  rl_string :: "'n json \<Rightarrow> 'e + string"
  rl_strings :: "'n json \<Rightarrow> 'e + string list"
  rl_descriptor_info :: "'n json \<Rightarrow> 'e + descriptor_info"
  rl_import_results :: "'n json \<Rightarrow> 'e + import_descriptor_result list"
  rl_utxos :: "'n json \<Rightarrow> 'e + 'n elements_utxo list"
  rl_transactions :: "'n json \<Rightarrow> 'e + 'n wallet_transaction list"
  rl_funded_psbt :: "'n json \<Rightarrow> 'e + 'n funded_psbt"
  rl_f64_of_int :: "int \<Rightarrow> 'n"
  rl_json_of_f64 :: "'n \<Rightarrow> 'n json"
  rl_f64_zero :: 'n

section \<open>Access to JSON values\<close>

text \<open>\<open>Value::get\<close> with a key, \<open>as_array\<close>, \<open>as_str\<close>, \<open>as_f64\<close>, and indexing, which gives null.\<close>

fun json_get :: "'n json \<Rightarrow> string \<Rightarrow> 'n json option" where
  "json_get (JObject kvs) k = map_of kvs k"
| "json_get _ k = None"

fun json_as_array :: "'n json \<Rightarrow> 'n json list option" where
  "json_as_array (JArray vs) = Some vs"
| "json_as_array _ = None"

fun json_as_str :: "'n json \<Rightarrow> string option" where
  "json_as_str (JString s) = Some s"
| "json_as_str _ = None"

fun json_as_f64 :: "('n, 'c, 'e, 's) rpc_lib \<Rightarrow> 'n json \<Rightarrow> 'n option" where
  "json_as_f64 L (JFloat x) = Some x"
| "json_as_f64 L (JInt i) = Some (rl_f64_of_int L i)"
| "json_as_f64 L _ = None"

definition json_index :: "'n json \<Rightarrow> string \<Rightarrow> 'n json" where
  "json_index v k = (case json_get v k of Some w \<Rightarrow> w | None \<Rightarrow> JNull)"

section \<open>Clients and calls\<close>

definition elements_rpc_new :: "string \<Rightarrow> string \<Rightarrow> string \<Rightarrow> elements_rpc" where
  "elements_rpc_new base_url user password =
     \<lparr>rpc_base_url = base_url, rpc_user = user, rpc_password = password\<rparr>"

definition of_rpc :: "('e + 'a) \<Rightarrow> ('e elements_rpc_error, 'a) result" where
  "of_rpc r = (case r of Inl e \<Rightarrow> Inl (Err (RpcError e)) | Inr a \<Rightarrow> Inr a)"

definition client_for_wallet ::
    "('n, 'c, 'e, 's) rpc_lib \<Rightarrow> elements_rpc \<Rightarrow> string \<Rightarrow> ('s, 'e elements_rpc_error, 'c) act" where
  "client_for_wallet L rpc wallet = of_result (of_rpc
     (rl_client L (rpc_base_url rpc @ ''/wallet/'' @ wallet) (rpc_user rpc) (rpc_password rpc)))"

definition base_client ::
    "('n, 'c, 'e, 's) rpc_lib \<Rightarrow> elements_rpc \<Rightarrow> ('s, 'e elements_rpc_error, 'c) act" where
  "base_client L rpc = of_result (of_rpc (rl_client L (rpc_base_url rpc) (rpc_user rpc) (rpc_password rpc)))"

text \<open>\<open>RpcApi::call\<close>: the request, then the decoding of its result.\<close>

definition rpc_call ::
    "('n, 'c, 'e, 's) rpc_lib \<Rightarrow> ('n json \<Rightarrow> 'e + 'a) \<Rightarrow> 'c \<Rightarrow> string \<Rightarrow> 'n json list
     \<Rightarrow> ('s, 'e elements_rpc_error, 'a) act" where
  "rpc_call L decode client method args s =
     (case rl_call L client method args s of
        (Inl e, s') \<Rightarrow> (Inl (Err (RpcError e)), s')
      | (Inr v, s') \<Rightarrow> (of_rpc (decode v), s'))"

text \<open>\<open>ok_or_else(|| BadResponse(..))\<close>.\<close>

definition ok_or_bad :: "string \<Rightarrow> 'a option \<Rightarrow> ('s, 'e elements_rpc_error, 'a) act" where
  "ok_or_bad m a = of_result (case a of None \<Rightarrow> Inl (Err (BadResponse m)) | Some x \<Rightarrow> Inr x)"

section \<open>Wallets of the daemon\<close>

definition get_block_count ::
    "('n, 'c, 'e, 's) rpc_lib \<Rightarrow> elements_rpc \<Rightarrow> ('s, 'e elements_rpc_error, u64) act" where
  "get_block_count L rpc = bindS (base_client L rpc) (\<lambda>client s.
     case rl_get_block_count L client s of (r, s') \<Rightarrow> (of_rpc r, s'))"

definition create_wallet ::
    "('n, 'c, 'e, 's) rpc_lib \<Rightarrow> elements_rpc \<Rightarrow> string \<Rightarrow> ('s, 'e elements_rpc_error, unit) act" where
  "create_wallet L rpc name = bindS (base_client L rpc) (\<lambda>client.
     bindS (rpc_call L Inr client ''createwallet''
       [JString name, JBool True, JBool True, JString '''', JBool False, JBool True]) (\<lambda>_. ret ()))"

definition load_wallet ::
    "('n, 'c, 'e, 's) rpc_lib \<Rightarrow> elements_rpc \<Rightarrow> string \<Rightarrow> ('s, 'e elements_rpc_error, unit) act" where
  "load_wallet L rpc name = bindS (base_client L rpc) (\<lambda>client.
     bindS (rpc_call L Inr client ''loadwallet'' [JString name]) (\<lambda>_. ret ()))"

definition list_wallets ::
    "('n, 'c, 'e, 's) rpc_lib \<Rightarrow> elements_rpc \<Rightarrow> ('s, 'e elements_rpc_error, string list) act" where
  "list_wallets L rpc = bindS (base_client L rpc) (\<lambda>client.
     rpc_call L (rl_strings L) client ''listwallets'' [])"

definition wallet_names :: "'n json \<Rightarrow> string list" where
  "wallet_names raw =
     (case Option.bind (json_get raw ''wallets'') json_as_array of
        None \<Rightarrow> []
      | Some arr \<Rightarrow> List.map_filter (\<lambda>v. Option.bind (json_get v ''name'') json_as_str) arr)"

definition list_wallet_dir ::
    "('n, 'c, 'e, 's) rpc_lib \<Rightarrow> elements_rpc \<Rightarrow> ('s, 'e elements_rpc_error, string list) act" where
  "list_wallet_dir L rpc = bindS (base_client L rpc) (\<lambda>client.
     bindS (rpc_call L Inr client ''listwalletdir'' []) (\<lambda>raw. ret (wallet_names raw)))"

definition ensure_wallet_loaded ::
    "('n, 'c, 'e, 's) rpc_lib \<Rightarrow> elements_rpc \<Rightarrow> string \<Rightarrow> ('s, 'e elements_rpc_error, unit) act" where
  "ensure_wallet_loaded L rpc name =
     bindS (list_wallets L rpc) (\<lambda>loaded.
     if list_ex (\<lambda>w. w = name) loaded then ret ()
     else bindS (list_wallet_dir L rpc) (\<lambda>on_disk.
       if list_ex (\<lambda>w. w = name) on_disk then load_wallet L rpc name
       else create_wallet L rpc name))"

section \<open>Descriptors and keys\<close>

definition get_descriptor_info ::
    "('n, 'c, 'e, 's) rpc_lib \<Rightarrow> elements_rpc \<Rightarrow> string \<Rightarrow> ('s, 'e elements_rpc_error, descriptor_info) act" where
  "get_descriptor_info L rpc descriptor = bindS (base_client L rpc) (\<lambda>client.
     rpc_call L (rl_descriptor_info L) client ''getdescriptorinfo'' [JString descriptor])"

definition import_request_json :: "import_descriptor_request \<Rightarrow> 'n json" where
  "import_request_json d = JObject
     [(''desc'', JString (ir_descriptor d)), (''timestamp'', JString ''now''),
      (''active'', JBool (ir_active d)), (''internal'', JBool (ir_internal d))]"

definition import_descriptors ::
    "('n, 'c, 'e, 's) rpc_lib \<Rightarrow> elements_rpc \<Rightarrow> string \<Rightarrow> import_descriptor_request list
     \<Rightarrow> ('s, 'e elements_rpc_error, import_descriptor_result list) act" where
  "import_descriptors L rpc wallet descriptors = bindS (client_for_wallet L rpc wallet) (\<lambda>client.
     rpc_call L (rl_import_results L) client ''importdescriptors''
       [JArray (map import_request_json descriptors)])"

definition import_blinding_key ::
    "('n, 'c, 'e, 's) rpc_lib \<Rightarrow> elements_rpc \<Rightarrow> string \<Rightarrow> string \<Rightarrow> string
     \<Rightarrow> ('s, 'e elements_rpc_error, unit) act" where
  "import_blinding_key L rpc wallet addr blinding_key_hex = bindS (client_for_wallet L rpc wallet) (\<lambda>client.
     bindS (rpc_call L Inr client ''importblindingkey'' [JString addr, JString blinding_key_hex]) (\<lambda>_. ret ()))"

definition dump_blinding_key ::
    "('n, 'c, 'e, 's) rpc_lib \<Rightarrow> elements_rpc \<Rightarrow> string \<Rightarrow> string \<Rightarrow> ('s, 'e elements_rpc_error, string) act" where
  "dump_blinding_key L rpc wallet addr = bindS (client_for_wallet L rpc wallet) (\<lambda>client.
     rpc_call L (rl_string L) client ''dumpblindingkey'' [JString addr])"

section \<open>Balances and coins\<close>

definition extract_btc_balance :: "('n, 'c, 'e, 's) rpc_lib \<Rightarrow> 'n json option \<Rightarrow> 'n" where
  "extract_btc_balance L v =
     (case Option.bind v (\<lambda>obj. Option.bind (json_get obj ''bitcoin'') (json_as_f64 L)) of
        Some x \<Rightarrow> x | None \<Rightarrow> rl_f64_zero L)"

text \<open>The message of \<open>get_balances\<close> quotes the field name with apostrophes, character 39.\<close>

definition missing_mine :: string where
  "missing_mine = ''getbalances missing '' @ [CHR 0x27] @ ''mine'' @ [CHR 0x27] @ '' field''"

definition get_balances ::
    "('n, 'c, 'e, 's) rpc_lib \<Rightarrow> elements_rpc \<Rightarrow> string \<Rightarrow> ('s, 'e elements_rpc_error, 'n elements_balances) act" where
  "get_balances L rpc wallet = bindS (client_for_wallet L rpc wallet) (\<lambda>client.
     bindS (rpc_call L Inr client ''getbalances'' []) (\<lambda>raw.
     bindS (ok_or_bad missing_mine (json_get raw ''mine'')) (\<lambda>mine.
     ret \<lparr>eb_trusted = extract_btc_balance L (json_get mine ''trusted''),
          eb_untrusted_pending = extract_btc_balance L (json_get mine ''untrusted_pending''),
          eb_immature = extract_btc_balance L (json_get mine ''immature'')\<rparr>)))"

definition rpc_list_unspent ::
    "('n, 'c, 'e, 's) rpc_lib \<Rightarrow> elements_rpc \<Rightarrow> string \<Rightarrow> ('s, 'e elements_rpc_error, 'n elements_utxo list) act" where
  "rpc_list_unspent L rpc wallet = bindS (client_for_wallet L rpc wallet) (\<lambda>client.
     rpc_call L (rl_utxos L) client ''listunspent'' [JInt 0, JInt 9999999])"

definition list_transactions ::
    "('n, 'c, 'e, 's) rpc_lib \<Rightarrow> elements_rpc \<Rightarrow> string \<Rightarrow> ('s, 'e elements_rpc_error, 'n wallet_transaction list) act" where
  "list_transactions L rpc wallet = bindS (client_for_wallet L rpc wallet) (\<lambda>client.
     rpc_call L (rl_transactions L) client ''listtransactions'' [JString ''*'', JInt 9999, JInt 0, JBool True])"

definition get_wallet_transaction_hex ::
    "('n, 'c, 'e, 's) rpc_lib \<Rightarrow> elements_rpc \<Rightarrow> string \<Rightarrow> string \<Rightarrow> ('s, 'e elements_rpc_error, string) act" where
  "get_wallet_transaction_hex L rpc wallet tid = bindS (client_for_wallet L rpc wallet) (\<lambda>client.
     bindS (rpc_call L Inr client ''gettransaction'' [JString tid]) (\<lambda>r.
     ok_or_bad ''gettransaction returned no hex'' (json_as_str (json_index r ''hex''))))"

section \<open>PSETs made by the daemon\<close>

definition wallet_create_funded_psbt ::
    "('n, 'c, 'e, 's) rpc_lib \<Rightarrow> elements_rpc \<Rightarrow> string \<Rightarrow> 'n json list \<Rightarrow> 'n
     \<Rightarrow> ('s, 'e elements_rpc_error, 'n funded_psbt) act" where
  "wallet_create_funded_psbt L rpc wallet outputs fee_rate = bindS (client_for_wallet L rpc wallet) (\<lambda>client.
     rpc_call L (rl_funded_psbt L) client ''walletcreatefundedpsbt''
       [JArray [], JArray outputs, JInt 0, JObject [(''feeRate'', rl_json_of_f64 L fee_rate)], JBool True])"

text \<open>\<open>u32::try_from(outputs.len()).unwrap_or(u32::MAX)\<close>.\<close>

definition output_indices :: "nat \<Rightarrow> nat list" where
  "output_indices n = [0 ..< (if fits_u32 n then n else 2 ^ 32 - 1)]"

definition wallet_create_funded_psbt_drain ::
    "('n, 'c, 'e, 's) rpc_lib \<Rightarrow> elements_rpc \<Rightarrow> string \<Rightarrow> 'n json list \<Rightarrow> 'n
     \<Rightarrow> ('s, 'e elements_rpc_error, 'n funded_psbt) act" where
  "wallet_create_funded_psbt_drain L rpc wallet outputs fee_rate = bindS (client_for_wallet L rpc wallet) (\<lambda>client.
     rpc_call L (rl_funded_psbt L) client ''walletcreatefundedpsbt''
       [JArray [], JArray outputs, JInt 0,
        JObject [(''feeRate'', rl_json_of_f64 L fee_rate),
                 (''subtractFeeFromOutputs'', JArray (map (\<lambda>i. JInt (int i)) (output_indices (length outputs))))],
        JBool True])"

definition wallet_create_funded_psbt_with_inputs ::
    "('n, 'c, 'e, 's) rpc_lib \<Rightarrow> elements_rpc \<Rightarrow> string \<Rightarrow> 'n json list \<Rightarrow> 'n json list \<Rightarrow> nat \<Rightarrow> 'n
     \<Rightarrow> ('s, 'e elements_rpc_error, 'n funded_psbt) act" where
  "wallet_create_funded_psbt_with_inputs L rpc wallet inputs outputs fee_index fee_rate =
     bindS (client_for_wallet L rpc wallet) (\<lambda>client.
     rpc_call L (rl_funded_psbt L) client ''walletcreatefundedpsbt''
       [JArray inputs, JArray outputs, JInt 0,
        JObject [(''feeRate'', rl_json_of_f64 L fee_rate),
                 (''subtractFeeFromOutputs'', JArray [JInt (int fee_index)]),
                 (''add_inputs'', JBool False)],
        JBool True])"

definition create_psbt ::
    "('n, 'c, 'e, 's) rpc_lib \<Rightarrow> elements_rpc \<Rightarrow> 'n json list \<Rightarrow> 'n json list
     \<Rightarrow> ('s, 'e elements_rpc_error, string) act" where
  "create_psbt L rpc inputs outputs = bindS (base_client L rpc) (\<lambda>client.
     rpc_call L (rl_string L) client ''createpsbt'' [JArray inputs, JArray outputs])"

definition wallet_update_psbt ::
    "('n, 'c, 'e, 's) rpc_lib \<Rightarrow> elements_rpc \<Rightarrow> string \<Rightarrow> string \<Rightarrow> ('s, 'e elements_rpc_error, string) act" where
  "wallet_update_psbt L rpc wallet psbt_base64 = bindS (client_for_wallet L rpc wallet) (\<lambda>client.
     bindS (rpc_call L Inr client ''walletprocesspsbt''
       [JString psbt_base64, JBool False, JString ''ALL'', JBool True]) (\<lambda>r.
     ok_or_bad ''walletprocesspsbt returned no psbt'' (json_as_str (json_index r ''psbt''))))"

definition send_raw_transaction ::
    "('n, 'c, 'e, 's) rpc_lib \<Rightarrow> elements_rpc \<Rightarrow> string \<Rightarrow> ('s, 'e elements_rpc_error, string) act" where
  "send_raw_transaction L rpc hex = bindS (base_client L rpc) (\<lambda>client.
     bindS (rpc_call L Inr client ''sendrawtransaction'' [JString hex]) (\<lambda>tid.
     ok_or_bad ''sendrawtransaction returned non-string'' (json_as_str tid)))"

section \<open>A daemon that keeps wallets\<close>

text \<open>
  What the daemon documents of its wallet calls, each law about a call that was answered:
  \<open>listwallets\<close> names the loaded wallets, \<open>listwalletdir\<close> those of its wallet directory (\<open>on_disk\<close>),
  \<open>loadwallet\<close> loads and \<open>createwallet\<close> creates and loads the one it is given. The listings change
  nothing. Any call may be refused, and nothing is said of what a refused \<open>loadwallet\<close> or
  \<open>createwallet\<close> leaves, nor of where a wallet is created: a name that is a path need not be in the
  wallet directory. \<open>loaded\<close> and \<open>on_disk\<close> read the daemon's state.
\<close>

definition create_args :: "string \<Rightarrow> 'n json list" where
  "create_args name = [JString name, JBool True, JBool True, JString [], JBool False, JBool True]"

text \<open>An object with an array \<open>wallets\<close> of objects with a \<open>name\<close>, whatever else it has.\<close>

definition dir_listing :: "'n json \<Rightarrow> string list \<Rightarrow> bool" where
  "dir_listing v ws \<longleftrightarrow> (\<exists>arr. json_get v ''wallets'' = Some (JArray arr)
     \<and> map (\<lambda>w. json_get w ''name'') arr = map (\<lambda>n. Some (JString n)) ws)"

definition wallet_daemon ::
    "('n, 'c, 'e, 's) rpc_lib \<Rightarrow> 'c \<Rightarrow> ('s \<Rightarrow> string set) \<Rightarrow> ('s \<Rightarrow> string set) \<Rightarrow> bool" where
  "wallet_daemon L c loaded on_disk \<longleftrightarrow>
      (\<forall>s r s'. rl_call L c ''listwallets'' [] s = (r, s') \<longrightarrow> loaded s' = loaded s \<and> on_disk s' = on_disk s)
      \<and> (\<forall>s r s'. rl_call L c ''listwalletdir'' [] s = (r, s') \<longrightarrow> loaded s' = loaded s \<and> on_disk s' = on_disk s)
      \<and> (\<forall>s v s'. rl_call L c ''listwallets'' [] s = (Inr v, s') \<longrightarrow> (\<exists>ws. rl_strings L v = Inr ws \<and> set ws = loaded s))
      \<and> (\<forall>s v s'. rl_call L c ''listwalletdir'' [] s = (Inr v, s') \<longrightarrow> (\<exists>ws. dir_listing v ws \<and> set ws = on_disk s))
      \<and> (\<forall>s v s' name. rl_call L c ''loadwallet'' [JString name] s = (Inr v, s')
         \<longrightarrow> name \<in> on_disk s - loaded s \<longrightarrow> loaded s' = insert name (loaded s) \<and> on_disk s' = on_disk s)
      \<and> (\<forall>s v s' name. rl_call L c ''createwallet'' (create_args name) s = (Inr v, s')
         \<longrightarrow> name \<notin> loaded s \<longrightarrow> loaded s' = insert name (loaded s))"

lemma wallet_daemonD:
  assumes "wallet_daemon L c loaded on_disk"
  shows "rl_call L c ''listwallets'' [] s = (r, s') \<Longrightarrow> loaded s' = loaded s \<and> on_disk s' = on_disk s"
    and "rl_call L c ''listwalletdir'' [] s = (r, s') \<Longrightarrow> loaded s' = loaded s \<and> on_disk s' = on_disk s"
    and "rl_call L c ''listwallets'' [] s = (Inr v, s') \<Longrightarrow> \<exists>ws. rl_strings L v = Inr ws \<and> set ws = loaded s"
    and "rl_call L c ''listwalletdir'' [] s = (Inr v, s') \<Longrightarrow> \<exists>ws. dir_listing v ws \<and> set ws = on_disk s"
    and "rl_call L c ''loadwallet'' [JString name] s = (Inr v, s') \<Longrightarrow> name \<in> on_disk s \<Longrightarrow> name \<notin> loaded s
      \<Longrightarrow> loaded s' = insert name (loaded s) \<and> on_disk s' = on_disk s"
    and "rl_call L c ''createwallet'' (create_args name) s = (Inr v, s') \<Longrightarrow> name \<notin> loaded s
      \<Longrightarrow> loaded s' = insert name (loaded s)"
  using assms unfolding wallet_daemon_def by (elim conjE; simp only: Diff_iff simp_thms; fail)+

lemma dir_listing_names: "dir_listing v ws \<Longrightarrow> wallet_names v = ws"
proof -
  have "List.map_filter (\<lambda>v. Option.bind (json_get v ''name'') json_as_str) arr = ws"
    if "map (\<lambda>w. json_get w ''name'') arr = map (\<lambda>n. Some (JString n)) ws" for arr :: "'a json list"
    using that by (induction arr arbitrary: ws) (auto simp: List.map_filter_simps Cons_eq_map_conv)
  then show "dir_listing v ws \<Longrightarrow> wallet_names v = ws" by (auto simp: dir_listing_def wallet_names_def)
qed

definition ensure_methods :: "string set" where
  "ensure_methods = {''listwallets'', ''listwalletdir'', ''loadwallet'', ''createwallet''}"

text \<open>A request the daemon refused: the only source of errors once there is a client.\<close>

definition refused :: "('n, 'c, 'e, 's) rpc_lib \<Rightarrow> 'c \<Rightarrow> string set \<Rightarrow> 'e elements_rpc_error fault \<Rightarrow> bool" where
  "refused L c methods x \<longleftrightarrow> (\<exists>e method args t. x = Err (RpcError e) \<and> method \<in> methods
     \<and> fst (rl_call L c method args t) = Inl e)"

text \<open>What each request does to such a daemon.\<close>

lemma daemon_list_wallets:
  assumes "base_client L rpc = ret c" and "wallet_daemon L c loaded on_disk" and "list_wallets L rpc s = (r, s')"
  shows "loaded s' = loaded s \<and> on_disk s' = on_disk s
    \<and> (case r of Inl x \<Rightarrow> refused L c {''listwallets''} x | Inr ws \<Rightarrow> set ws = loaded s)"
proof -
  obtain a t where call: "rl_call L c ''listwallets'' [] s = (a, t)" by (rule prod.exhaust)
  note wallet_daemonD(1) [OF assms(2) call]
  moreover have "\<exists>ws. rl_strings L v = Inr ws \<and> set ws = loaded s" if "a = Inr v" for v
    using wallet_daemonD(3) [OF assms(2)] call that by blast
  moreover have "refused L c {''listwallets''} (Err (RpcError e))" if "a = Inl e" for e
    using call that unfolding refused_def by (metis fst_conv singletonI)
  ultimately show ?thesis
    using assms(3) call by (cases a) (auto simp: list_wallets_def assms(1) rpc_call_def of_rpc_def)
qed

lemma daemon_list_wallet_dir:
  assumes "base_client L rpc = ret c" and "wallet_daemon L c loaded on_disk" and "list_wallet_dir L rpc s = (r, s')"
  shows "loaded s' = loaded s \<and> on_disk s' = on_disk s
    \<and> (case r of Inl x \<Rightarrow> refused L c {''listwalletdir''} x | Inr ws \<Rightarrow> set ws = on_disk s)"
proof -
  obtain a t where call: "rl_call L c ''listwalletdir'' [] s = (a, t)" by (rule prod.exhaust)
  note wallet_daemonD(2) [OF assms(2) call]
  moreover have "set (wallet_names v) = on_disk s" if "a = Inr v" for v
    using wallet_daemonD(4) [OF assms(2)] call that dir_listing_names by blast
  moreover have "refused L c {''listwalletdir''} (Err (RpcError e))" if "a = Inl e" for e
    using call that unfolding refused_def by (metis fst_conv singletonI)
  ultimately show ?thesis
    using assms(3) call by (cases a) (auto simp: list_wallet_dir_def assms(1) rpc_call_def of_rpc_def bindS_def)
qed

lemma daemon_load_wallet:
  assumes "base_client L rpc = ret c" and "wallet_daemon L c loaded on_disk" and "load_wallet L rpc name s = (r, s')"
    and "name \<in> on_disk s" "name \<notin> loaded s"
  shows "case r of Inl x \<Rightarrow> refused L c {''loadwallet''} x
    | Inr _ \<Rightarrow> loaded s' = insert name (loaded s) \<and> on_disk s' = on_disk s"
proof -
  obtain a t where call: "rl_call L c ''loadwallet'' [JString name] s = (a, t)" by (rule prod.exhaust)
  have "loaded t = insert name (loaded s) \<and> on_disk t = on_disk s" if "a = Inr v" for v
    by (rule wallet_daemonD(5) [OF assms(2) call [unfolded that] assms(4,5)])
  moreover have "refused L c {''loadwallet''} (Err (RpcError e))" if "a = Inl e" for e
    using call that unfolding refused_def by (metis fst_conv singletonI)
  ultimately show ?thesis
    using assms(3) call by (cases a) (auto simp: load_wallet_def assms(1) rpc_call_def of_rpc_def bindS_def)
qed

lemma daemon_create_wallet:
  assumes "base_client L rpc = ret c" and "wallet_daemon L c loaded on_disk" and "create_wallet L rpc name s = (r, s')"
    and "name \<notin> loaded s"
  shows "case r of Inl x \<Rightarrow> refused L c {''createwallet''} x | Inr _ \<Rightarrow> loaded s' = insert name (loaded s)"
proof -
  obtain a t where call: "rl_call L c ''createwallet'' (create_args name) s = (a, t)" by (rule prod.exhaust)
  have "loaded t = insert name (loaded s)" if "a = Inr v" for v
    by (rule wallet_daemonD(6) [OF assms(2) call [unfolded that] assms(4)])
  moreover have "refused L c {''createwallet''} (Err (RpcError e))" if "a = Inl e" for e
    using call that unfolding refused_def by (metis fst_conv singletonI)
  ultimately show ?thesis
    using assms(3) call by (cases a) (auto simp: create_wallet_def create_args_def assms(1) rpc_call_def of_rpc_def bindS_def)
qed

lemma refused_mono: "refused L c methods x \<Longrightarrow> methods \<subseteq> methods' \<Longrightarrow> refused L c methods' x"
  unfolding refused_def by blast

lemma refused_some:
  assumes "refused L c {method} x" and "method \<in> ensure_methods"
  shows "refused L c ensure_methods x"
  by (rule refused_mono [OF assms(1)]) (simp add: assms(2))

lemma ensure_methods [simp]: "''listwallets'' \<in> ensure_methods" "''listwalletdir'' \<in> ensure_methods"
    "''loadwallet'' \<in> ensure_methods" "''createwallet'' \<in> ensure_methods"
  by (simp_all add: ensure_methods_def)

lemma ensure_loaded:
  assumes base: "base_client L rpc = ret c" and daemon: "wallet_daemon L c loaded on_disk" and "name \<in> loaded s"
    and call: "ensure_wallet_loaded L rpc name s = (r, s')"
  shows "loaded s' = loaded s \<and> on_disk s' = on_disk s \<and> (r = Inr () \<or> (\<exists>x. r = Inl x \<and> refused L c {''listwallets''} x))"
proof -
  obtain a t where list: "list_wallets L rpc s = (a, t)" by (rule prod.exhaust)
  from daemon_list_wallets [OF base daemon list] assms(3) call list show ?thesis
    by (cases a) (auto simp: ensure_wallet_loaded_def bindS_def list_ex_iff)
qed

lemma ensure_unloaded:
  assumes base: "base_client L rpc = ret c" and daemon: "wallet_daemon L c loaded on_disk" and new: "name \<notin> loaded s"
    and call: "ensure_wallet_loaded L rpc name s = (r, s')"
  shows "case r of Inl x \<Rightarrow> refused L c ensure_methods x
    | Inr _ \<Rightarrow> loaded s' = insert name (loaded s) \<and> (name \<in> on_disk s \<longrightarrow> on_disk s' = on_disk s)"
proof -
  obtain a t where list: "list_wallets L rpc s = (a, t)" by (rule prod.exhaust)
  obtain b u where dir: "list_wallet_dir L rpc t = (b, u)" by (rule prod.exhaust)
  note first = daemon_list_wallets [OF base daemon list] and second = daemon_list_wallet_dir [OF base daemon dir]
  note sub = refused_some [OF _ ensure_methods(1)] refused_some [OF _ ensure_methods(2)]
    refused_some [OF _ ensure_methods(3)] refused_some [OF _ ensure_methods(4)]
  show ?thesis
  proof (cases a)
    case (Inl x)
    with first call list show ?thesis by (auto simp: ensure_wallet_loaded_def bindS_def intro: sub)
  next
    case (Inr ws)
    note listed = this
    with first new call list have rest: "(case b of Inl x \<Rightarrow> (Inl x, u)
        | Inr ds \<Rightarrow> (if name \<in> set ds then load_wallet L rpc name u else create_wallet L rpc name u)) = (r, s')"
      using dir by (auto simp: ensure_wallet_loaded_def bindS_def list_ex_iff split: sum.splits)
    show ?thesis
    proof (cases b)
      case (Inl x)
      with second rest show ?thesis by (auto intro: sub)
    next
      case (Inr ds)
      with second have ds: "set ds = on_disk t" by simp
      show ?thesis
      proof (cases "name \<in> set ds")
        case True
        with rest Inr have "load_wallet L rpc name u = (r, s')" by simp
        from daemon_load_wallet [OF base daemon this] True ds first second new show ?thesis
          by (cases r) (auto intro: sub)
      next
        case False
        with rest Inr have "create_wallet L rpc name u = (r, s')" by simp
        from daemon_create_wallet [OF base daemon this] False ds first second new show ?thesis
          by (cases r) (auto intro: sub)
      qed
    qed
  qed
qed

text \<open>
  C33. Ensuring that a wallet is loaded, whatever state the daemon is in and whichever of its calls
  it refuses. An Ok leaves exactly that wallet loaded besides those that were, and does not create
  one that is in the wallet directory; when the wallet was loaded nothing changes; the only error is
  that of a request the daemon refused; and after an Ok a second call changes nothing.
\<close>

theorem wallet_is_ensured:
  assumes client: "rl_client L (rpc_base_url rpc) (rpc_user rpc) (rpc_password rpc) = Inr c"
    and daemon: "wallet_daemon L c loaded on_disk"
    and call: "ensure_wallet_loaded L rpc name s = (r, s')"
  shows "(r = Inr () \<longrightarrow> loaded s' = insert name (loaded s) \<and> (name \<in> on_disk s \<longrightarrow> on_disk s' = on_disk s))
    \<and> (name \<in> loaded s \<longrightarrow> loaded s' = loaded s \<and> on_disk s' = on_disk s)
    \<and> (\<forall>x. r = Inl x \<longrightarrow> refused L c ensure_methods x)
    \<and> (r = Inr () \<longrightarrow> (\<forall>r2 s2. ensure_wallet_loaded L rpc name s' = (r2, s2) \<longrightarrow>
         loaded s2 = loaded s' \<and> on_disk s2 = on_disk s' \<and> (r2 = Inr () \<or> (\<exists>x. r2 = Inl x \<and> refused L c {''listwallets''} x))))"
proof -
  have base: "base_client L rpc = ret c"
    by (simp add: fun_eq_iff base_client_def of_rpc_def client)
  have again: "loaded s2 = loaded s' \<and> on_disk s2 = on_disk s'
      \<and> (r2 = Inr () \<or> (\<exists>x. r2 = Inl x \<and> refused L c {''listwallets''} x))"
    if "loaded s' = insert name (loaded s)" "ensure_wallet_loaded L rpc name s' = (r2, s2)" for r2 s2
    using that by (intro ensure_loaded [OF base daemon]) simp_all
  show ?thesis
  proof (cases "name \<in> loaded s")
    case True
    note run = ensure_loaded [OF base daemon this call]
    have "refused L c ensure_methods x" if "r = Inl x" for x
      using run that refused_some [OF _ ensure_methods(1)] by auto
    moreover have ins: "loaded s' = insert name (loaded s)" using run True by (simp add: insert_absorb)
    ultimately show ?thesis using run again [OF ins] by (intro conjI impI allI) simp_all
  next
    case False
    note run = ensure_unloaded [OF base daemon False call]
    show ?thesis
    proof (cases r)
      case (Inl x)
      with run False show ?thesis by simp
    next
      case (Inr u)
      with run have ins: "loaded s' = insert name (loaded s)" and kept: "name \<in> on_disk s \<longrightarrow> on_disk s' = on_disk s" by simp_all
      show ?thesis using again [OF ins] Inr False by (intro conjI impI allI) (simp_all add: ins kept)
    qed
  qed
qed

text \<open>A daemon whose state is the loaded names and the names on disk.\<close>

definition ex_dir :: "string list \<Rightarrow> unit json" where
  "ex_dir ws = JObject [(''wallets'', JArray (map (\<lambda>w. JObject [(''name'', JString w)]) ws))]"

definition ex_call :: "unit \<Rightarrow> string \<Rightarrow> unit json list \<Rightarrow> string list \<times> string list
    \<Rightarrow> (string + unit json) \<times> (string list \<times> string list)" where
  "ex_call c method args s =
     (if method = ''listwallets'' then (Inr (JArray (map JString (fst s))), s)
      else if method = ''listwalletdir'' then (Inr (ex_dir (snd s)), s)
      else case args of
          JString n # rest \<Rightarrow>
            if method = ''loadwallet'' \<and> n \<in> set (snd s) \<and> n \<notin> set (fst s) then (Inr JNull, (n # fst s, snd s))
            else if method = ''createwallet'' \<and> n \<notin> set (snd s) \<and> rest \<noteq> [] then (Inr JNull, (n # fst s, n # snd s))
            else (Inl ''refused'', s)
        | _ \<Rightarrow> (Inl ''bad arguments'', s))"

fun ex_strings :: "unit json \<Rightarrow> string + string list" where
  "ex_strings (JArray vs) = Inr (List.map_filter json_as_str vs)"
| "ex_strings _ = Inl ''expected an array''"

definition ex_rpc_lib :: "(unit, unit, string, string list \<times> string list) rpc_lib" where
  "ex_rpc_lib = \<lparr>rl_client = (\<lambda>u n p. Inr ()), rl_call = ex_call, rl_get_block_count = (\<lambda>c s. (Inr 0, s)),
     rl_string = (\<lambda>v. Inl ''''), rl_strings = ex_strings, rl_descriptor_info = (\<lambda>v. Inl ''''),
     rl_import_results = (\<lambda>v. Inl ''''), rl_utxos = (\<lambda>v. Inl ''''), rl_transactions = (\<lambda>v. Inl ''''),
     rl_funded_psbt = (\<lambda>v. Inl ''''), rl_f64_of_int = (\<lambda>i. ()), rl_json_of_f64 = JFloat, rl_f64_zero = ()\<rparr>"

lemma map_filter_JString [simp]: "List.map_filter json_as_str (map JString ws) = ws"
  by (induction ws) (simp_all add: List.map_filter_simps)

lemma ex_calls:
  "ex_call c ''listwallets'' args s = (Inr (JArray (map JString (fst s))), s)"
  "ex_call c ''listwalletdir'' args s = (Inr (ex_dir (snd s)), s)"
  "ex_call c ''loadwallet'' [JString n] s =
    (if n \<in> set (snd s) \<and> n \<notin> set (fst s) then (Inr JNull, (n # fst s, snd s)) else (Inl ''refused'', s))"
  "ex_call c ''createwallet'' (create_args n) s =
    (if n \<notin> set (snd s) then (Inr JNull, (n # fst s, n # snd s)) else (Inl ''refused'', s))"
  by (simp_all add: ex_call_def create_args_def)

lemma ex_dir_listing: "dir_listing (ex_dir ws) ws"
  by (simp add: dir_listing_def ex_dir_def)

lemma ex_rl [simp]: "rl_call ex_rpc_lib = ex_call" "rl_strings ex_rpc_lib = ex_strings"
  by (simp_all add: ex_rpc_lib_def)

lemma ex_wallet_daemon: "wallet_daemon ex_rpc_lib () (set \<circ> fst) (set \<circ> snd)"
  unfolding wallet_daemon_def ex_rl ex_calls
proof (intro conjI allI impI)
  show "\<exists>ws. dir_listing v ws \<and> set ws = (set \<circ> snd) s" if "(Inr (ex_dir (snd s)), s) = (Inr v, s')"
    for s s' :: "string list \<times> string list" and v
    using that ex_dir_listing by auto
qed (auto split: if_splits)

theorem wallet_is_ensured_witness:
  "\<exists>s'. ensure_wallet_loaded ex_rpc_lib (elements_rpc_new ''http://node'' ''u'' ''p'') ''fees'' ([''a''], [''a'', ''fees''])
      = (Inr (), s') \<and> set (fst s') = {''fees'', ''a''} \<and> set (snd s') = {''a'', ''fees''}"
proof -
  let ?rpc = "elements_rpc_new ''http://node'' ''u'' ''p''"
  let ?s = "([''a''], [''a'', ''fees''])" and ?s' = "([''fees'', ''a''], [''a'', ''fees''])"
  have call: "ensure_wallet_loaded ex_rpc_lib ?rpc ''fees'' ?s = (Inr (), ?s')" by code_simp
  have "rl_client ex_rpc_lib (rpc_base_url ?rpc) (rpc_user ?rpc) (rpc_password ?rpc) = Inr ()"
    by (simp add: ex_rpc_lib_def)
  note wallet_is_ensured [OF this ex_wallet_daemon call, THEN conjunct1, THEN mp, OF refl]
  then have "(set \<circ> fst) ?s' = insert ''fees'' ((set \<circ> fst) ?s)"
    and "''fees'' \<in> (set \<circ> snd) ?s \<Longrightarrow> (set \<circ> snd) ?s' = (set \<circ> snd) ?s" by blast+
  then show ?thesis unfolding call by (intro exI [of _ ?s']) simp
qed

end
