(* ===== verification/Rpc_Wallets.thy ===== *)
theory Rpc_Wallets
  imports Rpc
begin

text \<open>
  Which requests the methods of \<open>src/rpc.rs\<close> that take a wallet's name make, and to which endpoint:
  over any daemon and any session of these methods, all of them go to the URL made of that name, and
  none is of a kind that creates, loads or unloads a wallet or has the daemon sign. The name is put
  into the URL as it is, and for a name with a percent escape the endpoint is another wallet's.
\<close>

section \<open>The request log\<close>

text \<open>The transport with a log beside its state: the URL, the method and the arguments of each request.\<close>

definition traced ::
    "('n, 'c, 'e, 's) rpc_lib \<Rightarrow> ('n, string \<times> 'c, 'e, 's \<times> (string \<times> string \<times> 'n json list) list) rpc_lib" where
  "traced L = \<lparr>
     rl_client = (\<lambda>url user password. case rl_client L url user password of Inl e \<Rightarrow> Inl e | Inr c \<Rightarrow> Inr (url, c)),
     rl_call = (\<lambda>(url, c) method args (s, log).
       case rl_call L c method args s of (r, s') \<Rightarrow> (r, s', log @ [(url, method, args)])),
     rl_get_block_count = (\<lambda>(url, c) (s, log).
       case rl_get_block_count L c s of (r, s') \<Rightarrow> (r, s', log @ [(url, ''getblockcount'', [])])),
     rl_string = rl_string L, rl_strings = rl_strings L, rl_descriptor_info = rl_descriptor_info L,
     rl_import_results = rl_import_results L, rl_utxos = rl_utxos L, rl_transactions = rl_transactions L,
     rl_funded_psbt = rl_funded_psbt L, rl_f64_of_int = rl_f64_of_int L, rl_json_of_f64 = rl_json_of_f64 L,
     rl_f64_zero = rl_f64_zero L\<rparr>"

text \<open>What a session on one wallet may ask for: \<open>walletprocesspsbt\<close> only with \<open>sign\<close> false.\<close>

definition wallet_request :: "string \<Rightarrow> 'n json list \<Rightarrow> bool" where
  "wallet_request method args \<longleftrightarrow>
     method \<in> {''importdescriptors'', ''importblindingkey'', ''dumpblindingkey'', ''getbalances'', ''listunspent'',
       ''listtransactions'', ''gettransaction'', ''walletcreatefundedpsbt''}
     \<or> (\<exists>psbt. method = ''walletprocesspsbt'' \<and> args = [JString psbt, JBool False, JString ''ALL'', JBool True])"

definition own_requests :: "string \<Rightarrow> (string \<times> string \<times> 'n json list) list \<Rightarrow> bool" where
  "own_requests url log \<longleftrightarrow> (\<forall>(u, method, args) \<in> set log. u = url \<and> wallet_request method args)"

lemma own_requests_simps [simp]: "own_requests url []"
  "own_requests url (a @ b) \<longleftrightarrow> own_requests url a \<and> own_requests url b"
  "own_requests url [(u, method, args)] \<longleftrightarrow> u = url \<and> wallet_request method args"
  by (simp_all add: own_requests_def ball_Un)

text \<open>The states a client reaches with the methods for one wallet, successful or not.\<close>

inductive wallet_session ::
    "('n, 'c, 'e, 's) rpc_lib \<Rightarrow> elements_rpc \<Rightarrow> string \<Rightarrow> 's \<Rightarrow> 's \<Rightarrow> bool"
  for L :: "('n, 'c, 'e, 's) rpc_lib" and rpc :: elements_rpc and name :: string where
  session_start: "wallet_session L rpc name s s"
| session_import: "wallet_session L rpc name s t \<Longrightarrow> wallet_session L rpc name s (snd (import_descriptors L rpc name ds t))"
| session_blinding_key: "wallet_session L rpc name s t \<Longrightarrow>
    wallet_session L rpc name s (snd (import_blinding_key L rpc name addr key t))"
| session_dump: "wallet_session L rpc name s t \<Longrightarrow> wallet_session L rpc name s (snd (dump_blinding_key L rpc name addr t))"
| session_balances: "wallet_session L rpc name s t \<Longrightarrow> wallet_session L rpc name s (snd (get_balances L rpc name t))"
| session_unspent: "wallet_session L rpc name s t \<Longrightarrow> wallet_session L rpc name s (snd (rpc_list_unspent L rpc name t))"
| session_transactions: "wallet_session L rpc name s t \<Longrightarrow>
    wallet_session L rpc name s (snd (list_transactions L rpc name t))"
| session_transaction_hex: "wallet_session L rpc name s t \<Longrightarrow>
    wallet_session L rpc name s (snd (get_wallet_transaction_hex L rpc name tid t))"
| session_fund: "wallet_session L rpc name s t \<Longrightarrow>
    wallet_session L rpc name s (snd (wallet_create_funded_psbt L rpc name outs fee t))"
| session_fund_drain: "wallet_session L rpc name s t \<Longrightarrow>
    wallet_session L rpc name s (snd (wallet_create_funded_psbt_drain L rpc name outs fee t))"
| session_fund_inputs: "wallet_session L rpc name s t \<Longrightarrow>
    wallet_session L rpc name s (snd (wallet_create_funded_psbt_with_inputs L rpc name ins outs idx fee t))"
| session_update: "wallet_session L rpc name s t \<Longrightarrow>
    wallet_session L rpc name s (snd (wallet_update_psbt L rpc name psbt t))"

section \<open>One method\<close>

text \<open>
  An action over the logging transport does what it does over the plain one, and what it adds to the
  log are requests of a session to one URL.
\<close>

definition logs ::
    "string \<Rightarrow> ('s, 'e, 'a) act \<Rightarrow> ('s \<times> (string \<times> string \<times> 'n json list) list, 'e, 'a) act \<Rightarrow> bool" where
  "logs url m m' \<longleftrightarrow> (\<forall>s log. \<exists>new. m' (s, log) = (fst (m s), snd (m s), log @ new) \<and> own_requests url new)"

lemma logs_bind:
  assumes "logs url m m'" and "\<And>a. logs url (g a) (g' a)"
  shows "logs url (bindS m g) (bindS m' g')"
  unfolding logs_def
proof (intro allI)
  fix s log
  obtain new where m: "m' (s, log) = (fst (m s), snd (m s), log @ new)" "own_requests url new"
    using assms(1) unfolding logs_def by blast
  show "\<exists>new. bindS m' g' (s, log) = (fst (bindS m g s), snd (bindS m g s), log @ new) \<and> own_requests url new"
  proof (cases "fst (m s)")
    case (Inl e)
    with m show ?thesis by (cases "m s") (auto simp: bindS_def)
  next
    case (Inr a)
    obtain more where "g' a (snd (m s), log @ new) = (fst (g a (snd (m s))), snd (g a (snd (m s))), (log @ new) @ more)"
        "own_requests url more"
      using assms(2) [of a] unfolding logs_def by blast
    with m Inr show ?thesis by (intro exI [of _ "new @ more"]) (cases "m s", simp add: bindS_def)
  qed
qed

lemma logs_pure: "logs url (ret a) (ret a)" "logs url (ok_or_bad msg x) (ok_or_bad msg x)"
  by (auto simp: logs_def ret_def of_result_def ok_or_bad_def intro!: exI [of _ "[]"])

lemma logs_call:
  assumes "wallet_request method args"
  shows "logs url (rpc_call L decode c method args) (rpc_call (traced L) decode (url, c) method args)"
  using assms by (auto simp: logs_def rpc_call_def traced_def split: prod.split sum.split)

lemma logs_endpoint:
  assumes "\<And>c. logs (rpc_base_url rpc @ ''/wallet/'' @ name) (g c) (g' (rpc_base_url rpc @ ''/wallet/'' @ name, c))"
  shows "logs (rpc_base_url rpc @ ''/wallet/'' @ name)
    (bindS (client_for_wallet L rpc name) g) (bindS (client_for_wallet (traced L) rpc name) g')"
proof (cases "rl_client L (rpc_base_url rpc @ ''/wallet/'' @ name) (rpc_user rpc) (rpc_password rpc)")
  case (Inl e)
  then show ?thesis by (simp add: logs_def client_for_wallet_def traced_def of_result_def of_rpc_def bindS_def)
next
  case (Inr c)
  with assms [of c] show ?thesis by (simp add: logs_def client_for_wallet_def traced_def of_result_def of_rpc_def bindS_def)
qed

lemma traced_decoders [simp]:
  "rl_string (traced L) = rl_string L" "rl_import_results (traced L) = rl_import_results L" "rl_utxos (traced L) = rl_utxos L"
  "rl_transactions (traced L) = rl_transactions L" "rl_funded_psbt (traced L) = rl_funded_psbt L"
  "rl_json_of_f64 (traced L) = rl_json_of_f64 L" "extract_btc_balance (traced L) = extract_btc_balance L"
proof -
  have "json_as_f64 (traced L) = json_as_f64 L"
  proof
    show "json_as_f64 (traced L) v = json_as_f64 L v" for v by (cases v) (simp_all add: traced_def)
  qed
  moreover have "rl_f64_zero (traced L) = rl_f64_zero L" by (simp add: traced_def)
  ultimately show "extract_btc_balance (traced L) = extract_btc_balance L"
    unfolding extract_btc_balance_def by (simp only:)
qed (simp_all add: traced_def)

lemmas wallet_method_defs = import_descriptors_def import_blinding_key_def dump_blinding_key_def get_balances_def
  rpc_list_unspent_def list_transactions_def get_wallet_transaction_hex_def wallet_create_funded_psbt_def
  wallet_create_funded_psbt_drain_def wallet_create_funded_psbt_with_inputs_def wallet_update_psbt_def

lemma wallet_requests:
  "wallet_request ''importdescriptors'' args" "wallet_request ''importblindingkey'' args"
  "wallet_request ''dumpblindingkey'' args" "wallet_request ''getbalances'' args" "wallet_request ''listunspent'' args"
  "wallet_request ''listtransactions'' args" "wallet_request ''gettransaction'' args"
  "wallet_request ''walletcreatefundedpsbt'' args"
  "wallet_request ''walletprocesspsbt'' [JString psbt, JBool False, JString ''ALL'', JBool True]"
  by (simp_all add: wallet_request_def)

lemma wallet_methods_log:
  fixes L :: "('n, 'c, 'e, 's) rpc_lib" and rpc :: elements_rpc and name :: string
  defines "own \<equiv> rpc_base_url rpc @ ''/wallet/'' @ name"
  shows "logs own (import_descriptors L rpc name ds) (import_descriptors (traced L) rpc name ds)"
    "logs own (import_blinding_key L rpc name addr key) (import_blinding_key (traced L) rpc name addr key)"
    "logs own (dump_blinding_key L rpc name addr) (dump_blinding_key (traced L) rpc name addr)"
    "logs own (get_balances L rpc name) (get_balances (traced L) rpc name)"
    "logs own (rpc_list_unspent L rpc name) (rpc_list_unspent (traced L) rpc name)"
    "logs own (list_transactions L rpc name) (list_transactions (traced L) rpc name)"
    "logs own (get_wallet_transaction_hex L rpc name tid) (get_wallet_transaction_hex (traced L) rpc name tid)"
    "logs own (wallet_create_funded_psbt L rpc name outs fee) (wallet_create_funded_psbt (traced L) rpc name outs fee)"
    "logs own (wallet_create_funded_psbt_drain L rpc name outs fee) (wallet_create_funded_psbt_drain (traced L) rpc name outs fee)"
    "logs own (wallet_create_funded_psbt_with_inputs L rpc name ins outs idx fee)
       (wallet_create_funded_psbt_with_inputs (traced L) rpc name ins outs idx fee)"
    "logs own (wallet_update_psbt L rpc name psbt) (wallet_update_psbt (traced L) rpc name psbt)"
  unfolding own_def wallet_method_defs traced_decoders
  by (intro logs_endpoint logs_bind logs_call logs_pure wallet_requests)+

section \<open>The property\<close>

text \<open>A session over the logging transport is a session over the plain one with its log beside it.\<close>

lemma session_log_step:
  fixes rpc :: elements_rpc and name :: string
  defines "own \<equiv> rpc_base_url rpc @ ''/wallet/'' @ name"
  assumes "logs own m m'" and "wallet_session L rpc name s (fst t) \<and> (\<exists>new. snd t = old @ new \<and> own_requests own new)"
    and "wallet_session L rpc name s (fst t) \<Longrightarrow> wallet_session L rpc name s (snd (m (fst t)))"
  shows "wallet_session L rpc name s (fst (snd (m' t))) \<and> (\<exists>new. snd (snd (m' t)) = old @ new \<and> own_requests own new)"
proof -
  obtain new where "m' t = (fst (m (fst t)), snd (m (fst t)), snd t @ new)" "own_requests own new"
    using assms(2) unfolding logs_def by (metis prod.collapse)
  with assms(3,4) show ?thesis by auto
qed

lemma session_log:
  assumes "wallet_session (traced L) rpc name a b"
  shows "wallet_session L rpc name (fst a) (fst b)
    \<and> (\<exists>new. snd b = snd a @ new \<and> own_requests (rpc_base_url rpc @ ''/wallet/'' @ name) new)"
  using assms
proof (induction rule: wallet_session.induct)
  case session_start
  then show ?case by (auto intro: wallet_session.session_start)
qed (rule session_log_step, rule wallet_methods_log, assumption, erule wallet_session.intros)+

lemma session_traced_step:
  assumes "logs (rpc_base_url rpc @ ''/wallet/'' @ name) m m'"
    and "\<exists>log. wallet_session (traced L) rpc name (s, []) (t, log)"
    and "\<And>log. wallet_session (traced L) rpc name (s, []) (t, log) \<Longrightarrow> wallet_session (traced L) rpc name (s, []) (snd (m' (t, log)))"
  shows "\<exists>log. wallet_session (traced L) rpc name (s, []) (snd (m t), log)"
proof -
  from assms(2) obtain log where session: "wallet_session (traced L) rpc name (s, []) (t, log)" ..
  obtain new where "m' (t, log) = (fst (m t), snd (m t), log @ new)" using assms(1) unfolding logs_def by blast
  with assms(3) [OF session] show ?thesis by auto
qed

lemma session_traced:
  assumes "wallet_session L rpc name s s'"
  shows "\<exists>log. wallet_session (traced L) rpc name (s, []) (s', log)"
  using assms
proof (induction rule: wallet_session.induct)
  case session_start
  then show ?case by (auto intro: wallet_session.session_start)
qed (rule session_traced_step, rule wallet_methods_log, assumption, erule wallet_session.intros)+

text \<open>
  C34. A session on one wallet stays at its endpoint, whatever the daemon is and does: of all the
  requests that any calls of the eleven methods that take a wallet's name make for one name,
  whatever they are given and however they end, each goes to the URL made of the base URL and that
  name, none is of a kind that creates, loads or unloads a wallet, and none has the daemon sign.
\<close>

theorem wallet_session_confined:
  assumes "wallet_session (traced L) rpc name (s, []) (s', log)" and "(url, method, args) \<in> set log"
  shows "url = rpc_base_url rpc @ ''/wallet/'' @ name \<and> wallet_request method args"
  using session_log [OF assms(1)] assms(2) by (auto simp: own_requests_def)

text \<open>
  A daemon that counts the requests each wallet's endpoint gets; like the real one it takes the
  name from the URL and decodes a percent escape (here only that of the letter \<open>b\<close>).
\<close>

fun url_decode :: "string \<Rightarrow> string" where
  "url_decode [] = []"
| "url_decode (c # s) = (if c = CHR ''%'' \<and> take 2 s = ''62'' then CHR ''b'' # url_decode (drop 2 s)
     else c # url_decode s)"

definition counting_daemon :: "(unit, string, string, string list) rpc_lib" where
  "counting_daemon = \<lparr>rl_client = (\<lambda>url n p. Inr (url_decode (drop 19 url))),
     rl_call = (\<lambda>c m args s. (Inl ''refused'', c # s)), rl_get_block_count = (\<lambda>c s. (Inr 0, s)),
     rl_string = (\<lambda>v. Inl ''''), rl_strings = (\<lambda>v. Inl ''''), rl_descriptor_info = (\<lambda>v. Inl ''''),
     rl_import_results = (\<lambda>v. Inl ''''), rl_utxos = (\<lambda>v. Inl ''''), rl_transactions = (\<lambda>v. Inl ''''),
     rl_funded_psbt = (\<lambda>v. Inl ''''), rl_f64_of_int = (\<lambda>i. ()), rl_json_of_f64 = JFloat, rl_f64_zero = ()\<rparr>"

definition node_rpc :: elements_rpc where
  "node_rpc = elements_rpc_new ''http://node'' ''u'' ''p''"

theorem wallet_session_confined_witness:
  "\<exists>s log. wallet_session (traced counting_daemon) node_rpc ''fees'' ([], []) (s, log) \<and> length log = 2
    \<and> fst (log ! 0) = ''http://node/wallet/fees'' \<and> wallet_request (fst (snd (log ! 0))) (snd (snd (log ! 0)))"
proof -
  let ?D = "traced counting_daemon"
  let ?s = "snd (wallet_update_psbt ?D node_rpc ''fees'' ''cHNldP8='' (snd (rpc_list_unspent ?D node_rpc ''fees'' ([], []))))"
  have session: "wallet_session ?D node_rpc ''fees'' ([], []) ?s"
    by (intro session_update session_unspent session_start)
  obtain s log where end_: "?s = (s, log)" by (rule prod.exhaust)
  have "map fst (snd ?s) = [''http://node/wallet/fees'', ''http://node/wallet/fees'']" by code_simp
  then have len: "length log = 2" unfolding end_ snd_conv by (metis length_map length_Cons list.size(3) numeral_2_eq_2)
  then have "(fst (log ! 0), fst (snd (log ! 0)), snd (snd (log ! 0))) \<in> set log" by simp
  from wallet_session_confined [OF session [unfolded end_] this] session end_ len show ?thesis
    by (auto simp: node_rpc_def elements_rpc_new_def)
qed

text \<open>A name with a percent escape is not escaped again: the request reaches another wallet.\<close>

lemma escaped_name_reaches_other_wallet:
  "snd (get_balances counting_daemon node_rpc ''%62ob'' []) = [''bob'']"
  by code_simp

end
