(* ===== verification/Spec2Isabelle.thy ===== *)
theory Spec2Isabelle
  imports Sync_Orphans Sync_Moving Sync_Late Sync_Checked Vault_Spend Remote_Signing Pset_Stages
    Descriptor_Text Debug_Text Engine_Tests Spend_Tests Rpc_Wallets
begin

text \<open>
  Verification of the crate \<open>emvault-elements\<close>: the Elements/Liquid side of a vault whose keys are
  held by a federation of signers.

  \<^bold>\<open>The program and its theories.\<close> A federation of \<open>emvault-core\<close> and a master blinding key become a
  confidential descriptor (\<open>src/descriptor.rs\<close>); the descriptor becomes a wollet that knows its
  scripts and unblinds its outputs (\<open>src/wollet.rs\<close>, \<open>src/network.rs\<close>); the wollets of successive
  federations form a federated wallet (\<open>src/federated_wallet.rs\<close>). A block-scan engine
  (\<open>src/sync/scan.rs\<close>) reads the blocks of a node, matches outputs against the registered wollets and
  writes them to two stores, all three behind traits (\<open>src/sync/mod.rs\<close>) with in-memory
  implementations (\<open>src/sync/fakes.rs\<close>). Spends, sweeps and migrations are built from the captured
  outputs (\<open>src/spend.rs\<close>), blinded and checked (\<open>src/pset.rs\<close>, \<open>src/confidential.rs\<close>), signed through
  a coordinator that counts the members' signatures (\<open>src/pset.rs\<close>, \<open>src/signer.rs\<close>,
  \<open>src/testkit.rs\<close>) and finalised. \<open>src/rpc.rs\<close> binds the JSON-RPC of an Elements daemon.

  \<^item> \<open>EV_Prelude\<close>: words, results and actions, decimal rendering, association lists, \<open>u32\<close> ranges.
  \<^item> \<open>Elements_Types\<close>: the data of the \<open>elements\<close> crate and the five error enums of \<open>src/error.rs\<close>.
  \<^item> \<open>Network\<close>, \<open>Hex\<close>, \<open>Wollet\<close>: \<open>ElementsNetwork\<close>; the hex encoders and their round trip;
    \<open>ElementsWollet\<close> with its watched scripts.
  \<^item> \<open>Core_Types\<close>, \<open>Descriptor\<close>, \<open>Federated_Wallet\<close>: what is used of \<open>emvault-core\<close>;
    \<open>CtDescriptorBuilder\<close> and \<open>to_multipath_string\<close>; \<open>ElementsFederatedWallet\<close> and the wollet
    constructors that start from a wallet handle. \<open>Descriptor_Text\<close>: a descriptor's text can be read
    back. \<open>Debug_Text\<close>: the \<open>Debug\<close> renderings of wollets and wallets.
  \<^item> \<open>Sync_Types\<close>, \<open>Sync_Scan\<close>, \<open>Sync_Fakes\<close>: wallet ids, captured outputs and the trait records;
    \<open>BlockScanEngine\<close>; \<open>MemUtxoStore\<close>, \<open>MemBlockStore\<close>, \<open>MockChainSource\<close>.
  \<^item> \<open>Ledger\<close>: the map a UTXO store represents and the contracts of the three traits, as the locales
    \<open>utxo_store\<close>, \<open>block_store\<close>, \<open>stable_chain_source\<close>.
  \<^item> \<open>Wallet_Ledger\<close>, \<open>Ledger_Meaning\<close>: the specification of a scan: the ledger that the events of a
    chain leave, and what it holds without events (the captured outputs no input refers to).
  \<^item> \<open>Sync_Block\<close>, \<open>Sync_Correct\<close>: one block and one pass against the specification, in the locale
    \<open>scan_env\<close>; \<open>Sync_Total\<close>: when a pass returns \<open>Ok\<close> (\<open>reliable_env\<close>); \<open>Sync_Failure\<close>: the cursor
    after a failure; \<open>Partial_Ledger\<close>, \<open>Sync_Retry\<close>: what a broken-off pass leaves and why retries
    converge (\<open>retry_env\<close>); \<open>Sync_Register\<close>: the script index. Every locale is interpreted on the
    in-memory stores and the scripted node.
  \<^item> \<open>Sync_Properties\<close>, \<open>Sync_Recovery\<close>: the theorems of the scan pipeline; \<open>Sync_Findings\<close>: histories
    in which it goes wrong, evaluated. \<open>Sync_Orphans\<close>: what a pass keeps above the fork when an earlier
    one failed, for any stores and nodes; \<open>Sync_Moving\<close>: the cursor over a node whose chain may be
    another at every call. \<open>Sync_Wallets\<close>: the listings in terms of the registered wallets,
    without the script index; \<open>Sync_Bounds\<close>: the numbers in a stored entry; \<open>Sync_Late\<close>: what a
    registration after a scan misses; \<open>Sync_Checked\<close>: the pass with overflow checks.
  \<^item> \<open>Pset\<close>, \<open>Finalize\<close>, \<open>Coordinator\<close>: the PSET newtypes, blinding, input secrets and
    \<open>validate_blinding\<close>; \<open>finalize_p2wsh_pset\<close> and the satisfaction of a multisig script;
    \<open>ElementsSigningCoordinator\<close>. \<open>Pset_Properties\<close>: their theorems. \<open>Coordinator_Order\<close>: the
    specification of a coordinator (a map of signatures for each input, a set of members) that
    \<open>receive_signature\<close> refines, and the order of deliveries. \<open>Pset_Stages\<close>: the invariants of the
    newtypes over every function that makes one.
  \<^item> \<open>Testkit\<close>, \<open>Signing\<close>, \<open>Remote_Signing\<close>: \<open>SoftwareSigner\<close>; signing through the coordinator from a
    blinded PSET to a transaction, by software signers and by members who send signed PSETs.
  \<^item> \<open>Spend\<close>, \<open>Spend_Properties\<close>: the three transaction builders and chaining from an unconfirmed
    output; what the builders hand to LWK and write into the PSET. \<open>Scan_To_Spend\<close>: from listed
    outputs to a spend; \<open>Vault_Spend\<close>: the whole way of a coin, from the scan to a transaction with
    witnesses. \<open>Batch_Migration\<close>: the migration helpers of the tests, and lemmas on where the money goes
    when the test's three transactions are generalised to any chain of balanced hops (\<open>run_hops\<close> and
    \<open>run_batch\<close> are compositions of those helpers, not code of the crate); \<open>Accounts_Move\<close>: one transaction that moves the coins of several accounts, each under
    its own threshold; \<open>Small_LWK\<close>: a concrete instance of the libraries that keeps their promises.
  \<^item> \<open>Rpc\<close>: \<open>ElementsRpc\<close>: each method with the arguments it sends and its treatment of the response.
    \<open>Rpc_Wallets\<close>: which wallet of the daemon a request reaches.
  \<^item> \<open>Test_Harness\<close>, \<open>Unit_Tests\<close>, \<open>Engine_Tests\<close>, \<open>Spend_Tests\<close>: the crate's own tests (of the descriptor
    builder, the wallets, the newtypes, the stores, the engine and the spend path) evaluated on the
    model: every assertion holds.

  \<^bold>\<open>How the code is modelled.\<close> Structs are records, enums datatypes, \<open>u32\<close>/\<open>u64\<close> values words whose
  arithmetic wraps as in a release build (\<open>Sync_Checked\<close> has the build with overflow checks),
  \<open>usize\<close> values (indices, the summary's counters of captured, spent and skipped outputs) unbounded
  natural numbers, a \<open>HashMap\<close> an association list with distinct keys (no theorem depends on
  its order), a \<open>BTreeMap\<close> one read by key or kept sorted.
  A call returns \<open>Inr\<close>, an error \<open>Inl (Err e)\<close>, or panics \<open>Inl (Panic msg)\<close>; what the standard library
  panics on (an index out of bounds, \<open>expect\<close>) is such a branch. A method that changes state is an
  action, a function from the state to a result and the state afterwards, so a failing call keeps
  what was already written. A trait is the record of its methods. Functions of crates whose source is
  not in the repository are fields of parameter records: \<open>elements_lib\<close>, \<open>lwk_lib\<close>, \<open>ct_lib\<close>,
  \<open>bitcoin_lib\<close>, \<open>pset_lib\<close>, \<open>desc_lib\<close>, \<open>tx_lib\<close>, \<open>key_lib\<close>, \<open>rpc_lib\<close>; where a theorem relies on one, the
  documented behaviour is a hypothesis of the theorem and its witness supplies a concrete function.
  \<open>PartiallySignedTransaction::extract_tx\<close> is called by the coordinator (\<open>pl_extract_tx\<close>) and by the
  software signer, for the sighash (\<open>kl_extract_tx\<close>); no theorem needs the two fields to agree, and none
  assumes that extraction succeeds: finalisation returns what it returns (\<open>extracted\<close>).

  \<^bold>\<open>What the theorems show.\<close>
  \<^item> Scanning. A pass that returns \<open>Ok\<close> takes stores synced with a chain to stores synced with the
    node's chain, by the shortest rollback, for every implementation of the traits; over the
    in-memory stores it returns \<open>Ok\<close>. The listed outputs are exactly those of the scanned chain that
    a registered wallet owns, can unblind and no input spends, after any passes that returned \<open>Ok\<close> and
    reorgs between them; another pass then changes nothing. A failing pass never moves the cursor
    forward, and retries over a growing chain converge whatever the failed passes had written, over
    stores whose failing calls write nothing and whose rollback of UTXOs does not fail.
    Heights and counters stay in bounds: a build with overflow checks behaves the same.
  \<^item> Wallets. The descriptor string has the keys in the order of the signers' ids however they were
    added and determines all it was built from but those ids; LWK is handed its two-chain form, however
    the library renders the keys, and the same blinding key; every version of a federated wallet is on one network and keeps its index.
  \<^item> Spending. Every input of a built transaction is updated with the descriptor at its own output's
    chain and index; the descriptor cache of a migration changes nothing; a migration of one
    wallet's outputs is a sweep; a transaction of listed coins, however it is built, spends what is
    unspent on the chain, and once signed its witnesses satisfy the scripts the coins commit to, also
    where one migration moves the coins of several federations.
  \<^item> Signing. Only members are counted, each once; received PSETs only add signatures; nothing is
    extracted below the threshold; enough members signing brings finalisation to the extraction of a
    transaction whose witnesses satisfy their multisig scripts, whoever signs first, as long as the
    members' PSETs offer no signatures for the same key.
  \<^item> Daemon. Ensuring that a wallet is loaded, under a contract that speaks of answered calls only (any
    call may be refused); which endpoint the requests of a session on a wallet go to.

  \<^bold>\<open>Assumptions and bounds.\<close> Chains are shorter than \<open>2 ^ 32\<close> blocks and well formed (\<open>wf_chain\<close>: unique
  transaction ids, inputs that refer to earlier transactions), block hashes tell the blocks of a chain
  apart, and two chains have the same first block and, where they have the same hash at a height, agree below
  it (\<open>linked\<close>). No definition uses
  fuel: the loops run over lists or ranges, and the walk to the common ancestor ends at height 0
  (measure \<open>unat h\<close>).

  \<^bold>\<open>Where the code departs from its intent.\<close> Proved as theorems or evaluated on histories: a pass that
  fails before a reorg above the cursor, one that fails between the two rollbacks (\<open>Sync_Orphans\<close>), and
  a node that reorganises during a pass (\<open>Sync_Moving\<close>) each leave stores that disagree with the cursor;
  an output captured again loses its spend (\<open>upsert_forgets_spend\<close>); the clamp for
  a stored tip ahead of the node is not reached (\<open>shorter_node_fails\<close>); \<open>add_signer\<close> replaces a key
  before it reports the duplicate; inputs with too few signatures are finalised; a received PSET
  attributes signatures by its own word and can make the coordinator panic (\<open>Pset_Properties\<close>);
  a wallet registered after a scan never gets the outputs of the scanned blocks (\<open>Sync_Late\<close>); a daemon wallet's name goes into a URL
  unescaped (\<open>Rpc_Wallets\<close>); the \<open>Debug\<close> text of a wollet contains its master blinding key (\<open>Debug_Text\<close>).

  \<^bold>\<open>Not modelled.\<close> The mutexes of the fakes (no operation holds one across a call of another); the
  crate root (module declarations); two tests that assert facts about \<open>elements-miniscript\<close> only
  (\<open>at_derivation_index_works\<close>, \<open>ct_descriptor_blinding_key_matches_slip77\<close>). Transport, serialisation,
  cryptography and coin selection belong to other crates and are parameters; derived \<open>Debug\<close> of the
  types of other crates is not needed by any definition.
\<close>

end
